(* ===== verification/Prelude.thy ===== *)
theory Prelude
  imports Main "HOL-Library.Word"
begin

text \<open>
  The shared prelude of the development: the collections of simplification rules the
  component theories extend, the names of the machine types of the C and C++ sources, and the
  generic lemmas on lists and options that several components use.
\<close>

section \<open>Collections\<close>

text \<open>
  \<open>c_sizes\<close>: the sizes of the C structures and buffers, unfolded where a layout is computed.
  \<open>loc_inv\<close>: what the operations of the engine keep, one fact for each operation.
\<close>

named_theorems c_sizes \<open>sizes of structures and buffers\<close>
named_theorems loc_inv \<open>what the operations of the engine keep\<close>

section \<open>Machine types\<close>

text \<open>The sources target 32-bit ARM: \<open>int\<close>, \<open>long\<close>, \<open>size_t\<close> and pointers have 32 bits.\<close>

type_synonym uint8 = "8 word"
type_synonym uint32 = "32 word"
type_synonym uint64 = "64 word"

text \<open>Memory addresses; \<open>None\<close> of type \<open>addr option\<close> is the \<open>NULL\<close> pointer.\<close>

type_synonym addr = nat

text \<open>Small integers survive the conversion to a signed 32-bit word.\<close>

lemma sint_of_int32:
  "\<lbrakk>- (2 ^ 31) \<le> x; x < 2 ^ 31\<rbrakk> \<Longrightarrow> sint (word_of_int x :: uint32) = x"
  by (simp add: signed_of_int signed_take_bit_int_eq_self)

lemma sint_bounds32: "- (2 ^ 31) \<le> sint (a :: uint32)" "sint (a :: uint32) < 2 ^ 31"
  using sint_ge [of a] sint_lt [of a] by simp_all

section \<open>Lists\<close>

fun hd_opt :: "'a list \<Rightarrow> 'a option" where
  "hd_opt [] = None"
| "hd_opt (x # xs) = Some x"

fun last_opt :: "'a list \<Rightarrow> 'a option" where
  "last_opt [] = None"
| "last_opt (x # xs) = Some (last (x # xs))"

lemma hd_opt_None [simp]: "hd_opt xs = None \<longleftrightarrow> xs = []"
  by (cases xs) auto

lemma None_hd_opt [simp]: "None = hd_opt xs \<longleftrightarrow> xs = []"
  by (cases xs) auto

lemma hd_opt_Some [simp]: "hd_opt xs = Some x \<longleftrightarrow> (\<exists>ys. xs = x # ys)"
  by (cases xs) auto

lemma last_opt_None [simp]: "last_opt xs = None \<longleftrightarrow> xs = []"
  by (cases xs) auto

lemma last_opt_snoc [simp]: "last_opt (xs @ [x]) = Some x"
  by (cases xs) auto

lemma None_last_opt [simp]: "None = last_opt xs \<longleftrightarrow> xs = []"
  by (cases xs) auto

lemma last_opt_append_Cons [simp]: "last_opt (xs @ x # ys) = Some (last (x # ys))"
  by (cases xs) auto

lemma hd_opt_append_Cons_Cons [simp]: "hd_opt (xs @ x # y # ys) = hd_opt (xs @ [x])"
  by (cases xs) auto

lemma map_del_last [simp]: "dom m = {a} \<Longrightarrow> m(a := None) = Map.empty"
  by (rule ext) (auto simp: domIff set_eq_iff)

lemma last_opt_append: "ys \<noteq> [] \<Longrightarrow> last_opt (xs @ ys) = last_opt ys"
  by (cases xs; cases ys) auto

lemma last_opt_Cons: "last_opt (x # xs) = (if xs = [] then Some x else last_opt xs)"
  by (cases xs) auto

lemma last_opt_Some: "last_opt xs = Some x \<longleftrightarrow> (\<exists>ys. xs = ys @ [x])"
  by (cases xs rule: rev_cases) auto

lemma hd_opt_append: "hd_opt (xs @ ys) = (if xs = [] then hd_opt ys else hd_opt xs)"
  by (cases xs) auto

text \<open>The first element that satisfies a predicate, with what is before and behind it.\<close>

lemma split_list_first_sat:
  assumes "\<exists>x \<in> set xs. P x"
  shows "\<exists>ys x zs. xs = ys @ x # zs \<and> P x \<and> (\<forall>y \<in> set ys. \<not> P y)"
  using assms split_list_first_prop_iff [of xs P] by blast

end
