(* ===== verification/Linked_List.thy ===== *)
theory Linked_List
  imports Prelude
begin

text \<open>
  The doubly linked list of \<open>gps/utils/linked_list.c\<close>. The memory of one list is explicit: a
  finite map from addresses to list elements, with the head and tail pointers of the list
  state. Every access through a pointer to memory that is not allocated is a fault, so each
  operation returns an \<open>option\<close> whose \<open>None\<close> is a fault (or, for the two loops, not
  returning). What \<open>malloc\<close> returns is an argument of the operation that calls it.
  A function pointer is a HOL function; the callbacks act on a world of type \<open>'w\<close>.
\<close>

section \<open>Data\<close>

datatype linked_list_err_type =
    eLINKED_LIST_SUCCESS
  | eLINKED_LIST_FAILURE_GENERAL
  | eLINKED_LIST_INVALID_PARAMETER
  | eLINKED_LIST_INVALID_HANDLE
  | eLINKED_LIST_UNAVAILABLE_RESOURCE
  | eLINKED_LIST_INSUFFICIENT_BUFFER

fun linked_list_err_val :: "linked_list_err_type \<Rightarrow> int" where
  "linked_list_err_val eLINKED_LIST_SUCCESS = 0"
| "linked_list_err_val eLINKED_LIST_FAILURE_GENERAL = -1"
| "linked_list_err_val eLINKED_LIST_INVALID_PARAMETER = -2"
| "linked_list_err_val eLINKED_LIST_INVALID_HANDLE = -3"
| "linked_list_err_val eLINKED_LIST_UNAVAILABLE_RESOURCE = -4"
| "linked_list_err_val eLINKED_LIST_INSUFFICIENT_BUFFER = -5"

record ('d, 'w) list_element =
  next_el :: "addr option"
  prev_el :: "addr option"
  data_ptr :: "'d"
  dealloc_func :: "('d \<Rightarrow> 'w \<Rightarrow> 'w) option"

record ('d, 'w) list_state =
  p_head :: "addr option"
  p_tail :: "addr option"
  cells :: "addr \<rightharpoonup> ('d, 'w) list_element"

section \<open>Operations\<close>

text \<open>
  \<open>linked_list_init\<close>: the handle parameter is the address of the caller's pointer (\<open>False\<close> when
  it is \<open>NULL\<close>), \<open>callocd\<close> tells whether \<open>calloc\<close> succeeded. The new list is the second result.
\<close>

definition linked_list_init ::
  "bool \<Rightarrow> bool \<Rightarrow> linked_list_err_type \<times> ('d, 'w) list_state option" where
  "linked_list_init handle callocd =
     (if \<not> handle then (eLINKED_LIST_INVALID_PARAMETER, None)
      else if \<not> callocd then (eLINKED_LIST_FAILURE_GENERAL, None)
      else (eLINKED_LIST_SUCCESS,
            Some \<lparr>p_head = None, p_tail = None, cells = Map.empty\<rparr>))"

text \<open>
  \<open>linked_list_add\<close>: \<open>data_obj\<close> is \<open>None\<close> for a \<open>NULL\<close> data pointer and \<open>elem\<close> is what
  \<open>malloc\<close> returns. The old head's \<open>prev\<close> is written through the old head pointer.
\<close>

definition linked_list_add ::
  "addr option \<Rightarrow> ('d, 'w) list_state option \<Rightarrow> 'd option \<Rightarrow> ('d \<Rightarrow> 'w \<Rightarrow> 'w) option \<Rightarrow>
   (linked_list_err_type \<times> ('d, 'w) list_state option) option" where
  "linked_list_add elem list_data data_obj dealloc =
     (case list_data of
        None \<Rightarrow> Some (eLINKED_LIST_INVALID_HANDLE, None)
      | Some l \<Rightarrow>
        (case data_obj of
           None \<Rightarrow> Some (eLINKED_LIST_INVALID_PARAMETER, Some l)
         | Some d \<Rightarrow>
           (case elem of
              None \<Rightarrow> Some (eLINKED_LIST_FAILURE_GENERAL, Some l)
            | Some a \<Rightarrow>
                let tmp = p_head l;
                    h = (cells l)(a \<mapsto> \<lparr>next_el = tmp, prev_el = None, data_ptr = d,
                                      dealloc_func = dealloc\<rparr>)
                in (case tmp of
                      None \<Rightarrow> Some (eLINKED_LIST_SUCCESS,
                        Some \<lparr>p_head = Some a, p_tail = Some a, cells = h\<rparr>)
                    | Some t \<Rightarrow>
                        (case h t of
                           None \<Rightarrow> None
                         | Some c \<Rightarrow> Some (eLINKED_LIST_SUCCESS,
                             Some \<lparr>p_head = Some a, p_tail = p_tail l,
                                   cells = h(t \<mapsto> c\<lparr>prev_el := Some a\<rparr>)\<rparr>))))))"

text \<open>
  \<open>linked_list_remove\<close>: \<open>out\<close> is \<open>False\<close> when the output parameter is \<open>NULL\<close>; the third result
  is what is written to it.
\<close>

definition linked_list_remove ::
  "('d, 'w) list_state option \<Rightarrow> bool \<Rightarrow>
   (linked_list_err_type \<times> ('d, 'w) list_state option \<times> 'd option) option" where
  "linked_list_remove list_data out =
     (case list_data of
        None \<Rightarrow> Some (eLINKED_LIST_INVALID_HANDLE, None, None)
      | Some l \<Rightarrow>
        if \<not> out then Some (eLINKED_LIST_INVALID_PARAMETER, Some l, None)
        else
          (case p_tail l of
             None \<Rightarrow> Some (eLINKED_LIST_UNAVAILABLE_RESOURCE, Some l, None)
           | Some tmp \<Rightarrow>
             (case cells l tmp of
                None \<Rightarrow> None
              | Some c \<Rightarrow>
                (case prev_el c of
                   None \<Rightarrow> Some (eLINKED_LIST_SUCCESS,
                     Some \<lparr>p_head = None, p_tail = None, cells = (cells l)(tmp := None)\<rparr>,
                     Some (data_ptr c))
                 | Some p \<Rightarrow>
                   (case cells l p of
                      None \<Rightarrow> None
                    | Some pc \<Rightarrow>
                        Some (eLINKED_LIST_SUCCESS,
                          Some (l\<lparr>p_tail := Some p,
                                 cells := ((cells l)(p \<mapsto> pc\<lparr>next_el := None\<rparr>))(tmp := None)\<rparr>),
                          Some (data_ptr c)))))))"

text \<open>\<open>linked_list_empty\<close> returns 1, 0 or, on a \<open>NULL\<close> handle, the error code -3.\<close>

definition linked_list_empty :: "('d, 'w) list_state option \<Rightarrow> int" where
  "linked_list_empty list_data =
     (case list_data of
        None \<Rightarrow> linked_list_err_val eLINKED_LIST_INVALID_HANDLE
      | Some l \<Rightarrow> if p_head l = None then 1 else 0)"

text \<open>The loop of \<open>linked_list_flush\<close>: deallocate the data, free the element, move the head.\<close>

partial_function (option) flush_loop ::
  "addr option \<Rightarrow> (addr \<rightharpoonup> ('d, 'w) list_element) \<Rightarrow> 'w \<Rightarrow>
   ((addr \<rightharpoonup> ('d, 'w) list_element) \<times> 'w) option" where
  "flush_loop hdp h w =
     (case hdp of
        None \<Rightarrow> Some (h, w)
      | Some a \<Rightarrow>
        (case h a of
           None \<Rightarrow> None
         | Some c \<Rightarrow>
             flush_loop (next_el c) (h(a := None))
               (case dealloc_func c of None \<Rightarrow> w | Some f \<Rightarrow> f (data_ptr c) w)))"

definition linked_list_flush ::
  "('d, 'w) list_state option \<Rightarrow> 'w \<Rightarrow>
   (linked_list_err_type \<times> ('d, 'w) list_state option \<times> 'w) option" where
  "linked_list_flush list_data w =
     (case list_data of
        None \<Rightarrow> Some (eLINKED_LIST_INVALID_HANDLE, None, w)
      | Some l \<Rightarrow>
        (case flush_loop (p_head l) (cells l) w of
           None \<Rightarrow> None
         | Some (h, w') \<Rightarrow>
             Some (eLINKED_LIST_SUCCESS, Some \<lparr>p_head = None, p_tail = None, cells = h\<rparr>, w')))"

text \<open>\<open>linked_list_destroy\<close>: flush, free the list state and clear the caller's pointer.\<close>

definition linked_list_destroy ::
  "('d, 'w) list_state option option \<Rightarrow> 'w \<Rightarrow>
   (linked_list_err_type \<times> ('d, 'w) list_state option \<times> 'w) option" where
  "linked_list_destroy handle w =
     (case handle of
        None \<Rightarrow> Some (eLINKED_LIST_INVALID_HANDLE, None, w)
      | Some list_data \<Rightarrow>
        (case linked_list_flush list_data w of
           None \<Rightarrow> None
         | Some (_, _, w') \<Rightarrow> Some (eLINKED_LIST_SUCCESS, None, w')))"

text \<open>
  Unlinking of the element \<open>a\<close> with contents \<open>c\<close>, the body of \<open>rm_if_found\<close> in
  \<open>linked_list_search\<close> up to the final \<open>free\<close>: the neighbours are rewired, an absent neighbour
  moves the head or tail pointer.
\<close>

definition unlink_element ::
  "('d, 'w) list_state \<Rightarrow> addr \<Rightarrow> ('d, 'w) list_element \<Rightarrow> ('d, 'w) list_state option" where
  "unlink_element l a c =
     (case (case prev_el c of
              None \<Rightarrow> Some (l\<lparr>p_head := next_el c\<rparr>)
            | Some p \<Rightarrow>
              (case cells l p of
                 None \<Rightarrow> None
               | Some pc \<Rightarrow> Some (l\<lparr>cells := (cells l)(p \<mapsto> pc\<lparr>next_el := next_el c\<rparr>)\<rparr>))) of
        None \<Rightarrow> None
      | Some l1 \<Rightarrow>
        (case (case next_el c of
                 None \<Rightarrow> Some (l1\<lparr>p_tail := prev_el c\<rparr>)
               | Some n \<Rightarrow>
                 (case cells l1 n of
                    None \<Rightarrow> None
                  | Some nc \<Rightarrow> Some (l1\<lparr>cells := (cells l1)(n \<mapsto> nc\<lparr>prev_el := prev_el c\<rparr>)\<rparr>))) of
           None \<Rightarrow> None
         | Some l2 \<Rightarrow> Some (l2\<lparr>cells := (cells l2)(a := None)\<rparr>)))"

text \<open>
  The loop of \<open>linked_list_search\<close> from \<open>tmp\<close>. The comparison callback may act on the world. The
  result is the list, the data found (written to \<open>data_p\<close> when \<open>want\<close>) and the world.
\<close>

partial_function (option) search_loop ::
  "('d \<Rightarrow> 'w \<Rightarrow> bool \<times> 'w) \<Rightarrow> bool \<Rightarrow> bool \<Rightarrow> ('d, 'w) list_state \<Rightarrow> addr option \<Rightarrow> 'w \<Rightarrow>
   (('d, 'w) list_state \<times> 'd option \<times> 'w) option" where
  "search_loop eq want rm l tmp w =
     (case tmp of
        None \<Rightarrow> Some (l, None, w)
      | Some a \<Rightarrow>
        (case cells l a of
           None \<Rightarrow> None
         | Some c \<Rightarrow>
           if \<not> fst (eq (data_ptr c) w)
           then search_loop eq want rm l (next_el c) (snd (eq (data_ptr c) w))
           else if \<not> rm
           then Some (l, if want then Some (data_ptr c) else None, snd (eq (data_ptr c) w))
           else
             (case unlink_element l a c of
                None \<Rightarrow> None
              | Some l' \<Rightarrow>
                  Some (l', if want then Some (data_ptr c) else None,
                    if want then snd (eq (data_ptr c) w)
                    else (case dealloc_func c of
                            None \<Rightarrow> snd (eq (data_ptr c) w)
                          | Some f \<Rightarrow> f (data_ptr c) (snd (eq (data_ptr c) w)))))))"

definition linked_list_search ::
  "('d, 'w) list_state option \<Rightarrow> bool \<Rightarrow> ('d \<Rightarrow> 'w \<Rightarrow> bool \<times> 'w) option \<Rightarrow> bool \<Rightarrow> 'w \<Rightarrow>
   (linked_list_err_type \<times> ('d, 'w) list_state option \<times> 'd option \<times> 'w) option" where
  "linked_list_search list_data want equal rm w =
     (case (list_data, equal) of
        (Some l, Some eq) \<Rightarrow>
          if p_tail l = None then Some (eLINKED_LIST_UNAVAILABLE_RESOURCE, Some l, None, w)
          else
            (case search_loop eq want rm l (p_head l) w of
               None \<Rightarrow> None
             | Some (l', d, w') \<Rightarrow> Some (eLINKED_LIST_SUCCESS, Some l', d, w'))
      | _ \<Rightarrow> Some (eLINKED_LIST_INVALID_HANDLE, list_data, None, w))"

section \<open>Representation\<close>

text \<open>
  \<open>chain h p as q\<close>: the addresses \<open>as\<close> form a doubly linked segment of the memory \<open>h\<close>, entered
  from \<open>p\<close> and left to \<open>q\<close>.
\<close>

definition hd_or :: "'a list \<Rightarrow> 'a option \<Rightarrow> 'a option" where
  "hd_or xs q = (if xs = [] then q else Some (hd xs))"

definition last_or :: "'a option \<Rightarrow> 'a list \<Rightarrow> 'a option" where
  "last_or p xs = (if xs = [] then p else Some (last xs))"

lemma hd_or_simps [simp]:
  "hd_or [] q = q" "hd_or (x # xs) q = Some x" "hd_or xs None = hd_opt xs"
  by (cases xs; simp add: hd_or_def)+

lemma hd_or_append [simp]: "hd_or (xs @ ys) q = hd_or xs (hd_or ys q)"
  by (simp add: hd_or_def)

lemma last_or_simps [simp]:
  "last_or p [] = p" "last_or p (xs @ [x]) = Some x" "last_or p [x] = Some x"
  "last_or None xs = last_opt xs"
  by (cases xs; simp add: last_or_def)+

lemma last_or_append [simp]: "last_or p (xs @ ys) = last_or (last_or p xs) ys"
  by (simp add: last_or_def)

lemma last_or_Cons [simp]: "last_or p (x # xs) = last_or (Some x) xs"
  by (simp add: last_or_def)

fun chain :: "(addr \<rightharpoonup> ('d, 'w) list_element) \<Rightarrow> addr option \<Rightarrow> addr list \<Rightarrow> addr option \<Rightarrow> bool"
where
  "chain h p [] q = True"
| "chain h p (a # as) q =
     (case h a of
        None \<Rightarrow> False
      | Some c \<Rightarrow> prev_el c = p \<and> next_el c = hd_or as q \<and> chain h (Some a) as q)"

lemma chain_append [simp]:
  "chain h p (as @ bs) q \<longleftrightarrow> chain h p as (hd_or bs q) \<and> chain h (last_or p as) bs q"
  by (induction as arbitrary: p) (auto split: option.splits)

lemma chain_cong: "(\<And>a. a \<in> set as \<Longrightarrow> h a = h' a) \<Longrightarrow> chain h p as q = chain h' p as q"
  by (induction as arbitrary: p) (auto split: option.splits)

lemma chain_upd_other [simp]: "a \<notin> set as \<Longrightarrow> chain (h(a := x)) p as q = chain h p as q"
  by (rule chain_cong) auto

lemma chain_dom: "chain h p as q \<Longrightarrow> set as \<subseteq> dom h"
  by (induction as arbitrary: p) (auto split: option.splits)

text \<open>What an element carries: its data and its deallocation function.\<close>

definition contents :: "(addr \<rightharpoonup> ('d, 'w) list_element) \<Rightarrow> addr \<Rightarrow> 'd \<times> ('d \<Rightarrow> 'w \<Rightarrow> 'w) option" where
  "contents h a = (data_ptr (the (h a)), dealloc_func (the (h a)))"

lemma contents_upd_other [simp]:
  "a \<notin> set as \<Longrightarrow> map (contents (h(a := x))) as = map (contents h) as"
  by (auto simp: contents_def)

lemma contents_relink [simp]:
  "h a = Some c \<Longrightarrow> contents (h(a \<mapsto> c\<lparr>prev_el := p\<rparr>)) = contents h"
  "h a = Some c \<Longrightarrow> contents (h(a \<mapsto> c\<lparr>next_el := p\<rparr>)) = contents h"
  by (auto simp: contents_def)

text \<open>
  \<open>list_rep l as xs\<close>: the list state holds exactly the elements at \<open>as\<close>, from head to tail,
  and they carry \<open>xs\<close>. Nothing else is allocated, so no element leaks.
\<close>

definition list_rep ::
  "('d, 'w) list_state \<Rightarrow> addr list \<Rightarrow> ('d \<times> ('d \<Rightarrow> 'w \<Rightarrow> 'w) option) list \<Rightarrow> bool" where
  "list_rep l as xs \<longleftrightarrow>
     p_head l = hd_opt as \<and> p_tail l = last_opt as \<and> distinct as \<and>
     chain (cells l) None as None \<and> dom (cells l) = set as \<and> xs = map (contents (cells l)) as"

lemma list_repE:
  assumes "list_rep l as xs"
  obtains "p_head l = hd_opt as" "p_tail l = last_opt as" "distinct as"
    "chain (cells l) None as None" "dom (cells l) = set as" "xs = map (contents (cells l)) as"
  using assms by (auto simp: list_rep_def)

section \<open>Every operation keeps the representation\<close>

lemma chain_head_relink:
  assumes "chain h None (t # as) q" "t \<notin> set as" "h t = Some c"
  shows "chain (h(t \<mapsto> c\<lparr>prev_el := p\<rparr>)) p (t # as) q"
  using assms by auto

lemma chain_last_relink:
  assumes "chain h p (as @ [a]) q" "a \<notin> set as" "h a = Some c"
  shows "chain (h(a \<mapsto> c\<lparr>next_el := q'\<rparr>)) p (as @ [a]) q'"
  using assms by auto

lemma linked_list_add_rep:
  assumes "list_rep l as xs" "a \<notin> dom (cells l)"
  shows "\<exists>l'. linked_list_add (Some a) (Some l) (Some d) f = Some (eLINKED_LIST_SUCCESS, Some l') \<and>
              list_rep l' (a # as) ((d, f) # xs)"
  using assms
  by (cases as)
     (auto elim!: list_repE simp: list_rep_def linked_list_add_def Let_def contents_def
           split: option.splits)

lemma linked_list_remove_rep:
  assumes "list_rep l (as @ [a]) (xs @ [x])"
  shows "\<exists>l'. linked_list_remove (Some l) True = Some (eLINKED_LIST_SUCCESS, Some l', Some (fst x)) \<and>
              list_rep l' as xs"
  using assms
  by (cases as rule: rev_cases)
     (auto elim!: list_repE simp: list_rep_def linked_list_remove_def contents_def
           split: option.splits)

lemma linked_list_remove_empty:
  assumes "list_rep l as []"
  shows "linked_list_remove (Some l) True = Some (eLINKED_LIST_UNAVAILABLE_RESOURCE, Some l, None)"
  using assms by (auto elim!: list_repE simp: linked_list_remove_def)

lemma linked_list_empty_rep:
  assumes "list_rep l as xs"
  shows "linked_list_empty (Some l) = (if xs = [] then 1 else 0)"
  using assms by (auto elim!: list_repE simp: linked_list_empty_def)

text \<open>The loop of the flush frees the whole segment and deallocates the data in list order.\<close>

definition dealloc_item :: "'d \<times> ('d \<Rightarrow> 'w \<Rightarrow> 'w) option \<Rightarrow> 'w \<Rightarrow> 'w" where
  "dealloc_item x w = (case snd x of None \<Rightarrow> w | Some f \<Rightarrow> f (fst x) w)"

lemma flush_loop_chain:
  assumes "chain h p as None" "distinct as"
  shows "flush_loop (hd_opt as) h w =
           Some (h |` (- set as), fold dealloc_item (map (contents h) as) w)"
  using assms
proof (induction as arbitrary: h p w)
  case Nil
  then show ?case by (simp add: flush_loop.simps)
next
  case (Cons a as)
  then obtain c where c: "h a = Some c" "next_el c = hd_opt as" "chain h (Some a) as None"
    by (auto split: option.splits)
  have "chain (h(a := None)) (Some a) as None" using Cons.prems c by simp
  moreover have "(h(a := None)) |` (- set as) = h |` (- set (a # as))"
    by (auto simp: restrict_map_def fun_eq_iff)
  moreover have "map (contents (h(a := None))) as = map (contents h) as" using Cons.prems by simp
  ultimately have "flush_loop (hd_opt as) (h(a := None)) w' =
      Some (h |` (- set (a # as)), fold dealloc_item (map (contents h) as) w')" for w'
    using Cons.prems Cons.IH [of "h(a := None)" "Some a" w'] by (simp del: fun_upd_apply)
  then show ?case
    using c(1,2) by (subst flush_loop.simps)
      (simp add: contents_def dealloc_item_def split: option.split)
qed

lemma linked_list_flush_rep:
  assumes "list_rep l as xs"
  shows "\<exists>l'. linked_list_flush (Some l) w =
               Some (eLINKED_LIST_SUCCESS, Some l', fold dealloc_item xs w) \<and> list_rep l' [] []"
proof -
  have "cells l |` (- set as) = Map.empty"
    using assms by (auto elim!: list_repE simp: restrict_map_def fun_eq_iff domIff set_eq_iff)
  then show ?thesis
    using assms by (auto elim!: list_repE simp: linked_list_flush_def flush_loop_chain list_rep_def)
qed

text \<open>Unlinking an element in the middle, at the head or at the tail.\<close>

lemma unlink_element_rep:
  assumes "list_rep l (bs @ a # as) (ys @ x # xs)" "length bs = length ys"
  shows "\<exists>c l'. cells l a = Some c \<and> data_ptr c = fst x \<and> dealloc_func c = snd x \<and>
                next_el c = hd_opt as \<and> unlink_element l a c = Some l' \<and>
                list_rep l' (bs @ as) (ys @ xs)"
proof -
  have xs: "ys = map (contents (cells l)) bs" "x # xs = map (contents (cells l)) (a # as)"
    using assms by (auto elim!: list_repE)
  obtain c where c: "cells l a = Some c" "prev_el c = last_opt bs" "next_el c = hd_opt as"
    using assms(1) by (auto elim!: list_repE split: option.splits)
  have "\<exists>l'. unlink_element l a c = Some l' \<and> list_rep l' (bs @ as) (ys @ xs)"
  proof (cases bs rule: rev_cases)
    case bs: Nil
    show ?thesis
    proof (cases as)
      case Nil
      then show ?thesis using assms(1) bs c xs
        by (auto elim!: list_repE simp: list_rep_def unlink_element_def)
    next
      case (Cons n as')
      then show ?thesis using assms(1) bs c xs
        by (auto elim!: list_repE simp: list_rep_def unlink_element_def contents_def
            split: option.splits)
    qed
  next
    case bs: (snoc bs' p)
    show ?thesis
    proof (cases as)
      case Nil
      then show ?thesis using assms(1) bs c xs
        by (auto elim!: list_repE simp: list_rep_def unlink_element_def contents_def
            split: option.splits)
    next
      case (Cons n as')
      then show ?thesis using assms(1) bs c xs
        by (auto elim!: list_repE simp: list_rep_def unlink_element_def contents_def
            split: option.splits)
    qed
  qed
  then show ?thesis using c xs by (auto simp: contents_def)
qed

text \<open>The search on the list of the items: the first match ends it.\<close>

fun search_items ::
  "('d \<Rightarrow> 'w \<Rightarrow> bool \<times> 'w) \<Rightarrow> bool \<Rightarrow> bool \<Rightarrow> ('d \<times> ('d \<Rightarrow> 'w \<Rightarrow> 'w) option) list \<Rightarrow> 'w \<Rightarrow>
   ('d \<times> ('d \<Rightarrow> 'w \<Rightarrow> 'w) option) list \<times> 'd option \<times> 'w" where
  "search_items eq want rm [] w = ([], None, w)"
| "search_items eq want rm (x # xs) w =
     (let (found, w1) = eq (fst x) w
      in if found
         then (if rm then xs else x # xs, if want then Some (fst x) else None,
               if rm \<and> \<not> want then dealloc_item x w1 else w1)
         else (let (ys, d, w2) = search_items eq want rm xs w1 in (x # ys, d, w2)))"

lemma search_loop_rep:
  assumes "list_rep l (bs @ as) (ys @ xs)" "length bs = length ys"
    "search_items eq want rm xs w = (xs', d, w')"
  shows "\<exists>l' as'. search_loop eq want rm l (hd_opt as) w = Some (l', d, w') \<and>
                  list_rep l' as' (ys @ xs')"
  using assms
proof (induction xs arbitrary: bs as ys w xs' d w')
  case Nil
  then have "as = []" by (auto elim!: list_repE dest: arg_cong [where f = length])
  then show ?case using Nil by (auto simp: search_loop.simps)
next
  case (Cons x xs)
  then obtain a as0 where as: "as = a # as0"
    by (cases as) (auto elim!: list_repE dest: arg_cong [where f = length])
  obtain c l' where c: "cells l a = Some c" "data_ptr c = fst x" "dealloc_func c = snd x"
    "next_el c = hd_opt as0" "unlink_element l a c = Some l'" "list_rep l' (bs @ as0) (ys @ xs)"
    using unlink_element_rep [of l bs a as0 ys x xs] Cons.prems as by auto
  obtain found w1 where eq: "eq (fst x) w = (found, w1)" by fastforce
  show ?case
  proof (cases found)
    case True
    then show ?thesis
      using Cons.prems as c eq
      by (subst search_loop.simps) (auto simp: dealloc_item_def split: option.splits)
  next
    case False
    obtain ys2 d2 w2 where r: "search_items eq want rm xs w1 = (ys2, d2, w2)"
      by (cases "search_items eq want rm xs w1") auto
    have "\<exists>l' as'. search_loop eq want rm l (hd_opt as0) w1 = Some (l', d2, w2) \<and>
                  list_rep l' as' ((ys @ [x]) @ ys2)"
      by (rule Cons.IH [of "bs @ [a]" as0 "ys @ [x]" w1 ys2]) (use Cons.prems as r in auto)
    then show ?thesis
      using Cons.prems as c eq r False by (subst search_loop.simps) auto
  qed
qed

lemma linked_list_search_rep:
  assumes "list_rep l as xs" "xs \<noteq> []" "search_items eq want rm xs w = (xs', d, w')"
  shows "\<exists>l' as'. linked_list_search (Some l) want (Some eq) rm w =
                    Some (eLINKED_LIST_SUCCESS, Some l', d, w') \<and> list_rep l' as' xs'"
proof -
  have "p_head l = hd_opt as" "p_tail l \<noteq> None"
    using assms by (auto elim!: list_repE)
  then show ?thesis
    using search_loop_rep [of l "[]" as "[]" xs eq want rm w xs' d w'] assms
    by (auto simp: linked_list_search_def)
qed

lemma linked_list_init_rep:
  "\<exists>l. linked_list_init True True = (eLINKED_LIST_SUCCESS, Some l) \<and> list_rep l [] []"
  by (simp add: linked_list_init_def list_rep_def)

section \<open>The interface of a list used as a queue\<close>

text \<open>
  A client of the list adds at one end and removes at the other. The interface names the three
  operations it calls with the results they have in the code, and what the list promises of
  them; \<open>rep\<close> relates a list state to the items it holds, last added first, and \<open>fresh\<close> says
  that \<open>malloc\<close> may return an address.
\<close>

fun add_seq ::
  "(addr option \<Rightarrow> 's option \<Rightarrow> 'd option \<Rightarrow> 'f \<Rightarrow> (linked_list_err_type \<times> 's option) option) \<Rightarrow>
   (addr \<times> 'd \<times> 'f) list \<Rightarrow> 's \<Rightarrow> 's option" where
  "add_seq add [] s = Some s"
| "add_seq add ((a, d, f) # ops) s =
     (case add (Some a) (Some s) (Some d) f of
        Some (eLINKED_LIST_SUCCESS, Some s') \<Rightarrow> add_seq add ops s'
      | _ \<Rightarrow> None)"

fun rem_seq ::
  "('s option \<Rightarrow> bool \<Rightarrow> (linked_list_err_type \<times> 's option \<times> 'd option) option) \<Rightarrow>
   nat \<Rightarrow> 's \<Rightarrow> ('s \<times> 'd list) option" where
  "rem_seq rem 0 s = Some (s, [])"
| "rem_seq rem (Suc n) s =
     (case rem (Some s) True of
        Some (eLINKED_LIST_SUCCESS, Some s', Some d) \<Rightarrow>
          map_option (\<lambda>(s2, ds). (s2, d # ds)) (rem_seq rem n s')
      | _ \<Rightarrow> None)"

locale fifo_list =
  fixes rep :: "'s \<Rightarrow> ('d \<times> 'f) list \<Rightarrow> bool"
    and fresh :: "addr \<Rightarrow> 's \<Rightarrow> bool"
    and add :: "addr option \<Rightarrow> 's option \<Rightarrow> 'd option \<Rightarrow> 'f \<Rightarrow>
                (linked_list_err_type \<times> 's option) option"
    and rem :: "'s option \<Rightarrow> bool \<Rightarrow> (linked_list_err_type \<times> 's option \<times> 'd option) option"
    and isempty :: "'s option \<Rightarrow> int"
  assumes add_rep: "\<lbrakk>rep s xs; fresh a s\<rbrakk> \<Longrightarrow>
      \<exists>s'. add (Some a) (Some s) (Some d) f = Some (eLINKED_LIST_SUCCESS, Some s') \<and>
           rep s' ((d, f) # xs) \<and> (\<forall>b. b \<noteq> a \<longrightarrow> fresh b s \<longrightarrow> fresh b s')"
    and rem_rep: "rep s (xs @ [x]) \<Longrightarrow>
      \<exists>s'. rem (Some s) True = Some (eLINKED_LIST_SUCCESS, Some s', Some (fst x)) \<and> rep s' xs"
    and rem_none: "rep s [] \<Longrightarrow>
      rem (Some s) True = Some (eLINKED_LIST_UNAVAILABLE_RESOURCE, Some s, None)"
    and isempty_rep: "rep s xs \<Longrightarrow> isempty (Some s) = (if xs = [] then 1 else 0)"
begin

lemma add_seq_rep:
  assumes "rep s xs" "distinct (map fst ops)" "\<forall>a \<in> fst ` set ops. fresh a s"
  shows "\<exists>s'. add_seq add ops s = Some s' \<and> rep s' (rev (map snd ops) @ xs)"
  using assms
proof (induction ops arbitrary: s xs)
  case (Cons op ops)
  obtain a d f where op: "op = (a, d, f)" by (cases op) auto
  obtain s' where s': "add (Some a) (Some s) (Some d) f = Some (eLINKED_LIST_SUCCESS, Some s')"
    "rep s' ((d, f) # xs)" "\<And>b. b \<noteq> a \<Longrightarrow> fresh b s \<Longrightarrow> fresh b s'"
    using add_rep [of s xs a d f] Cons.prems op by auto
  have "\<forall>b \<in> fst ` set ops. fresh b s'"
    using Cons.prems op s'(3) by (metis image_iff list.set_intros(2) distinct.simps(2) list.simps(9)
        list.set_map fst_conv)
  then show ?case using Cons.IH [of s' "(d, f) # xs"] Cons.prems op s' by auto
qed simp

lemma rem_seq_rep:
  assumes "rep s (xs @ ys)"
  shows "\<exists>s'. rem_seq rem (length ys) s = Some (s', map fst (rev ys)) \<and> rep s' xs"
  using assms
proof (induction ys arbitrary: s rule: rev_induct)
  case (snoc y ys)
  then obtain s' where "rem (Some s) True = Some (eLINKED_LIST_SUCCESS, Some s', Some (fst y))"
    "rep s' (xs @ ys)"
    using rem_rep [of s "xs @ ys" y] by auto
  then show ?case using snoc.IH [of s'] by auto
qed simp

lemma fifo:
  assumes "rep s xs" "distinct (map fst ops)" "\<forall>a \<in> fst ` set ops. fresh a s"
  shows "\<exists>s1 s2. add_seq add ops s = Some s1 \<and>
           rem_seq rem (length xs + length ops) s1 =
             Some (s2, map fst (rev xs) @ map (fst \<circ> snd) ops) \<and>
           rep s2 []"
proof -
  obtain s1 where s1: "add_seq add ops s = Some s1" "rep s1 ([] @ (rev (map snd ops) @ xs))"
    using add_seq_rep [OF assms] by auto
  show ?thesis
    using s1 rem_seq_rep [OF s1(2)] by (auto simp: rev_map add.commute)
qed

end

lemma linked_list_add_fresh:
  assumes "linked_list_add (Some a) (Some l) (Some d) f = Some (e, Some l')" "b \<noteq> a"
    "b \<notin> dom (cells l)"
  shows "b \<notin> dom (cells l')"
  using assms by (auto simp: linked_list_add_def Let_def split: option.splits if_splits)

interpretation ll: fifo_list "\<lambda>l xs. \<exists>as. list_rep l as xs" "\<lambda>a l. a \<notin> dom (cells l)"
  linked_list_add linked_list_remove linked_list_empty
proof (unfold_locales, goal_cases)
  case (1 l xs a d f)
  then show ?case by (meson linked_list_add_rep linked_list_add_fresh)
next
  case (2 l xs x)
  then obtain as where as: "list_rep l as (xs @ [x])" by blast
  then have "length as = Suc (length xs)" by (auto elim!: list_repE dest: arg_cong [where f = length])
  then obtain bs b where "as = bs @ [b]" by (cases as rule: rev_cases) auto
  then show ?case using as linked_list_remove_rep by blast
next
  case (3 l)
  then show ?case using linked_list_remove_empty by blast
next
  case (4 l xs)
  then show ?case using linked_list_empty_rep by blast
qed

section \<open>Properties\<close>

text \<open>
  C36: the list is a first-in first-out queue. From any well-formed list, adding any
  sequence of data at addresses that \<open>malloc\<close> may return, and then removing as often as there
  are elements, gives first what the list held, from its tail on, and then the added data in
  the order of the additions; no step faults and the list is empty and leaks nothing in the end.
\<close>

theorem linked_list_fifo:
  assumes "list_rep l as xs" "distinct (map fst ops)" "fst ` set ops \<inter> dom (cells l) = {}"
  shows "\<exists>l1 l2 bs. add_seq linked_list_add ops l = Some l1 \<and>
           rem_seq linked_list_remove (length xs + length ops) l1 =
             Some (l2, map fst (rev xs) @ map (fst \<circ> snd) ops) \<and>
           list_rep l2 bs []"
  using ll.fifo [of l xs ops] assms by blast

definition list0 :: "(string, string list) list_state" where
  "list0 = \<lparr>p_head = None, p_tail = None, cells = Map.empty\<rparr>"

lemma list0_rep [simp]: "list_rep list0 [] []"
  by (simp add: list0_def list_rep_def)

definition log_free :: "string \<Rightarrow> string list \<Rightarrow> string list" where
  "log_free d w = w @ [d]"

text \<open>Two elements, with and without a deallocation function.\<close>

definition list2 :: "(string, string list) list_state" where
  "list2 = \<lparr>p_head = Some 8, p_tail = Some 4, cells =
     [8 \<mapsto> \<lparr>next_el = Some 4, prev_el = None, data_ptr = ''b'', dealloc_func = Some log_free\<rparr>,
      4 \<mapsto> \<lparr>next_el = None, prev_el = Some 8, data_ptr = ''a'', dealloc_func = None\<rparr>]\<rparr>"

lemma list2_rep [simp]: "list_rep list2 [8, 4] [(''b'', Some log_free), (''a'', None)]"
  by (auto simp: list2_def list_rep_def contents_def)

theorem linked_list_fifo_witness:
  "\<exists>l1 l2 bs. add_seq linked_list_add [(1, ''x'', None), (2, ''y'', None)] list2 = Some l1 \<and>
     rem_seq linked_list_remove 4 l1 = Some (l2, [''a'', ''b'', ''x'', ''y'']) \<and> list_rep l2 bs []"
  using linked_list_fifo [OF list2_rep, of "[(1, ''x'', None), (2, ''y'', None)]"]
  by (simp add: list2_def numeral_eq_Suc)

text \<open>
  destroying a list terminates, clears the caller's pointer and calls each
  element's deallocation function exactly once, on its data, from the head of the list to the
  tail; an element added without a deallocation function is only freed.
\<close>

theorem linked_list_destroy_deallocs:
  assumes "list_rep l as xs"
  shows "linked_list_destroy (Some (Some l)) w =
           Some (eLINKED_LIST_SUCCESS, None, fold dealloc_item xs w)"
  using linked_list_flush_rep [OF assms, of w] by (auto simp: linked_list_destroy_def)

theorem linked_list_destroy_deallocs_witness:
  "linked_list_destroy (Some (Some list2)) [] = Some (eLINKED_LIST_SUCCESS, None, [''b''])"
  by (simp add: linked_list_destroy_deallocs [OF list2_rep] dealloc_item_def log_free_def)

text \<open>
  C12: \<open>linked_list_search\<close> on a non-empty list terminates without a fault and does
  what the search on the item list does: it calls the comparison on the items in order up to
  the first match; it reports that item, or nothing when none matches; with \<open>rm_if_found\<close> it
  unlinks exactly that element and keeps the list well formed, whether the element is at the
  head, at the tail or in between, and deallocates its data exactly when the caller did not
  take it.
\<close>

theorem linked_list_search_refines:
  assumes "list_rep l as xs" "xs \<noteq> []"
  shows "\<exists>l' as'. linked_list_search (Some l) want (Some eq) rm w =
             (case search_items eq want rm xs w of
                (xs', d, w') \<Rightarrow> Some (eLINKED_LIST_SUCCESS, Some l', d, w')) \<and>
           list_rep l' as' (fst (search_items eq want rm xs w))"
  using linked_list_search_rep [OF assms, of eq want rm w]
  by (cases "search_items eq want rm xs w") auto

theorem linked_list_search_refines_witness:
  "\<exists>l' as'. linked_list_search (Some list2) False (Some (\<lambda>d w. (d = ''b'', w @ [''?'']))) True [] =
       Some (eLINKED_LIST_SUCCESS, Some l', None, [''?'', ''b'']) \<and> list_rep l' as' [(''a'', None)]"
  using linked_list_search_refines [OF list2_rep, of False "\<lambda>d w. (d = ''b'', w @ [''?''])" True "[]"]
  by (simp add: dealloc_item_def log_free_def)

end
