(* ===== verification/Msg_Queue.thy ===== *)
theory Msg_Queue
  imports Linked_List
begin

text \<open>
  The blocking message queue of \<open>gps/utils/msg_q.c\<close>. The operations are functions on the queue
  state, one per critical section (the code between locking and unlocking \<open>list_mutex\<close>); the
  receive operation has two of them, because \<open>pthread_cond_wait\<close> releases the mutex. The threads
  that use a queue are a step relation: every step is one critical section, and the state keeps
  the threads blocked in \<open>pthread_cond_wait\<close> and those that have been woken and not yet taken
  the mutex again. A signal wakes at least one waiter, and a waiter may wake by itself, as POSIX
  allows.
\<close>

section \<open>Data and operations\<close>

datatype msq_q_err_type =
    eMSG_Q_SUCCESS
  | eMSG_Q_FAILURE_GENERAL
  | eMSG_Q_INVALID_PARAMETER
  | eMSG_Q_INVALID_HANDLE
  | eMSG_Q_UNAVAILABLE_RESOURCE
  | eMSG_Q_INSUFFICIENT_BUFFER

record ('d, 'w) msg_q =
  msg_list :: "('d, 'w) list_state option"
  unblocked :: bool

fun convert_linked_list_err_type :: "linked_list_err_type \<Rightarrow> msq_q_err_type" where
  "convert_linked_list_err_type eLINKED_LIST_SUCCESS = eMSG_Q_SUCCESS"
| "convert_linked_list_err_type eLINKED_LIST_INVALID_PARAMETER = eMSG_Q_INVALID_PARAMETER"
| "convert_linked_list_err_type eLINKED_LIST_INVALID_HANDLE = eMSG_Q_INVALID_HANDLE"
| "convert_linked_list_err_type eLINKED_LIST_UNAVAILABLE_RESOURCE = eMSG_Q_UNAVAILABLE_RESOURCE"
| "convert_linked_list_err_type eLINKED_LIST_INSUFFICIENT_BUFFER = eMSG_Q_INSUFFICIENT_BUFFER"
| "convert_linked_list_err_type eLINKED_LIST_FAILURE_GENERAL = eMSG_Q_FAILURE_GENERAL"

text \<open>
  \<open>msg_q_init\<close>: the last four arguments say whether the allocation of the queue and of its
  list and the initialisation of the mutex and of the condition variable succeed.
\<close>

definition msg_q_init ::
  "bool \<Rightarrow> bool \<Rightarrow> bool \<Rightarrow> bool \<Rightarrow> bool \<Rightarrow> msq_q_err_type \<times> ('d, 'w) msg_q option" where
  "msg_q_init handle q_alloc l_alloc mutex_ok cond_ok =
     (if \<not> handle then (eMSG_Q_INVALID_PARAMETER, None)
      else if \<not> q_alloc then (eMSG_Q_FAILURE_GENERAL, None)
      else
        let (e, l) = linked_list_init True l_alloc
        in if linked_list_err_val e \<noteq> 0 then (eMSG_Q_FAILURE_GENERAL, None)
           else if \<not> mutex_ok then (eMSG_Q_FAILURE_GENERAL, None)
           else if \<not> cond_ok then (eMSG_Q_FAILURE_GENERAL, None)
           else (eMSG_Q_SUCCESS, Some \<lparr>msg_list = l, unblocked = False\<rparr>))"

definition msg_q_init2 :: "bool \<Rightarrow> bool \<Rightarrow> bool \<Rightarrow> bool \<Rightarrow> ('d, 'w) msg_q option" where
  "msg_q_init2 q_alloc l_alloc mutex_ok cond_ok =
     (let (e, q) = msg_q_init True q_alloc l_alloc mutex_ok cond_ok
      in if e \<noteq> eMSG_Q_SUCCESS then None else q)"

text \<open>
  \<open>msg_q_destroy\<close> through the caller's pointer; \<open>Some None\<close> as argument is a \<open>NULL\<close> queue, whose
  member \<open>msg_list\<close> cannot be read.
\<close>

definition msg_q_destroy ::
  "('d, 'w) msg_q option option \<Rightarrow> 'w \<Rightarrow>
   (msq_q_err_type \<times> ('d, 'w) msg_q option \<times> 'w) option" where
  "msg_q_destroy handle w =
     (case handle of
        None \<Rightarrow> Some (eMSG_Q_INVALID_HANDLE, None, w)
      | Some None \<Rightarrow> None
      | Some (Some q) \<Rightarrow>
        (case linked_list_destroy (Some (msg_list q)) w of
           None \<Rightarrow> None
         | Some (_, _, w') \<Rightarrow> Some (eMSG_Q_SUCCESS, None, w')))"

text \<open>
  \<open>msg_q_snd\<close>: the last result says whether \<open>pthread_cond_signal\<close> was called. \<open>elem\<close> is what
  \<open>malloc\<close> returns in \<open>linked_list_add\<close>; the condition variable is signalled also when that fails.
\<close>

definition msg_q_snd ::
  "addr option \<Rightarrow> ('d, 'w) msg_q option \<Rightarrow> 'd option \<Rightarrow> ('d \<Rightarrow> 'w \<Rightarrow> 'w) option \<Rightarrow>
   (msq_q_err_type \<times> ('d, 'w) msg_q option \<times> bool) option" where
  "msg_q_snd elem msg_q_data msg_obj dealloc =
     (case msg_q_data of
        None \<Rightarrow> Some (eMSG_Q_INVALID_HANDLE, None, False)
      | Some q \<Rightarrow>
        (case msg_obj of
           None \<Rightarrow> Some (eMSG_Q_INVALID_PARAMETER, Some q, False)
         | Some m \<Rightarrow>
           if unblocked q then Some (eMSG_Q_UNAVAILABLE_RESOURCE, Some q, False)
           else
             (case linked_list_add elem (msg_list q) (Some m) dealloc of
                None \<Rightarrow> None
              | Some (e, l) \<Rightarrow>
                  Some (convert_linked_list_err_type e, Some (q\<lparr>msg_list := l\<rparr>), True))))"

text \<open>What a critical section of \<open>msg_q_rcv\<close> ends with: a return, or a wait on \<open>list_cond\<close>.\<close>

datatype 'd rcv_result = Rcv_return msq_q_err_type "'d option" | Rcv_wait

definition msg_q_rcv_loop :: "('d, 'w) msg_q \<Rightarrow> ('d rcv_result \<times> ('d, 'w) msg_q) option" where
  "msg_q_rcv_loop q =
     (if linked_list_empty (msg_list q) \<noteq> 0 \<and> \<not> unblocked q then Some (Rcv_wait, q)
      else
        (case linked_list_remove (msg_list q) True of
           None \<Rightarrow> None
         | Some (e, l, d) \<Rightarrow>
             Some (Rcv_return (convert_linked_list_err_type e) d, q\<lparr>msg_list := l\<rparr>)))"

definition msg_q_rcv ::
  "('d, 'w) msg_q option \<Rightarrow> bool \<Rightarrow> ('d rcv_result \<times> ('d, 'w) msg_q option) option" where
  "msg_q_rcv msg_q_data out =
     (case msg_q_data of
        None \<Rightarrow> Some (Rcv_return eMSG_Q_INVALID_HANDLE None, None)
      | Some q \<Rightarrow>
          if \<not> out then Some (Rcv_return eMSG_Q_INVALID_PARAMETER None, Some q)
          else if unblocked q then Some (Rcv_return eMSG_Q_UNAVAILABLE_RESOURCE None, Some q)
          else map_option (\<lambda>(r, q'). (r, Some q')) (msg_q_rcv_loop q))"

definition msg_q_flush ::
  "('d, 'w) msg_q option \<Rightarrow> 'w \<Rightarrow> (msq_q_err_type \<times> ('d, 'w) msg_q option \<times> 'w) option" where
  "msg_q_flush msg_q_data w =
     (case msg_q_data of
        None \<Rightarrow> Some (eMSG_Q_INVALID_HANDLE, None, w)
      | Some q \<Rightarrow>
        (case linked_list_flush (msg_list q) w of
           None \<Rightarrow> None
         | Some (e, l, w') \<Rightarrow>
             Some (convert_linked_list_err_type e, Some (q\<lparr>msg_list := l\<rparr>), w')))"

text \<open>\<open>msg_q_unblock\<close>: the last result says whether all waiters are woken.\<close>

definition msg_q_unblock ::
  "('d, 'w) msg_q option \<Rightarrow> msq_q_err_type \<times> ('d, 'w) msg_q option \<times> bool" where
  "msg_q_unblock msg_q_data =
     (case msg_q_data of
        None \<Rightarrow> (eMSG_Q_INVALID_HANDLE, None, False)
      | Some q \<Rightarrow>
          if unblocked q then (eMSG_Q_UNAVAILABLE_RESOURCE, Some q, False)
          else (eMSG_Q_SUCCESS, Some (q\<lparr>unblocked := True\<rparr>), True))"

section \<open>The operations on the messages a queue holds\<close>

definition queue_rep :: "('d, 'w) msg_q \<Rightarrow> ('d \<times> ('d \<Rightarrow> 'w \<Rightarrow> 'w) option) list \<Rightarrow> bool" where
  "queue_rep q xs \<longleftrightarrow> (\<exists>l as. msg_list q = Some l \<and> list_rep l as xs)"

text \<open>The addresses \<open>malloc\<close> may return for a queue.\<close>

definition queue_fresh :: "addr \<Rightarrow> ('d, 'w) msg_q \<Rightarrow> bool" where
  "queue_fresh a q \<longleftrightarrow> (\<forall>l. msg_list q = Some l \<longrightarrow> a \<notin> dom (cells l))"

lemma msg_q_snd_rep:
  assumes "queue_rep q xs" "queue_fresh a q" "\<not> unblocked q"
  shows "\<exists>q'. msg_q_snd (Some a) (Some q) (Some m) f = Some (eMSG_Q_SUCCESS, Some q', True) \<and>
              queue_rep q' ((m, f) # xs) \<and> \<not> unblocked q'"
proof -
  obtain l where l: "msg_list q = Some l" "\<exists>as. list_rep l as xs" "a \<notin> dom (cells l)"
    using assms by (auto simp: queue_rep_def queue_fresh_def)
  show ?thesis
    using ll.add_rep [OF l(2,3), of m f] l assms(3) by (auto simp: msg_q_snd_def queue_rep_def)
qed

lemma msg_q_snd_nomem:
  assumes "queue_rep q xs" "\<not> unblocked q"
  shows "msg_q_snd None (Some q) (Some m) f = Some (eMSG_Q_FAILURE_GENERAL, Some q, True)"
proof -
  have "q\<lparr>msg_list := msg_list q\<rparr> = q" by simp
  then show ?thesis using assms by (auto simp: msg_q_snd_def linked_list_add_def queue_rep_def)
qed

lemma msg_q_snd_unblocked:
  "unblocked q \<Longrightarrow>
   msg_q_snd e (Some q) (Some m) f = Some (eMSG_Q_UNAVAILABLE_RESOURCE, Some q, False)"
  by (simp add: msg_q_snd_def)

lemma msg_q_rcv_loop_message:
  assumes "queue_rep q (xs @ [x])"
  shows "\<exists>q'. msg_q_rcv_loop q = Some (Rcv_return eMSG_Q_SUCCESS (Some (fst x)), q') \<and>
              queue_rep q' xs \<and> unblocked q' = unblocked q"
proof -
  obtain l where l: "msg_list q = Some l" "\<exists>as. list_rep l as (xs @ [x])"
    using assms by (auto simp: queue_rep_def)
  show ?thesis
    using ll.rem_rep [OF l(2)] ll.isempty_rep [OF l(2)] l(1)
    by (auto simp: msg_q_rcv_loop_def queue_rep_def)
qed

lemma msg_q_rcv_loop_empty:
  assumes "queue_rep q []"
  shows "msg_q_rcv_loop q =
    Some (if unblocked q then Rcv_return eMSG_Q_UNAVAILABLE_RESOURCE None else Rcv_wait, q)"
proof -
  obtain l where l: "msg_list q = Some l" "\<exists>as. list_rep l as []"
    using assms by (auto simp: queue_rep_def)
  have "q\<lparr>msg_list := msg_list q\<rparr> = q" by simp
  then show ?thesis
    using ll.rem_none [OF l(2)] ll.isempty_rep [OF l(2)] l(1)
    by (auto simp: msg_q_rcv_loop_def)
qed

lemma msg_q_flush_rep:
  assumes "queue_rep q xs"
  shows "\<exists>q'. msg_q_flush (Some q) w = Some (eMSG_Q_SUCCESS, Some q', fold dealloc_item xs w) \<and>
              queue_rep q' [] \<and> unblocked q' = unblocked q"
proof -
  obtain l as where l: "msg_list q = Some l" "list_rep l as xs"
    using assms by (auto simp: queue_rep_def)
  show ?thesis
    using linked_list_flush_rep [OF l(2), of w] l(1)
    by (auto simp: msg_q_flush_def queue_rep_def)
qed

lemma msg_q_init_rep:
  "\<exists>q. msg_q_init True True True True True = (eMSG_Q_SUCCESS, Some q) \<and> queue_rep q [] \<and>
       \<not> unblocked q"
  by (auto simp: msg_q_init_def linked_list_init_def queue_rep_def list_rep_def)

section \<open>Threads\<close>

text \<open>
  The state of a queue and of the threads that use it: the threads blocked in
  \<open>pthread_cond_wait\<close>, those woken in it, and two histories, the data sent with success and the
  data that left the queue, with the thread that received it (\<open>None\<close> for flushed data).
\<close>

record ('d, 'w) q_sys =
  queue :: "('d, 'w) msg_q"
  waiting :: "nat set"
  woken :: "nat set"
  world :: 'w
  sent :: "'d list"
  gone :: "(nat option \<times> 'd) list"

definition q_sys_init :: "'w \<Rightarrow> ('d, 'w) q_sys \<Rightarrow> bool" where
  "q_sys_init w s \<longleftrightarrow>
     msg_q_init True True True True True = (eMSG_Q_SUCCESS, Some (queue s)) \<and>
     waiting s = {} \<and> woken s = {} \<and> world s = w \<and> sent s = [] \<and> gone s = []"

text \<open>
  \<open>pthread_cond_signal\<close> wakes at least one waiter if there is one: the set \<open>T\<close>.
\<close>

definition signalled :: "bool \<Rightarrow> nat set \<Rightarrow> nat set \<Rightarrow> bool" where
  "signalled sig W T \<longleftrightarrow> T \<subseteq> W \<and> (if sig then W \<noteq> {} \<longrightarrow> T \<noteq> {} else T = {})"

text \<open>What a thread that ran a receiving critical section leaves.\<close>

fun rcv_outcome ::
  "nat \<Rightarrow> 'd rcv_result \<Rightarrow> ('d, 'w) msg_q \<Rightarrow> ('d, 'w) q_sys \<Rightarrow> ('d, 'w) q_sys" where
  "rcv_outcome t Rcv_wait q s = s\<lparr>queue := q, waiting := insert t (waiting s)\<rparr>"
| "rcv_outcome t (Rcv_return e d) q s =
     s\<lparr>queue := q,
       gone := gone s @ (case d of None \<Rightarrow> [] | Some m \<Rightarrow> [(Some t, m)])\<rparr>"

inductive q_step :: "('d, 'w) q_sys \<Rightarrow> ('d, 'w) q_sys \<Rightarrow> bool" where
  snd:
    "\<lbrakk>\<forall>a. elem = Some a \<longrightarrow> queue_fresh a (queue s);
      msg_q_snd elem (Some (queue s)) (Some m) f = Some (e, Some q, sig);
      signalled sig (waiting s) T\<rbrakk> \<Longrightarrow>
     q_step s (s\<lparr>queue := q, waiting := waiting s - T, woken := woken s \<union> T,
                 sent := sent s @ (if e = eMSG_Q_SUCCESS then [m] else [])\<rparr>)"
| rcv_begin:
    "\<lbrakk>t \<notin> waiting s; t \<notin> woken s;
      msg_q_rcv (Some (queue s)) True = Some (r, Some q)\<rbrakk> \<Longrightarrow>
     q_step s (rcv_outcome t r q s)"
| rcv_resume:
    "\<lbrakk>t \<in> woken s; msg_q_rcv_loop (queue s) = Some (r, q)\<rbrakk> \<Longrightarrow>
     q_step s (rcv_outcome t r q (s\<lparr>woken := woken s - {t}\<rparr>))"
| spurious:
    "t \<in> waiting s \<Longrightarrow>
     q_step s (s\<lparr>waiting := waiting s - {t}, woken := insert t (woken s)\<rparr>)"
| flush:
    "\<lbrakk>msg_q_flush (Some (queue s)) (world s) = Some (e, Some q, w);
      queue_rep (queue s) xs\<rbrakk> \<Longrightarrow>
     q_step s (s\<lparr>queue := q, world := w,
                 gone := gone s @ map (\<lambda>x. (None, fst x)) (rev xs)\<rparr>)"
| unblock:
    "msg_q_unblock (Some (queue s)) = (e, Some q, wake) \<Longrightarrow>
     q_step s (if wake then s\<lparr>queue := q, waiting := {}, woken := woken s \<union> waiting s\<rparr>
               else s\<lparr>queue := q\<rparr>)"

inductive_cases q_stepE: "q_step s s'"

text \<open>The invariant of the system.\<close>

definition q_inv :: "('d, 'w) q_sys \<Rightarrow> bool" where
  "q_inv s \<longleftrightarrow>
     finite (waiting s) \<and> finite (woken s) \<and> waiting s \<inter> woken s = {} \<and>
     (\<exists>xs. queue_rep (queue s) xs \<and>
        map snd (gone s) @ map fst (rev xs) = sent s \<and>
        (waiting s \<noteq> {} \<longrightarrow> \<not> unblocked (queue s) \<and> length xs \<le> card (woken s)))"

lemma q_invI:
  assumes "queue_rep (queue s) xs" "map snd (gone s) @ map fst (rev xs) = sent s"
    "finite (waiting s)" "finite (woken s)" "waiting s \<inter> woken s = {}"
    "waiting s \<noteq> {} \<Longrightarrow> \<not> unblocked (queue s) \<and> length xs \<le> card (woken s)"
  shows "q_inv s"
  using assms by (auto simp: q_inv_def)

lemma q_invE:
  assumes "q_inv s"
  obtains xs where "queue_rep (queue s) xs" "map snd (gone s) @ map fst (rev xs) = sent s"
    "finite (waiting s)" "finite (woken s)" "waiting s \<inter> woken s = {}"
    "waiting s \<noteq> {} \<Longrightarrow> \<not> unblocked (queue s) \<and> length xs \<le> card (woken s)"
  using assms by (auto simp: q_inv_def)

lemma queue_rep_unique: "\<lbrakk>queue_rep q xs; queue_rep q ys\<rbrakk> \<Longrightarrow> xs = ys"
proof -
  have *: "as = bs" if "chain h p as None" "chain h p bs None" "hd_opt as = hd_opt bs"
    for h :: "addr \<rightharpoonup> ('a, 'b) list_element" and p as bs
    using that
  proof (induction as arbitrary: p bs)
    case (Cons a as)
    then show ?case by (cases bs) (auto split: option.splits)
  qed auto
  assume "queue_rep q xs" "queue_rep q ys"
  then show "xs = ys"
    by (auto simp: queue_rep_def elim!: list_repE) (metis *)
qed

lemma q_inv_init:
  fixes s :: "('d, 'w) q_sys"
  assumes "q_sys_init w s"
  shows "q_inv s"
proof -
  obtain q :: "('d, 'w) msg_q" where
    "msg_q_init True True True True True = (eMSG_Q_SUCCESS, Some q)" "queue_rep q []"
    using msg_q_init_rep by blast
  then have "queue_rep (queue s) []" using assms by (simp add: q_sys_init_def)
  then show ?thesis using assms by (intro q_invI) (auto simp: q_sys_init_def)
qed

text \<open>A receiving critical section run by a thread that is neither waiting nor woken.\<close>

lemma rcv_loop_inv:
  assumes "queue_rep (queue s) xs" "finite (waiting s)" "finite (woken s)"
    "waiting s \<inter> woken s = {}" "t \<notin> waiting s" "t \<notin> woken s"
    "map snd (gone s) @ map fst (rev xs) = sent s"
    "waiting s \<noteq> {} \<Longrightarrow> \<not> unblocked (queue s) \<and> length xs \<le> Suc (card (woken s))"
    "msg_q_rcv_loop (queue s) = Some (r, q)"
  shows "q_inv (rcv_outcome t r q s)"
proof (cases xs rule: rev_cases)
  case Nil
  then show ?thesis
    using assms msg_q_rcv_loop_empty [of "queue s"] by (auto simp: q_inv_def split: if_splits)
next
  case (snoc ys x)
  obtain q' where "msg_q_rcv_loop (queue s) = Some (Rcv_return eMSG_Q_SUCCESS (Some (fst x)), q')"
    "queue_rep q' ys" "unblocked q' = unblocked (queue s)"
    using msg_q_rcv_loop_message assms(1) snoc by blast
  then show ?thesis using assms snoc by (auto simp: q_inv_def intro!: exI [of _ ys])
qed

lemma q_inv_wake:
  assumes "signalled sig W T" "finite W" "finite R" "W \<inter> R = {}" "W - T \<noteq> {}" "sig" "n \<le> card R"
  shows "Suc n \<le> card (R \<union> T)"
proof -
  have T: "T \<subseteq> W" "T \<noteq> {}" using assms by (auto simp: signalled_def)
  then have "finite T" "T \<inter> R = {}" using assms finite_subset by auto
  then have "card (R \<union> T) = card R + card T" using assms by (simp add: card_Un_disjoint Int_commute)
  moreover have "card T > 0" using T \<open>finite T\<close> by (simp add: card_gt_0_iff)
  ultimately show ?thesis using assms by simp
qed

lemma q_inv_snd:
  assumes "q_inv s" "\<forall>a. elem = Some a \<longrightarrow> queue_fresh a (queue s)"
    "msg_q_snd elem (Some (queue s)) (Some m) f = Some (e, Some q, sig)"
    "signalled sig (waiting s) T"
  shows "q_inv (s\<lparr>queue := q, waiting := waiting s - T, woken := woken s \<union> T,
                  sent := sent s @ (if e = eMSG_Q_SUCCESS then [m] else [])\<rparr>)"
proof -
  obtain xs where xs: "queue_rep (queue s) xs" "map snd (gone s) @ map fst (rev xs) = sent s"
    "waiting s \<noteq> {} \<Longrightarrow> \<not> unblocked (queue s) \<and> length xs \<le> card (woken s)"
    and fin: "finite (waiting s)" "finite (woken s)" "waiting s \<inter> woken s = {}"
    using assms(1) by (auto simp: q_inv_def)
  have T: "T \<subseteq> waiting s" "finite T" using assms(4) fin by (auto simp: signalled_def finite_subset)
  show ?thesis
  proof (cases "unblocked (queue s)")
    case True
    then show ?thesis
      using assms(3) xs fin T by (intro q_invI [of _ xs]) (auto simp: msg_q_snd_unblocked)
  next
    case False
    have wake: "waiting s - T \<noteq> {} \<Longrightarrow> sig \<Longrightarrow> Suc (length xs) \<le> card (woken s \<union> T)"
      using q_inv_wake [OF assms(4)] fin xs(3) by blast
    show ?thesis
    proof (cases elem)
      case None
      then show ?thesis
        using assms(3) xs fin T wake False msg_q_snd_nomem [OF xs(1) False, of m f]
        by (intro q_invI [of _ xs]) (auto dest: Suc_leD)
    next
      case (Some a)
      then obtain q' where
        "msg_q_snd (Some a) (Some (queue s)) (Some m) f = Some (eMSG_Q_SUCCESS, Some q', True)"
        "queue_rep q' ((m, f) # xs)" "\<not> unblocked q'"
        using msg_q_snd_rep [OF xs(1)] assms(2) False by blast
      then show ?thesis
        using Some assms(3) xs fin T wake by (intro q_invI [of _ "(m, f) # xs"]) auto
    qed
  qed
qed

lemma msg_q_rcv_loop_total:
  "queue_rep q xs \<Longrightarrow> \<exists>r q'. msg_q_rcv_loop q = Some (r, q')"
  by (cases xs rule: rev_cases)
     (use msg_q_rcv_loop_empty msg_q_rcv_loop_message in blast)+

lemma q_inv_step: "q_step s s' \<Longrightarrow> q_inv s \<Longrightarrow> q_inv s'"
proof (induction rule: q_step.induct)
  case (snd elem s m f e q sig T)
  then show ?case by (blast intro: q_inv_snd)
next
  case (rcv_begin t s r q)
  show ?case
  proof (cases "unblocked (queue s)")
    case True
    have "s\<lparr>queue := queue s, gone := gone s\<rparr> = s" by simp
    then show ?thesis using rcv_begin True by (auto simp: msg_q_rcv_def)
  next
    case False
    then have "msg_q_rcv_loop (queue s) = Some (r, q)"
      using rcv_begin by (auto simp: msg_q_rcv_def)
    then show ?thesis
      using rcv_begin(1,2,4) by (elim q_invE) (rule rcv_loop_inv; auto intro: le_SucI)
  qed
next
  case (rcv_resume t s r q)
  have "finite (woken s) \<Longrightarrow> card (woken s) = Suc (card (woken s - {t}))"
    using rcv_resume(1) by (metis card_Suc_Diff1)
  then show ?case
    using rcv_resume by (elim q_invE) (rule rcv_loop_inv; auto)
next
  case (spurious t s)
  then show ?case
    by (elim q_invE) (rule q_invI, auto simp: card_insert_if intro: le_SucI)
next
  case (flush s e q w xs)
  then obtain q' where q': "msg_q_flush (Some (queue s)) (world s) =
      Some (eMSG_Q_SUCCESS, Some q', fold dealloc_item xs (world s))"
    "queue_rep q' []" "unblocked q' = unblocked (queue s)"
    using msg_q_flush_rep [OF flush(2), of "world s"] by blast
  obtain ys where ys: "queue_rep (queue s) ys"
    "map snd (gone s) @ map fst (rev ys) = sent s"
    "finite (waiting s)" "finite (woken s)" "waiting s \<inter> woken s = {}"
    "waiting s \<noteq> {} \<Longrightarrow> \<not> unblocked (queue s) \<and> length ys \<le> card (woken s)"
    using flush(3) unfolding q_inv_def by blast
  have "q = q'" using flush(1) q'(1) by simp
  moreover have "xs = ys" using queue_rep_unique flush(2) ys(1) by blast
  ultimately show ?case
    using q'(2,3) ys(2-6) by (intro q_invI [of _ "[]"]) (simp_all add: rev_map comp_def)
next
  case (unblock s e q wake)
  show ?case
  proof (cases "unblocked (queue s)")
    case True
    have "s\<lparr>queue := queue s\<rparr> = s" by simp
    then show ?thesis using unblock True by (auto simp: msg_q_unblock_def)
  next
    case False
    then have q: "q = (queue s)\<lparr>unblocked := True\<rparr>" "wake"
      using unblock by (auto simp: msg_q_unblock_def)
    have "queue_rep q xs = queue_rep (queue s) xs" for xs by (simp add: q queue_rep_def)
    then show ?thesis using unblock(2) q(2) by (elim q_invE) (rule q_invI, auto)
  qed
qed

lemma q_inv_reachable: "q_step\<^sup>*\<^sup>* s s' \<Longrightarrow> q_inv s \<Longrightarrow> q_inv s'"
  by (induction rule: rtranclp_induct) (auto intro: q_inv_step)

text \<open>Unblocking is final: no later step accepts a message or makes a thread wait.\<close>

lemma unblocked_step:
  assumes "q_step s s'" "unblocked (queue s)" "waiting s = {}"
  shows "unblocked (queue s') \<and> waiting s' = {} \<and> sent s' = sent s \<and> woken s' \<subseteq> woken s"
  using assms
proof (cases rule: q_step.cases)
  case (rcv_resume t r q)
  then show ?thesis using assms
    by (cases r) (auto simp: msg_q_rcv_loop_def split: option.splits if_splits prod.splits)
next
  case (rcv_begin t r q)
  then show ?thesis using assms by (auto simp: msg_q_rcv_def)
next
  case (flush e q w xs)
  then show ?thesis using assms by (auto simp: msg_q_flush_def split: option.splits)
qed (auto simp: msg_q_snd_unblocked signalled_def msg_q_unblock_def)

section \<open>Properties\<close>

text \<open>
  C6: no wake-up is lost. In every state the threads of a queue can reach from
  initialisation, if some receiver is blocked on the condition variable then the queue has not
  been unblocked, and there are at least as many woken receivers as queued messages; so when no
  woken receiver is left, a receiver that waits faces an empty queue. Spurious wake-ups,
  receivers that overtake the woken ones and failed allocations are included.
\<close>

theorem msg_q_no_lost_wakeup:
  assumes "q_sys_init w s0" "q_step\<^sup>*\<^sup>* s0 s" "waiting s \<noteq> {}"
  shows "\<not> unblocked (queue s) \<and>
         (\<exists>xs. queue_rep (queue s) xs \<and> length xs \<le> card (woken s))"
  using q_inv_reachable [OF assms(2) q_inv_init [OF assms(1)]] assms(3) by (auto elim!: q_invE)

definition q_sys0 :: "(string, string list) q_sys" where
  "q_sys0 = \<lparr>queue = \<lparr>msg_list = Some list0, unblocked = False\<rparr>, waiting = {}, woken = {},
             world = [], sent = [], gone = []\<rparr>"

lemma q_sys0_init: "q_sys_init [] q_sys0"
  by (simp add: q_sys_init_def q_sys0_def msg_q_init_def linked_list_init_def list0_def)

lemma q_sys0_wait: "q_step q_sys0 (q_sys0\<lparr>waiting := {7}\<rparr>)"
proof -
  have "queue_rep (queue q_sys0) []"
    unfolding q_sys0_def queue_rep_def using list0_rep by fastforce
  then have "msg_q_rcv (Some (queue q_sys0)) True = Some (Rcv_wait, Some (queue q_sys0))"
    by (simp add: msg_q_rcv_def msg_q_rcv_loop_empty) (simp add: q_sys0_def)
  from q_step.rcv_begin [OF _ _ this, of 7] show ?thesis by (simp add: q_sys0_def)
qed

theorem msg_q_no_lost_wakeup_witness:
  "\<not> unblocked (queue (q_sys0\<lparr>waiting := {7}\<rparr>)) \<and>
   (\<exists>xs. queue_rep (queue (q_sys0\<lparr>waiting := {7}\<rparr>)) xs \<and>
         length xs \<le> card (woken (q_sys0\<lparr>waiting := {7}\<rparr>)))"
  by (rule msg_q_no_lost_wakeup [OF q_sys0_init r_into_rtranclp [of q_step, OF q_sys0_wait]]) simp

text \<open>
  C28: messages are delivered in order and none is lost or duplicated. In every
  reachable state the messages that left the queue (received or flushed), in the order they
  left, followed by those still in it, oldest first, are exactly the messages sent with
  success, in the order of sending.
\<close>

theorem msg_q_delivery_order:
  assumes "q_sys_init w s0" "q_step\<^sup>*\<^sup>* s0 s"
  shows "\<exists>xs. queue_rep (queue s) xs \<and> map snd (gone s) @ map fst (rev xs) = sent s"
  using q_inv_reachable [OF assms(2) q_inv_init [OF assms(1)]] by (auto elim!: q_invE)

theorem msg_q_delivery_order_witness:
  "\<exists>xs. queue_rep (queue (q_sys0\<lparr>waiting := {7}\<rparr>)) xs \<and>
     map snd (gone (q_sys0\<lparr>waiting := {7}\<rparr>)) @ map fst (rev xs) = sent (q_sys0\<lparr>waiting := {7}\<rparr>)"
  by (rule msg_q_delivery_order [OF q_sys0_init r_into_rtranclp [of q_step, OF q_sys0_wait]])

text \<open>
  unblocking ends a queue for good. Once \<open>msg_q_unblock\<close> has succeeded no
  thread is or will be blocked on the condition variable, no message is accepted any more, and
  every receiver that was waiting returns at its next critical section: with a message that was
  still queued, or with \<open>eMSG_Q_UNAVAILABLE_RESOURCE\<close>.
\<close>

theorem msg_q_unblock_final:
  assumes "q_inv s" "unblocked (queue s)" "q_step\<^sup>*\<^sup>* s s'"
  shows "unblocked (queue s') \<and> waiting s' = {} \<and> sent s' = sent s \<and> woken s' \<subseteq> woken s \<and>
         (\<exists>e d q. msg_q_rcv_loop (queue s') = Some (Rcv_return e d, q) \<and>
            (e = eMSG_Q_SUCCESS \<longleftrightarrow> d \<noteq> None) \<and> (d = None \<longrightarrow> e = eMSG_Q_UNAVAILABLE_RESOURCE))"
proof -
  have "waiting s = {}" using assms(1,2) by (auto elim!: q_invE)
  from assms(3) have *: "unblocked (queue s') \<and> waiting s' = {} \<and> sent s' = sent s \<and>
      woken s' \<subseteq> woken s"
  proof (induction rule: rtranclp_induct)
    case base
    then show ?case using assms(2) \<open>waiting s = {}\<close> by simp
  next
    case (step y z)
    then show ?case using unblocked_step by fastforce
  qed
  obtain xs where xs: "queue_rep (queue s') xs"
    using q_inv_reachable [OF assms(3,1)] by (auto elim!: q_invE)
  have "\<exists>e d q. msg_q_rcv_loop (queue s') = Some (Rcv_return e d, q) \<and>
      (e = eMSG_Q_SUCCESS \<longleftrightarrow> d \<noteq> None) \<and> (d = None \<longrightarrow> e = eMSG_Q_UNAVAILABLE_RESOURCE)"
  proof (cases xs rule: rev_cases)
    case Nil
    then show ?thesis using msg_q_rcv_loop_empty [of "queue s'"] xs * by simp
  next
    case (snoc ys y)
    then show ?thesis using msg_q_rcv_loop_message [of "queue s'" ys y] xs by auto
  qed
  then show ?thesis using * by blast
qed

text \<open>A queue unblocked with two messages in it and one woken receiver.\<close>

definition q_sys2 :: "(string, string list) q_sys" where
  "q_sys2 = \<lparr>queue = \<lparr>msg_list = Some list2, unblocked = True\<rparr>, waiting = {}, woken = {3},
             world = [], sent = [''a'', ''b''], gone = []\<rparr>"

lemma q_sys2_inv: "q_inv q_sys2"
proof (rule q_invI)
  show "queue_rep (queue q_sys2) [(''b'', Some log_free), (''a'', None)]"
    unfolding q_sys2_def queue_rep_def using list2_rep by fastforce
qed (simp_all add: q_sys2_def)

theorem msg_q_unblock_final_witness:
  "unblocked (queue q_sys2) \<and> waiting q_sys2 = {} \<and> sent q_sys2 = sent q_sys2 \<and>
   woken q_sys2 \<subseteq> woken q_sys2 \<and>
   (\<exists>e d q. msg_q_rcv_loop (queue q_sys2) = Some (Rcv_return e d, q) \<and>
      (e = eMSG_Q_SUCCESS \<longleftrightarrow> d \<noteq> None) \<and> (d = None \<longrightarrow> e = eMSG_Q_UNAVAILABLE_RESOURCE))"
  by (rule msg_q_unblock_final [OF q_sys2_inv]) (simp_all add: q_sys2_def)

end
