(* ===== verification/Loc_Heap.thy ===== *)
theory Loc_Heap
  imports Prelude "HOL-Library.Multiset"
begin

text \<open>
  The priority heap of \<open>gps/utils/LocHeap.cpp\<close>: a binary tree of nodes that is ordered from
  parent to child only. The ranking is the virtual method \<open>ranks\<close> of the client's class, so it
  is an argument here; what the heap needs of it is the locale \<open>rankable\<close>. Two data pointers
  are equal when they are the same object, which is HOL equality on the elements.
\<close>

section \<open>Nodes and operations\<close>

datatype 'a heap_node =
    NULL_node
  | LocHeapNode (mSize: int) (mLeft: "'a heap_node") (mRight: "'a heap_node") (mData: 'a)
  where "mSize NULL_node = 0"

definition outRanks :: "('a \<Rightarrow> 'a \<Rightarrow> int) \<Rightarrow> 'a \<Rightarrow> 'a \<Rightarrow> bool" where
  "outRanks ranks a b \<longleftrightarrow> ranks a b > 0"

text \<open>The constructor \<open>LocHeapNode(data)\<close>.\<close>

definition new_node :: "'a \<Rightarrow> 'a heap_node" where
  "new_node x = LocHeapNode 1 NULL_node NULL_node x"

text \<open>
  \<open>LocHeapNode::push\<close>: the data of the incoming node and of this node are swapped when the
  incoming one ranks higher, and the lower one goes on into the smaller subtree.
\<close>

fun node_push :: "('a \<Rightarrow> 'a \<Rightarrow> int) \<Rightarrow> 'a heap_node \<Rightarrow> 'a \<Rightarrow> 'a heap_node" where
  "node_push ranks NULL_node x = new_node x"
| "node_push ranks (LocHeapNode n l r d) x =
     (let (d', x') = (if outRanks ranks x d then (x, d) else (d, x))
      in if l = NULL_node then LocHeapNode (n + 1) (new_node x') r d'
         else if r = NULL_node then LocHeapNode (n + 1) l (new_node x') d'
         else if mSize l \<le> mSize r then LocHeapNode (n + 1) (node_push ranks l x') r d'
         else LocHeapNode (n + 1) l (node_push ranks r x') d')"

fun set_data :: "'a \<Rightarrow> 'a heap_node \<Rightarrow> 'a heap_node" where
  "set_data x NULL_node = NULL_node"
| "set_data x (LocHeapNode n l r d) = LocHeapNode n l r x"

lemma size_set_data [simp]: "size (set_data x t) = size t"
  by (cases t) auto

text \<open>
  \<open>LocHeapNode::pop\<close>: the data moves down by swaps with the higher ranking child until a leaf
  node, which is detached. The result is the tree and the data of the popped node.
\<close>

function node_pop :: "('a \<Rightarrow> 'a \<Rightarrow> int) \<Rightarrow> 'a heap_node \<Rightarrow> 'a heap_node \<times> 'a option" where
  "node_pop ranks NULL_node = (NULL_node, None)"
| "node_pop ranks (LocHeapNode n l r d) =
     (if l = NULL_node \<and> r = NULL_node then (NULL_node, Some d)
      else if l = NULL_node \<or> (r \<noteq> NULL_node \<and> \<not> outRanks ranks (mData l) (mData r))
      then (let (r', x) = node_pop ranks (set_data d r)
            in (LocHeapNode (n - 1) l r' (mData r), x))
      else (let (l', x) = node_pop ranks (set_data d l)
            in (LocHeapNode (n - 1) l' r (mData l), x)))"
  by pat_completeness auto
termination by (relation "measure (size \<circ> snd)") auto

text \<open>\<open>LocHeapNode::remove\<close>: a linear search that skips subtrees the data outranks.\<close>

fun node_remove :: "('a \<Rightarrow> 'a \<Rightarrow> int) \<Rightarrow> 'a heap_node \<Rightarrow> 'a \<Rightarrow> 'a heap_node \<times> 'a option" where
  "node_remove ranks NULL_node x = (NULL_node, None)"
| "node_remove ranks (LocHeapNode n l r d) x =
     (if x = d then node_pop ranks (LocHeapNode n l r d)
      else if \<not> outRanks ranks x d then
        (let (l', y) = (if l \<noteq> NULL_node then node_remove ranks l x else (l, None));
             (r', z) = (if y = None \<and> r \<noteq> NULL_node then node_remove ranks r x else (r, y))
         in (LocHeapNode (if z \<noteq> None then n - 1 else n) l' r' d, z))
      else (LocHeapNode n l r d, None))"

text \<open>\<open>LocHeapNode::checkNodes\<close>, and \<open>LocHeap::checkTree\<close> and \<open>getTreeSize\<close> on a whole tree.\<close>

fun check_nodes :: "('a \<Rightarrow> 'a \<Rightarrow> int) \<Rightarrow> 'a heap_node \<Rightarrow> bool" where
  "check_nodes ranks NULL_node = True"
| "check_nodes ranks (LocHeapNode n l r d) =
     (if l \<noteq> NULL_node \<and> (outRanks ranks (mData l) d \<or> \<not> check_nodes ranks l) then False
      else if r \<noteq> NULL_node \<and> (outRanks ranks (mData r) d \<or> \<not> check_nodes ranks r) then False
      else n - (if l \<noteq> NULL_node then mSize l else 0) - (if r \<noteq> NULL_node then mSize r else 0) = 1)"

definition checkTree :: "('a \<Rightarrow> 'a \<Rightarrow> int) \<Rightarrow> 'a heap_node \<Rightarrow> bool" where
  "checkTree ranks t \<longleftrightarrow> t = NULL_node \<or> check_nodes ranks t"

definition getTreeSize :: "'a heap_node \<Rightarrow> int" where
  "getTreeSize t = (if t = NULL_node then 0 else mSize t)"

text \<open>The public operations; a heap is its tree \<open>mTree\<close>.\<close>

definition heap_push :: "('a \<Rightarrow> 'a \<Rightarrow> int) \<Rightarrow> 'a heap_node \<Rightarrow> 'a \<Rightarrow> 'a heap_node" where
  "heap_push ranks t x = (if t = NULL_node then new_node x else node_push ranks t x)"

definition heap_peek :: "'a heap_node \<Rightarrow> 'a option" where
  "heap_peek t = (if t = NULL_node then None else Some (mData t))"

definition heap_pop :: "('a \<Rightarrow> 'a \<Rightarrow> int) \<Rightarrow> 'a heap_node \<Rightarrow> 'a heap_node \<times> 'a option" where
  "heap_pop ranks t = (if t = NULL_node then (t, None) else node_pop ranks t)"

definition heap_remove :: "('a \<Rightarrow> 'a \<Rightarrow> int) \<Rightarrow> 'a heap_node \<Rightarrow> 'a \<Rightarrow> 'a heap_node \<times> 'a option" where
  "heap_remove ranks t x = (if t = NULL_node then (t, None) else node_remove ranks t x)"

section \<open>Contents, size and shape\<close>

fun elems :: "'a heap_node \<Rightarrow> 'a multiset" where
  "elems NULL_node = {#}"
| "elems (LocHeapNode n l r d) = add_mset d (elems l + elems r)"

fun height :: "'a heap_node \<Rightarrow> nat" where
  "height NULL_node = 0"
| "height (LocHeapNode n l r d) = Suc (max (height l) (height r))"

text \<open>Every subtree differs from its sibling by at most one node.\<close>

fun balanced :: "'a heap_node \<Rightarrow> bool" where
  "balanced NULL_node = True"
| "balanced (LocHeapNode n l r d) \<longleftrightarrow>
     \<bar>int (size (elems l)) - int (size (elems r))\<bar> \<le> 1 \<and> balanced l \<and> balanced r"

lemma elems_set_data: "t \<noteq> NULL_node \<Longrightarrow> elems (set_data x t) = add_mset x (elems t - {#mData t#})"
  by (cases t) auto

lemma elems_empty [simp]: "elems t = {#} \<longleftrightarrow> t = NULL_node"
  by (cases t) auto

lemma mData_in_elems [simp]: "t \<noteq> NULL_node \<Longrightarrow> mData t \<in># elems t"
  by (cases t) auto

lemma mData_in: "\<lbrakk>t \<noteq> NULL_node; set_mset (elems t) \<subseteq> A\<rbrakk> \<Longrightarrow> mData t \<in> A"
  using mData_in_elems by blast

text \<open>What the code checks is a heap order with correct sizes.\<close>

fun heap_ok :: "('a \<Rightarrow> 'a \<Rightarrow> int) \<Rightarrow> 'a heap_node \<Rightarrow> bool" where
  "heap_ok ranks NULL_node = True"
| "heap_ok ranks (LocHeapNode n l r d) \<longleftrightarrow>
     n = int (size (elems l + elems r)) + 1 \<and>
     (l \<noteq> NULL_node \<longrightarrow> \<not> outRanks ranks (mData l) d) \<and>
     (r \<noteq> NULL_node \<longrightarrow> \<not> outRanks ranks (mData r) d) \<and>
     heap_ok ranks l \<and> heap_ok ranks r"

lemma heap_ok_mSize: "heap_ok ranks t \<Longrightarrow> mSize t = int (size (elems t))"
  by (cases t) auto

lemma check_nodes_heap_ok: "check_nodes ranks t = heap_ok ranks t"
  by (induction t) (auto simp: heap_ok_mSize)

lemma checkTree_heap_ok: "checkTree ranks t = heap_ok ranks t"
  by (auto simp: checkTree_def check_nodes_heap_ok)

lemma heap_ok_new_node [simp]: "heap_ok ranks (new_node x)" "elems (new_node x) = {#x#}"
  "mData (new_node x) = x" "new_node x \<noteq> NULL_node" "balanced (new_node x)"
  by (auto simp: new_node_def)

lemma elems_node_push [simp]: "elems (node_push ranks t x) = add_mset x (elems t)"
  by (induction t arbitrary: x) (auto simp: Let_def)

lemma node_push_not_NULL [simp]: "node_push ranks t x \<noteq> NULL_node"
  by (cases t) (auto simp: Let_def)

lemma mData_node_push:
  "mData (node_push ranks t x) = (if t = NULL_node \<or> outRanks ranks x (mData t) then x else mData t)"
  by (cases t) (auto simp: Let_def)

lemma balanced_node_push:
  "balanced t \<Longrightarrow> heap_ok ranks t \<Longrightarrow> balanced (node_push ranks t x)"
  by (induction t arbitrary: x) (auto simp: Let_def heap_ok_mSize)

lemma balanced_height: "balanced t \<Longrightarrow> t \<noteq> NULL_node \<Longrightarrow> 2 ^ height t \<le> 2 * size (elems t)"
proof (induction t)
  case (LocHeapNode n l r d)
  have h: "2 ^ height l \<le> 2 * size (elems l) \<or> l = NULL_node"
    "2 ^ height r \<le> 2 * size (elems r) \<or> r = NULL_node"
    using LocHeapNode by auto
  have "size (elems l) \<le> Suc (size (elems r))" "size (elems r) \<le> Suc (size (elems l))"
    using LocHeapNode.prems by auto
  then show ?case
    using h by (auto simp: max_def)
qed simp

section \<open>The interface of the ranking\<close>

text \<open>
  What the heap needs of \<open>ranks\<close> on the objects it holds: \<open>outRanks\<close> is a strict weak order.
\<close>

locale rankable =
  fixes ranks :: "'a \<Rightarrow> 'a \<Rightarrow> int" and A :: "'a set"
  assumes asym: "\<lbrakk>a \<in> A; b \<in> A; outRanks ranks a b\<rbrakk> \<Longrightarrow> \<not> outRanks ranks b a"
    and ntrans: "\<lbrakk>a \<in> A; b \<in> A; c \<in> A; \<not> outRanks ranks a b; \<not> outRanks ranks b c\<rbrakk> \<Longrightarrow>
      \<not> outRanks ranks a c"
begin

lemma irrefl: "a \<in> A \<Longrightarrow> \<not> outRanks ranks a a"
  using asym by blast

lemma out_not_trans:
  "\<lbrakk>a \<in> A; b \<in> A; c \<in> A; outRanks ranks a b; \<not> outRanks ranks c b\<rbrakk> \<Longrightarrow> \<not> outRanks ranks c a"
  using asym ntrans by blast

lemma top_max:
  "\<lbrakk>heap_ok ranks t; set_mset (elems t) \<subseteq> A; y \<in># elems t\<rbrakk> \<Longrightarrow> \<not> outRanks ranks y (mData t)"
proof (induction t)
  case (LocHeapNode n l r d)
  have sub: "\<not> outRanks ranks y d" if "s \<in> {l, r}" "y \<in># elems s" for s
  proof -
    have s: "s \<noteq> NULL_node" "\<not> outRanks ranks (mData s) d" "set_mset (elems s) \<subseteq> A"
      using that LocHeapNode.prems by auto
    then have "mData s \<in> A" "y \<in> A" "d \<in> A" "\<not> outRanks ranks y (mData s)"
      using that LocHeapNode mData_in [of s A] by auto
    then show ?thesis using s(2) ntrans [of y "mData s" d] by simp
  qed
  from LocHeapNode.prems have "y = d \<or> y \<in># elems l \<or> y \<in># elems r" "d \<in> A" by auto
  then show ?case using sub irrefl by auto
qed simp

lemma node_push_ok:
  "\<lbrakk>heap_ok ranks t; set_mset (elems t) \<subseteq> A; x \<in> A\<rbrakk> \<Longrightarrow> heap_ok ranks (node_push ranks t x)"
proof (induction t arbitrary: x)
  case (LocHeapNode n l r d)
  define d' x' where "d' = (if outRanks ranks x d then x else d)"
    and "x' = (if outRanks ranks x d then d else x)"
  have A: "d' \<in> A" "x' \<in> A" "\<not> outRanks ranks x' d'"
    using LocHeapNode.prems asym irrefl by (auto simp: d'_def x'_def)
  have top: "\<not> outRanks ranks (mData s) d'" if "s \<in> {l, r}" "s \<noteq> NULL_node" for s
  proof -
    have "mData s \<in> A" "d \<in> A" "\<not> outRanks ranks (mData s) d"
      using that LocHeapNode.prems mData_in [of s A] by auto
    then show ?thesis
      using LocHeapNode.prems(3) out_not_trans [of x d "mData s"] by (simp add: d'_def)
  qed
  have pushed: "\<not> outRanks ranks (mData (node_push ranks s x')) d'" if "s \<in> {l, r}" for s
    using that A top [of s] by (simp add: mData_node_push)
  have ok: "heap_ok ranks (node_push ranks l x')" "heap_ok ranks (node_push ranks r x')"
    using LocHeapNode.IH [of x'] LocHeapNode.prems A(2) by simp_all
  have push_eq: "node_push ranks (LocHeapNode n l r d) x =
    (if l = NULL_node then LocHeapNode (n + 1) (new_node x') r d'
     else if r = NULL_node then LocHeapNode (n + 1) l (new_node x') d'
     else if mSize l \<le> mSize r then LocHeapNode (n + 1) (node_push ranks l x') r d'
     else LocHeapNode (n + 1) l (node_push ranks r x') d')"
    by (simp add: d'_def x'_def)
  show ?case
    unfolding push_eq using LocHeapNode.prems(1) A(3) ok top [of l] top [of r] pushed [of l] pushed [of r]
    by simp
qed simp

lemma set_data_ok:
  assumes "heap_ok ranks t" "set_mset (elems t) \<subseteq> A" "d \<in> A" "t \<noteq> NULL_node"
    "\<not> outRanks ranks (mData t) d"
  shows "heap_ok ranks (set_data d t)" "set_mset (elems (set_data d t)) \<subseteq> A"
proof -
  obtain n l r e where t: "t = LocHeapNode n l r e" using assms(4) by (cases t) auto
  have "\<not> outRanks ranks (mData s) d" if "s \<in> {l, r}" "s \<noteq> NULL_node" for s
  proof -
    have "mData s \<in> A" "e \<in> A" "\<not> outRanks ranks (mData s) e"
      using that t assms mData_in [of s A] by auto
    then show ?thesis using ntrans [of "mData s" e d] assms(3,5) t by simp
  qed
  then show "heap_ok ranks (set_data d t)" "set_mset (elems (set_data d t)) \<subseteq> A"
    using assms t by auto
qed

lemma node_pop_ok:
  "\<lbrakk>heap_ok ranks t; set_mset (elems t) \<subseteq> A; t \<noteq> NULL_node\<rbrakk> \<Longrightarrow>
   \<exists>t'. node_pop ranks t = (t', Some (mData t)) \<and> heap_ok ranks t' \<and>
        elems t' = elems t - {#mData t#}"
proof (induction t rule: measure_induct_rule [of size])
  case (less t)
  obtain n l r d where t: "t = LocHeapNode n l r d" using less.prems by (cases t) auto
  note ok = less.prems [unfolded t, simplified]
  have out: "\<not> outRanks ranks y (mData s)" if "s \<in> {l, r}" "y \<in># elems s" for s y
    using that ok top_max [of s y] by auto
  have down: "\<exists>s'. node_pop ranks (set_data d s) = (s', Some d) \<and> heap_ok ranks s' \<and>
      elems s' = elems s - {#mData s#}" if s: "s \<in> {l, r}" "s \<noteq> NULL_node" for s
  proof -
    have "heap_ok ranks (set_data d s)" "set_mset (elems (set_data d s)) \<subseteq> A"
      using set_data_ok [of s d] s ok by auto
    moreover have "size (set_data d s) < size t" "set_data d s \<noteq> NULL_node" "mData (set_data d s) = d"
      using s t by (cases s; auto)+
    ultimately show ?thesis
      using less.IH [of "set_data d s"] elems_set_data [of s d] s by auto
  qed
  show ?case
  proof (cases "l = NULL_node \<and> r = NULL_node")
    case True
    then show ?thesis by (simp add: t)
  next
    case False
    define right where
      "right \<longleftrightarrow> l = NULL_node \<or> (r \<noteq> NULL_node \<and> \<not> outRanks ranks (mData l) (mData r))"
    define s u where "s = (if right then r else l)" and "u = (if right then l else r)"
    have s: "s \<in> {l, r}" "s \<noteq> NULL_node" using False by (auto simp: s_def right_def)
    obtain s' where s': "node_pop ranks (set_data d s) = (s', Some d)" "heap_ok ranks s'"
      "elems s' = elems s - {#mData s#}"
      using down [OF s] by auto
    have "mData s' \<in># elems s" if "s' \<noteq> NULL_node"
      using mData_in_elems [OF that] s'(3) by (metis in_diffD)
    then have os: "s' \<noteq> NULL_node \<Longrightarrow> \<not> outRanks ranks (mData s') (mData s)"
      using out s by blast
    have inA: "u \<noteq> NULL_node \<Longrightarrow> mData u \<in> A" "mData s \<in> A"
      using ok s mData_in [of u A] mData_in [of s A] by (auto simp: u_def)
    have ou: "u \<noteq> NULL_node \<Longrightarrow> \<not> outRanks ranks (mData u) (mData s)"
      using asym [of "mData l" "mData r"] inA
      by (cases right) (auto simp: u_def s_def right_def)
    have sz: "size (elems s) = Suc (size (elems s'))"
      using s s'(3) by (metis mData_in_elems size_Suc_Diff1)
    have es: "elems s = add_mset (mData s) (elems s')" using s s'(3) by simp
    have "node_pop ranks t =
        (if right then LocHeapNode (n - 1) l s' (mData s) else LocHeapNode (n - 1) s' r (mData s),
         Some d)"
      using s'(1) False by (auto simp: t s_def right_def)
    moreover have "heap_ok ranks
        (if right then LocHeapNode (n - 1) l s' (mData s) else LocHeapNode (n - 1) s' r (mData s))"
      using ok s'(2) os ou sz by (cases right) (simp_all add: s_def u_def)
    moreover have "elems
        (if right then LocHeapNode (n - 1) l s' (mData s) else LocHeapNode (n - 1) s' r (mData s)) =
        elems t - {#mData t#}"
      using es by (auto simp: t s_def)
    ultimately show ?thesis by (auto simp: t)
  qed
qed

lemma node_remove_ok:
  "\<lbrakk>heap_ok ranks t; set_mset (elems t) \<subseteq> A; x \<in> A\<rbrakk> \<Longrightarrow>
   if x \<in># elems t
   then \<exists>t'. node_remove ranks t x = (t', Some x) \<and> heap_ok ranks t' \<and> elems t' = elems t - {#x#}
   else node_remove ranks t x = (t, None)"
proof (induction t)
  case (LocHeapNode n l r d)
  note ok = LocHeapNode.prems [simplified]
  have child: "s' \<noteq> NULL_node \<Longrightarrow> \<not> outRanks ranks (mData s') d"
    if "s \<in> {l, r}" "elems s' \<subseteq># elems s" for s s'
  proof -
    assume "s' \<noteq> NULL_node"
    then have "mData s' \<in># elems s" using that mData_in_elems by (metis mset_subset_eqD)
    then show ?thesis
      using top_max [OF LocHeapNode.prems(1,2), of "mData s'"] that(1) by auto
  qed
  consider (here) "x = d" | (above) "x \<noteq> d" "outRanks ranks x d"
    | (left) "x \<noteq> d" "\<not> outRanks ranks x d" "x \<in># elems l"
    | (right) "x \<noteq> d" "\<not> outRanks ranks x d" "x \<notin># elems l"
    by blast
  then show ?case
  proof cases
    case here
    then show ?thesis
      using node_pop_ok [OF LocHeapNode.prems(1,2)] by simp
  next
    case above
    then have "x \<notin># elems (LocHeapNode n l r d)"
      using top_max [OF LocHeapNode.prems(1,2), of x] by auto
    then show ?thesis using above by auto
  next
    case left
    then obtain l' where l': "node_remove ranks l x = (l', Some x)" "heap_ok ranks l'"
      "elems l' = elems l - {#x#}"
      using LocHeapNode.IH(1) ok by auto
    then have "elems l = add_mset x (elems l')" using left(3) by simp
    moreover have "l \<noteq> NULL_node" "l' \<noteq> NULL_node \<Longrightarrow> \<not> outRanks ranks (mData l') d"
      using left(3) l'(3) child [of l l'] by auto
    ultimately show ?thesis
      using left(1,2) l'(1,2) ok by auto
  next
    case right
    have l: "node_remove ranks l x = (l, None)" using LocHeapNode.IH(1) ok right by auto
    show ?thesis
    proof (cases "x \<in># elems r")
      case True
      then obtain r' where r': "node_remove ranks r x = (r', Some x)" "heap_ok ranks r'"
        "elems r' = elems r - {#x#}"
        using LocHeapNode.IH(2) ok by auto
      then have "elems r = add_mset x (elems r')" using True by simp
      moreover have "r \<noteq> NULL_node" "r' \<noteq> NULL_node \<Longrightarrow> \<not> outRanks ranks (mData r') d"
        using True r'(3) child [of r r'] by auto
      ultimately show ?thesis
        using right l r'(1,2) ok by auto
    next
      case False
      then show ?thesis using right l LocHeapNode.IH(2) ok by auto
    qed
  qed
qed simp

end

section \<open>The interface of a ranked queue\<close>

text \<open>
  What a client of the heap relies on: \<open>items\<close> are the objects in it, \<open>pop\<close> and \<open>peek\<close> give
  one that nothing in it outranks, and \<open>remove\<close> takes out exactly the object it is given.
\<close>

fun drain :: "('h \<Rightarrow> 'h \<times> 'a option) \<Rightarrow> nat \<Rightarrow> 'h \<Rightarrow> 'a list" where
  "drain pop 0 h = []"
| "drain pop (Suc n) h =
     (case pop h of (h', None) \<Rightarrow> [] | (h', Some x) \<Rightarrow> x # drain pop n h')"

locale ranked_queue =
  fixes ranks :: "'a \<Rightarrow> 'a \<Rightarrow> int" and A :: "'a set"
    and inv :: "'h \<Rightarrow> bool" and items :: "'h \<Rightarrow> 'a multiset"
    and push :: "'h \<Rightarrow> 'a \<Rightarrow> 'h" and peek :: "'h \<Rightarrow> 'a option"
    and pop :: "'h \<Rightarrow> 'h \<times> 'a option" and remove :: "'h \<Rightarrow> 'a \<Rightarrow> 'h \<times> 'a option"
  assumes inA: "inv h \<Longrightarrow> set_mset (items h) \<subseteq> A"
    and push_inv: "\<lbrakk>inv h; x \<in> A\<rbrakk> \<Longrightarrow> inv (push h x) \<and> items (push h x) = add_mset x (items h)"
    and peek_pop: "inv h \<Longrightarrow> peek h = snd (pop h)"
    and pop_empty: "\<lbrakk>inv h; items h = {#}\<rbrakk> \<Longrightarrow> pop h = (h, None)"
    and pop_top: "\<lbrakk>inv h; items h \<noteq> {#}\<rbrakk> \<Longrightarrow>
      \<exists>h' x. pop h = (h', Some x) \<and> inv h' \<and> x \<in># items h \<and> items h' = items h - {#x#} \<and>
             (\<forall>y \<in># items h. \<not> outRanks ranks y x)"
    and remove_in: "\<lbrakk>inv h; x \<in># items h\<rbrakk> \<Longrightarrow>
      \<exists>h'. remove h x = (h', Some x) \<and> inv h' \<and> items h' = items h - {#x#}"
    and remove_notin: "\<lbrakk>inv h; x \<in> A; x \<notin># items h\<rbrakk> \<Longrightarrow> remove h x = (h, None)"
begin

lemma foldl_push:
  "\<lbrakk>inv h; set xs \<subseteq> A\<rbrakk> \<Longrightarrow> inv (foldl push h xs) \<and> items (foldl push h xs) = items h + mset xs"
  by (induction xs arbitrary: h) (auto simp: push_inv)

lemma drain_sorted:
  assumes "inv h" "size (items h) = n"
  shows "mset (drain pop n h) = items h \<and>
         sorted_wrt (\<lambda>a b. \<not> outRanks ranks b a) (drain pop n h)"
  using assms
proof (induction n arbitrary: h)
  case (Suc n)
  then have "items h \<noteq> {#}" by auto
  then obtain h' x where h': "pop h = (h', Some x)" "inv h'" "x \<in># items h"
    "items h' = items h - {#x#}" "\<forall>y \<in># items h. \<not> outRanks ranks y x"
    using pop_top [OF Suc.prems(1)] by blast
  have IH: "mset (drain pop n h') = items h'"
    "sorted_wrt (\<lambda>a b. \<not> outRanks ranks b a) (drain pop n h')"
    using Suc.IH [OF h'(2)] Suc.prems h'(3,4) by (simp_all add: size_Diff_singleton)
  have "\<forall>y \<in> set (drain pop n h'). y \<in># items h"
    using IH(1) h'(4) by (metis in_diffD set_mset_mset)
  then show ?case using IH h' by auto
qed simp

end

context rankable
begin

definition heap_inv :: "'a heap_node \<Rightarrow> bool" where
  "heap_inv t \<longleftrightarrow> checkTree ranks t \<and> set_mset (elems t) \<subseteq> A"

lemma heap_peek_pop:
  "heap_inv t \<Longrightarrow> heap_peek t = snd (heap_pop ranks t)"
  using node_pop_ok [of t] by (auto simp: heap_inv_def checkTree_heap_ok heap_peek_def heap_pop_def)

lemma heap_pop_top:
  assumes "heap_inv t" "elems t \<noteq> {#}"
  shows "\<exists>t'. heap_pop ranks t = (t', Some (mData t)) \<and> heap_inv t' \<and> elems t' = elems t - {#mData t#}"
  using node_pop_ok [of t] assms
  by (auto simp: heap_inv_def checkTree_heap_ok heap_pop_def dest!: in_diffD)

lemma heap_remove_cases:
  assumes "heap_inv t" "x \<in> A"
  shows "if x \<in># elems t
         then \<exists>t'. heap_remove ranks t x = (t', Some x) \<and> heap_inv t' \<and> elems t' = elems t - {#x#}
         else heap_remove ranks t x = (t, None)"
  using node_remove_ok [of t x] assms
  by (auto simp: heap_inv_def checkTree_heap_ok heap_remove_def dest!: in_diffD split: if_splits)

lemma push_balanced:
  assumes "heap_inv t" "balanced t" "set xs \<subseteq> A"
  shows "balanced (foldl (heap_push ranks) t xs)"
  using assms
proof (induction xs arbitrary: t)
  case (Cons x xs)
  have "heap_inv (heap_push ranks t x)" "balanced (heap_push ranks t x)"
    using Cons.prems node_push_ok [of t x] balanced_node_push [of t ranks x]
    by (auto simp: heap_inv_def checkTree_heap_ok heap_push_def)
  then show ?case using Cons by simp
qed simp

end

sublocale rankable \<subseteq>
  heap: ranked_queue ranks A heap_inv elems "heap_push ranks" heap_peek "heap_pop ranks"
    "heap_remove ranks"
proof (unfold_locales, goal_cases)
  case (1 h)
  then show ?case by (simp add: heap_inv_def)
next
  case (2 h x)
  then show ?case
    using node_push_ok [of h x] by (auto simp: heap_inv_def checkTree_heap_ok heap_push_def)
next
  case (3 h)
  then show ?case by (rule heap_peek_pop)
next
  case (4 h)
  then show ?case by (simp add: heap_pop_def)
next
  case (5 h)
  then show ?case
    using heap_pop_top [of h] top_max [of h] mData_in_elems [of h]
    by (auto simp: heap_inv_def checkTree_heap_ok)
next
  case (6 h x)
  then have "x \<in> A" by (auto simp: heap_inv_def)
  then show ?case using heap_remove_cases [of h x] 6 by simp
next
  case (7 h x)
  then show ?case using heap_remove_cases [of h x] by simp
qed

text \<open>The ranking of the test data in \<open>LocHeapDebugData\<close>: the smaller identifier is higher.\<close>

definition debug_ranks :: "int \<Rightarrow> int \<Rightarrow> int" where
  "debug_ranks mID testData_mID = testData_mID - mID"

interpretation debug_heap: rankable debug_ranks UNIV
  by unfold_locales (auto simp: debug_ranks_def outRanks_def)

context rankable
begin

lemma push_drain:
  assumes "set xs \<subseteq> A"
  defines "t \<equiv> foldl (heap_push ranks) NULL_node xs"
  shows "heap_inv t \<and> elems t = mset xs \<and> balanced t \<and>
         mset (drain (heap_pop ranks) (length xs) t) = mset xs \<and>
         sorted_wrt (\<lambda>a b. \<not> outRanks ranks b a) (drain (heap_pop ranks) (length xs) t)"
proof -
  have "heap_inv NULL_node" by (simp add: heap_inv_def checkTree_heap_ok)
  then show ?thesis
    using heap.foldl_push [of NULL_node xs] heap.drain_sorted [of t "length xs"]
      push_balanced [of NULL_node xs] assms by simp
qed

end

section \<open>Properties\<close>

text \<open>
  C11: pushing any objects and popping them all sorts them: the tree passes the
  code's own check after the pushes, its recorded size is the number of objects, and the pops
  return exactly the pushed objects, each outranked by none of those popped after it.
\<close>

theorem loc_heap_sorts:
  assumes "rankable ranks A" "set xs \<subseteq> A"
  shows "checkTree ranks (foldl (heap_push ranks) NULL_node xs) \<and>
         getTreeSize (foldl (heap_push ranks) NULL_node xs) = int (length xs) \<and>
         (\<exists>ys. drain (heap_pop ranks) (length xs) (foldl (heap_push ranks) NULL_node xs) = ys \<and>
               mset ys = mset xs \<and> sorted_wrt (\<lambda>a b. \<not> outRanks ranks b a) ys)"
  using rankable.push_drain [OF assms]
  by (auto simp: rankable.heap_inv_def [OF assms(1)] getTreeSize_def checkTree_heap_ok heap_ok_mSize)

theorem loc_heap_sorts_witness:
  "checkTree debug_ranks (foldl (heap_push debug_ranks) NULL_node [3, 1, 2]) \<and>
   getTreeSize (foldl (heap_push debug_ranks) NULL_node [3, 1, 2]) = 3 \<and>
   (\<exists>ys. drain (heap_pop debug_ranks) 3 (foldl (heap_push debug_ranks) NULL_node [3, 1, 2]) = ys \<and>
         mset ys = {#3, 1, 2#} \<and> sorted_wrt (\<lambda>a b. \<not> outRanks debug_ranks b a) ys)"
  using loc_heap_sorts [OF debug_heap.rankable_axioms, of "[3, 1, 2]"]
  by (simp add: add_mset_commute numeral_eq_Suc)

text \<open>
  C31: removal by identity is exact although the search skips every subtree whose
  top the object outranks. On a tree that passes the check, an object that is in the tree is
  found and exactly one occurrence of it is taken out, an object that is not in it changes
  nothing, and the tree passes the check afterwards.
\<close>

theorem loc_heap_remove_exact:
  assumes "rankable ranks A" "checkTree ranks t" "set_mset (elems t) \<subseteq> A" "x \<in> A"
  shows "case heap_remove ranks t x of (t', r) \<Rightarrow>
           checkTree ranks t' \<and> elems t' = elems t - {#x#} \<and>
           r = (if x \<in># elems t then Some x else None) \<and> (x \<notin># elems t \<longrightarrow> t' = t)"
proof -
  have inv: "rankable.heap_inv ranks A t"
    using assms(2,3) rankable.heap_inv_def [OF assms(1)] by blast
  have check: "rankable.heap_inv ranks A t' \<Longrightarrow> checkTree ranks t'" for t'
    using rankable.heap_inv_def [OF assms(1)] by blast
  show ?thesis
    using rankable.heap_remove_cases [OF assms(1) inv assms(4)] assms(2) check
    by (auto split: if_splits simp: diff_single_trivial)
qed

definition heap3 :: "int heap_node" where
  "heap3 = foldl (heap_push debug_ranks) NULL_node [3, 1, 2]"

theorem loc_heap_remove_exact_witness:
  "case heap_remove debug_ranks heap3 2 of (t', r) \<Rightarrow>
     checkTree debug_ranks t' \<and> elems t' = elems heap3 - {#2#} \<and>
     r = (if 2 \<in># elems heap3 then Some 2 else None) \<and> (2 \<notin># elems heap3 \<longrightarrow> t' = heap3)"
proof (rule loc_heap_remove_exact [OF debug_heap.rankable_axioms])
  show "checkTree debug_ranks heap3"
    by (simp add: heap3_def heap_push_def new_node_def outRanks_def debug_ranks_def checkTree_def)
qed simp_all

text \<open>
  pushing balances the tree. After any sequence of pushes into an empty heap
  the size of every subtree differs by at most one from that of its sibling, so the depth of the
  tree, which bounds the recursion of the next push and pop, is logarithmic in its size.
\<close>

theorem loc_heap_push_logarithmic:
  assumes "rankable ranks A" "set xs \<subseteq> A" "xs \<noteq> []"
  shows "balanced (foldl (heap_push ranks) NULL_node xs) \<and>
         2 ^ height (foldl (heap_push ranks) NULL_node xs) \<le> 2 * length xs"
  using rankable.push_drain [OF assms(1,2)] assms(3)
    balanced_height [of "foldl (heap_push ranks) NULL_node xs"]
  by (metis elems_empty mset_zero_iff size_mset)

theorem loc_heap_push_logarithmic_witness:
  "balanced (foldl (heap_push debug_ranks) NULL_node [3, 1, 2]) \<and>
   2 ^ height (foldl (heap_push debug_ranks) NULL_node [3, 1, 2]) \<le> (6::nat)"
  using loc_heap_push_logarithmic [OF debug_heap.rankable_axioms, of "[3, 1, 2]"] by simp

end
