(* ===== verification/Loc_Timer.thy ===== *)
theory Loc_Timer
  imports Loc_Heap
begin

text \<open>
  The timer service of \<open>gps/utils/LocTimer.cpp\<close>. Three threads work on it: the clients, which
  start and stop timers; the message task, which alone changes the two heaps of running timers
  (\<open>mSwTimers\<close> and \<open>mHwTimers\<close>, told apart by the flag \<open>wakeOnExpire\<close>); and the polling thread,
  which waits for the two kernel timers. The state holds all of them, and a step of the relation
  \<open>timer_step\<close> is one critical section or one system call of one thread. \<open>time_t\<close> and \<open>long\<close>
  are 32 bits wide and signed; what \<open>clock_gettime\<close> returns is an argument.
\<close>

section \<open>Points in time\<close>

record timespec =
  tv_sec :: uint32
  tv_nsec :: uint32

text \<open>
  The future time that \<open>LocTimer::start\<close> computes. The sums mix signed and unsigned 32-bit
  operands, so they are sums of words; the comparison and the division are signed.
\<close>

definition future_time :: "timespec \<Rightarrow> uint32 \<Rightarrow> timespec" where
  "future_time now timeOutInMs =
     (let sec = tv_sec now + timeOutInMs div 1000;
          nsec = tv_nsec now + (timeOutInMs mod 1000) * 1000000
      in if sint nsec \<ge> 1000000000
         then \<lparr>tv_sec = sec + word_of_int (sint nsec div 1000000000),
               tv_nsec = word_of_int (sint nsec mod 1000000000)\<rparr>
         else \<lparr>tv_sec = sec, tv_nsec = nsec\<rparr>)"

text \<open>Nanoseconds since boot, and the values \<open>clock_gettime\<close> may return.\<close>

definition nanos :: "timespec \<Rightarrow> int" where
  "nanos t = sint (tv_sec t) * 1000000000 + sint (tv_nsec t)"

definition normal :: "timespec \<Rightarrow> bool" where
  "normal t \<longleftrightarrow> 0 \<le> sint (tv_sec t) \<and> 0 \<le> sint (tv_nsec t) \<and> sint (tv_nsec t) < 1000000000"

section \<open>Timers and containers\<close>

text \<open>
  \<open>LocTimerDelegate\<close>: its identity, its future time and its container. \<open>mClient\<close> changes, so it
  is kept in the state.
\<close>

record delegate =
  did :: nat
  mFutureTime :: timespec
  mWake :: bool

definition timer_ranks :: "delegate \<Rightarrow> delegate \<Rightarrow> int" where
  "timer_ranks a b = sint (tv_sec (mFutureTime b) - tv_sec (mFutureTime a))"

text \<open>The delegate built of the current time for comparisons only.\<close>

definition timerOfNow :: "timespec \<Rightarrow> delegate" where
  "timerOfNow now = \<lparr>did = 0, mFutureTime = now, mWake = False\<rparr>"

text \<open>
  \<open>LocTimerContainer\<close>: the heap, what the kernel timer of its descriptor is set to (\<open>zero_time\<close>
  is disarmed), and whether the polling thread polls the descriptor.
\<close>

record container =
  tree :: "delegate heap_node"
  armed :: timespec
  polled :: bool

definition zero_time :: timespec where
  "zero_time = \<lparr>tv_sec = 0, tv_nsec = 0\<rparr>"

definition getSoonestTimer :: "container \<Rightarrow> delegate option" where
  "getSoonestTimer c = heap_peek (tree c)"

definition updateSoonestTime :: "delegate option \<Rightarrow> container \<Rightarrow> container" where
  "updateSoonestTime priorTop c =
     (let curTop = getSoonestTimer c
      in if curTop \<noteq> priorTop
         then (case curTop of
                 None \<Rightarrow> c\<lparr>polled := False, armed := zero_time\<rparr>
               | Some cur \<Rightarrow>
                   if (case priorTop of None \<Rightarrow> True | Some p \<Rightarrow> outRanks timer_ranks cur p)
                   then c\<lparr>polled := True, armed := mFutureTime cur\<rparr>
                   else c)
         else c)"

text \<open>\<open>MsgTimerPush::proc\<close> and \<open>MsgTimerRemove::proc\<close>; the latter deletes the timer afterwards.\<close>

definition proc_push :: "delegate \<Rightarrow> container \<Rightarrow> container" where
  "proc_push timer c =
     (let priorTop = getSoonestTimer c
      in updateSoonestTime priorTop (c\<lparr>tree := heap_push timer_ranks (tree c) timer\<rparr>))"

definition proc_remove :: "delegate \<Rightarrow> container \<Rightarrow> container" where
  "proc_remove timer c =
     (let priorTop = getSoonestTimer c;
          (t, removed) = heap_remove timer_ranks (tree c) timer;
          c' = c\<lparr>tree := t\<rparr>
      in if priorTop = removed then updateSoonestTime None c' else c')"

definition popIfOutRanks :: "delegate \<Rightarrow> container \<Rightarrow> container \<times> delegate option" where
  "popIfOutRanks timer c =
     (case heap_peek (tree c) of
        None \<Rightarrow> (c, None)
      | Some soonest \<Rightarrow>
          if \<not> outRanks timer_ranks timer soonest
          then (let (t, x) = heap_pop timer_ranks (tree c) in (c\<lparr>tree := t\<rparr>, x))
          else (c, None))"

definition pop_first :: "container \<Rightarrow> container \<times> delegate option" where
  "pop_first c = (let (t, x) = heap_pop timer_ranks (tree c) in (c\<lparr>tree := t\<rparr>, x))"

section \<open>The threads\<close>

text \<open>The messages of the message task; \<open>MsgTimerExpire\<close> names the container.\<close>

datatype timer_msg =
    MsgTimerPush delegate
  | MsgTimerRemove delegate
  | MsgTimerExpire bool

text \<open>
  Where the message task is: waiting for a message, or inside the loop of
  \<open>MsgTimerExpire::proc\<close>, about to test the top again or to stop the client it has read.
\<close>

datatype task_pc = Idle | Popping bool timespec | Calling bool timespec nat

text \<open>Where the polling thread is in \<open>LocTimerContainer::expire\<close> of a container.\<close>

datatype poll_pc = Polling | Fired bool | Disarmed bool | Unpolled bool

text \<open>
  \<open>mTimer\<close> is the timer of each client object, \<open>mClient\<close> the client of each timer. \<open>freed\<close> and
  \<open>called\<close> are histories: the deleted timers and the timers whose client was called back.
\<close>

record timer_sys =
  conts :: "bool \<Rightarrow> container"
  msgs :: "timer_msg list"
  task :: task_pc
  poll :: poll_pc
  mTimer :: "nat \<Rightarrow> delegate option"
  mClient :: "delegate \<Rightarrow> nat option"
  next_did :: nat
  freed :: "delegate list"
  called :: "delegate list"

definition upd_cont :: "bool \<Rightarrow> container \<Rightarrow> timer_sys \<Rightarrow> timer_sys" where
  "upd_cont w c s = s\<lparr>conts := (conts s)(w := c)\<rparr>"

text \<open>\<open>LocTimer::start\<close> and \<open>LocTimer::stop\<close>, each under the client's lock.\<close>

definition timer_start :: "nat \<Rightarrow> timespec \<Rightarrow> uint32 \<Rightarrow> bool \<Rightarrow> timer_sys \<Rightarrow> timer_sys \<times> bool" where
  "timer_start client now timeOutInMs wakeOnExpire s =
     (case mTimer s client of
        Some _ \<Rightarrow> (s, False)
      | None \<Rightarrow>
          let d = \<lparr>did = next_did s, mFutureTime = future_time now timeOutInMs,
                   mWake = wakeOnExpire\<rparr>
          in (s\<lparr>mTimer := (mTimer s)(client := Some d), mClient := (mClient s)(d := Some client),
                next_did := Suc (next_did s), msgs := msgs s @ [MsgTimerPush d]\<rparr>, True))"

definition timer_stop :: "nat \<Rightarrow> timer_sys \<Rightarrow> timer_sys \<times> bool" where
  "timer_stop client s =
     (case mTimer s client of
        None \<Rightarrow> (s, False)
      | Some d \<Rightarrow>
          (s\<lparr>mTimer := (mTimer s)(client := None), mClient := (mClient s)(d := None),
             msgs := msgs s @ [MsgTimerRemove d]\<rparr>, True))"

text \<open>
  One turn of the loop of \<open>MsgTimerExpire::proc\<close> after a pop: no timer ends the loop; otherwise
  \<open>LocTimerDelegate::expire\<close> reads the client of the popped timer.
\<close>

definition expire_popped :: "bool \<Rightarrow> timespec \<Rightarrow> delegate option \<Rightarrow> timer_sys \<Rightarrow> timer_sys" where
  "expire_popped w now popped s =
     (case popped of
        None \<Rightarrow> upd_cont w (updateSoonestTime None (conts s w)) (s\<lparr>task := Idle\<rparr>)
      | Some d \<Rightarrow>
          (case mClient s d of
             None \<Rightarrow> s\<lparr>task := Popping w now\<rparr>
           | Some c \<Rightarrow> s\<lparr>task := Calling w now c\<rparr>))"

text \<open>One step of the message task; \<open>now\<close> is read when an expiry message is taken.\<close>

fun task_step :: "timespec \<Rightarrow> timer_sys \<Rightarrow> timer_sys" where
  "task_step now s =
     (case task s of
        Idle \<Rightarrow>
          (case msgs s of
             [] \<Rightarrow> s
           | MsgTimerPush d # ms \<Rightarrow>
               upd_cont (mWake d) (proc_push d (conts s (mWake d))) (s\<lparr>msgs := ms\<rparr>)
           | MsgTimerRemove d # ms \<Rightarrow>
               upd_cont (mWake d) (proc_remove d (conts s (mWake d)))
                 (s\<lparr>msgs := ms, freed := freed s @ [d]\<rparr>)
           | MsgTimerExpire w # ms \<Rightarrow>
               (let (c, x) = pop_first (conts s w)
                in expire_popped w now x (upd_cont w c (s\<lparr>msgs := ms\<rparr>))))
      | Popping w n \<Rightarrow>
          (let (c, x) = popIfOutRanks (timerOfNow n) (conts s w)
           in expire_popped w n x (upd_cont w c s))
      | Calling w n client \<Rightarrow>
          (let (s', stopped) = timer_stop client s
           in s'\<lparr>task := Popping w n,
                 called := called s @ (if stopped then [the (mTimer s client)] else [])\<rparr>))"

text \<open>One system call of the polling thread in \<open>LocTimerContainer::expire\<close>.\<close>

fun poll_step :: "bool \<Rightarrow> timer_sys \<Rightarrow> timer_sys" where
  "poll_step w s =
     (case poll s of
        Polling \<Rightarrow>
          if polled (conts s w) \<and> armed (conts s w) \<noteq> zero_time then s\<lparr>poll := Fired w\<rparr> else s
      | Fired v \<Rightarrow> upd_cont v ((conts s v)\<lparr>armed := zero_time\<rparr>) (s\<lparr>poll := Disarmed v\<rparr>)
      | Disarmed v \<Rightarrow> upd_cont v ((conts s v)\<lparr>polled := False\<rparr>) (s\<lparr>poll := Unpolled v\<rparr>)
      | Unpolled v \<Rightarrow> s\<lparr>poll := Polling, msgs := msgs s @ [MsgTimerExpire v]\<rparr>)"

text \<open>
  The steps of all threads. A clock value is normal and after the instant of boot, and a timer's
  future time stays below \<open>2\<^sup>3\<^sup>1\<close> seconds since boot.
\<close>

inductive timer_step :: "timer_sys \<Rightarrow> timer_sys \<Rightarrow> bool" where
  start:
    "\<lbrakk>normal now; 0 < nanos now; sint (tv_sec now) + uint ms div 1000 + 1 < 2 ^ 31\<rbrakk> \<Longrightarrow>
     timer_step s (fst (timer_start c now ms w s))"
| stop: "timer_step s (fst (timer_stop c s))"
| task: "normal now \<Longrightarrow> timer_step s (task_step now s)"
| poll: "timer_step s (poll_step w s)"

definition empty_cont :: container where
  "empty_cont = \<lparr>tree = NULL_node, armed = zero_time, polled = False\<rparr>"

definition timer_init :: timer_sys where
  "timer_init = \<lparr>conts = (\<lambda>w. empty_cont), msgs = [], task = Idle, poll = Polling,
     mTimer = Map.empty, mClient = Map.empty, next_did = 0, freed = [], called = []\<rparr>"

section \<open>The C interface\<close>

text \<open>
  \<open>loc_timer_start\<close> and \<open>loc_timer_stop\<close>: the handle is the wrapper object, \<open>NULL\<close> without a
  callback; the 64-bit time-out is passed on as an \<open>unsigned int\<close>.
\<close>

definition loc_timer_start ::
  "nat \<Rightarrow> timespec \<Rightarrow> uint64 \<Rightarrow> bool \<Rightarrow> bool \<Rightarrow> timer_sys \<Rightarrow> timer_sys \<times> nat option" where
  "loc_timer_start wrapper now msec has_cb wake s =
     (if has_cb then (fst (timer_start wrapper now (ucast msec) wake s), Some wrapper) else (s, None))"

definition loc_timer_stop :: "nat option \<Rightarrow> timer_sys \<Rightarrow> timer_sys \<times> nat option" where
  "loc_timer_stop handle s =
     (case handle of None \<Rightarrow> (s, None) | Some wrapper \<Rightarrow> (fst (timer_stop wrapper s), None))"

section \<open>The ranking\<close>

text \<open>The delegates whose time is not negative: on them the ranking is a strict weak order.\<close>

definition ranked :: "delegate set" where
  "ranked = {d. 0 \<le> sint (tv_sec (mFutureTime d))}"

lemma sint_diff_nonneg:
  fixes a b :: uint32
  assumes "0 \<le> sint a" "0 \<le> sint b"
  shows "sint (a - b) = sint a - sint b"
proof -
  have "sint a < 2 ^ 31" "sint b < 2 ^ 31" using sint_lt [of a] sint_lt [of b] by simp_all
  then show ?thesis using assms by (simp add: sint_word_ariths signed_take_bit_int_eq_self)
qed

lemma timer_ranks_eq:
  "\<lbrakk>a \<in> ranked; b \<in> ranked\<rbrakk> \<Longrightarrow>
   timer_ranks a b = sint (tv_sec (mFutureTime b)) - sint (tv_sec (mFutureTime a))"
  by (simp add: timer_ranks_def ranked_def sint_diff_nonneg)

interpretation timers: rankable timer_ranks ranked
  by unfold_locales (auto simp: outRanks_def timer_ranks_eq)

text \<open>The future time on the admitted clock values.\<close>

lemma future_time_nanos:
  assumes "normal now" "sint (tv_sec now) + uint ms div 1000 + 1 < 2 ^ 31"
  shows "nanos (future_time now ms) = nanos now + uint ms * 1000000 \<and>
         normal (future_time now ms)"
proof -
  define S N q r where "S = sint (tv_sec now)" and "N = sint (tv_nsec now)"
    and "q = uint ms div 1000" and "r = uint ms mod 1000"
  have b: "0 \<le> S" "0 \<le> N" "N < 1000000000" "0 \<le> q" "0 \<le> r" "r < 1000" "S + q + 1 < 2 ^ 31"
    using assms
    by (auto simp: normal_def S_def N_def q_def r_def pos_imp_zdiv_nonneg_iff)
  have "tv_sec now = word_of_int S" "tv_nsec now = word_of_int N"
    by (simp_all add: S_def N_def)
  moreover have "ms div 1000 = word_of_int q" "ms mod 1000 = word_of_int r"
    by (simp_all add: q_def r_def word_div_def word_mod_def)
  ultimately have sec: "tv_sec now + ms div 1000 = word_of_int (S + q)"
    and nsec: "tv_nsec now + (ms mod 1000) * 1000000 = word_of_int (N + r * 1000000)"
    by simp_all
  have sN: "sint (word_of_int (N + r * 1000000) :: uint32) = N + r * 1000000"
    using b by (intro sint_of_int32) auto
  have ms: "uint ms = q * 1000 + r" by (simp add: q_def r_def)
  have s1: "sint (word_of_int (S + q) :: uint32) = S + q"
    "sint (word_of_int (S + q + 1) :: uint32) = S + q + 1"
    using b by (intro sint_of_int32; simp)+
  show ?thesis
  proof (cases "N + r * 1000000 \<ge> 1000000000")
    case False
    then show ?thesis
      using b ms s1 sN by (simp add: future_time_def Let_def sec nsec nanos_def normal_def
          S_def [symmetric] N_def [symmetric])
  next
    case True
    define M where "M = N + r * 1000000"
    have "M div 1000000000 = 1" "M mod 1000000000 = M - 1000000000"
      using True b int_div_pos_eq [of M 1000000000 1 "M - 1000000000"]
        int_mod_pos_eq [of M 1000000000 1 "M - 1000000000"]
      by (simp_all add: M_def)
    then have "future_time now ms =
        \<lparr>tv_sec = word_of_int (S + q + 1), tv_nsec = word_of_int (M - 1000000000)\<rparr>"
      using True sN by (simp add: future_time_def Let_def sec nsec M_def)
    moreover have "sint (word_of_int (M - 1000000000) :: uint32) = M - 1000000000"
      using True b by (intro sint_of_int32) (simp_all add: M_def)
    ultimately show ?thesis
      using b ms s1(2) True
      by (simp add: nanos_def normal_def M_def S_def [symmetric] N_def [symmetric])
  qed
qed

section \<open>The life of a timer\<close>

fun pushes :: "timer_msg list \<Rightarrow> delegate list" where
  "pushes [] = []"
| "pushes (MsgTimerPush d # ms) = d # pushes ms"
| "pushes (m # ms) = pushes ms"

fun removes :: "timer_msg list \<Rightarrow> delegate list" where
  "removes [] = []"
| "removes (MsgTimerRemove d # ms) = d # removes ms"
| "removes (m # ms) = removes ms"

lemma pushes_append [simp]: "pushes (ms @ ns) = pushes ms @ pushes ns"
  by (induction ms rule: pushes.induct) auto

lemma removes_append [simp]: "removes (ms @ ns) = removes ms @ removes ns"
  by (induction ms rule: removes.induct) auto

lemma mem_pushes [simp]: "d \<in> set (pushes ms) \<longleftrightarrow> MsgTimerPush d \<in> set ms"
  by (induction ms rule: pushes.induct) auto

lemma mem_removes [simp]: "d \<in> set (removes ms) \<longleftrightarrow> MsgTimerRemove d \<in> set ms"
  by (induction ms rule: removes.induct) auto

text \<open>A timer is removed at most once, and after it has been pushed.\<close>

fun ordered :: "timer_msg list \<Rightarrow> bool" where
  "ordered [] = True"
| "ordered (MsgTimerRemove d # ms) \<longleftrightarrow>
     MsgTimerPush d \<notin> set ms \<and> MsgTimerRemove d \<notin> set ms \<and> ordered ms"
| "ordered (m # ms) = ordered ms"

lemma ordered_append_remove:
  "ordered (ms @ [MsgTimerRemove d]) \<longleftrightarrow> ordered ms \<and> MsgTimerRemove d \<notin> set ms"
  by (induction ms rule: ordered.induct) auto

lemma ordered_append_push:
  "ordered (ms @ [MsgTimerPush d]) \<longleftrightarrow> ordered ms \<and> MsgTimerRemove d \<notin> set ms"
  by (induction ms rule: ordered.induct) auto

lemma ordered_append_expire [simp]: "ordered (ms @ [MsgTimerExpire w]) = ordered ms"
  by (induction ms rule: ordered.induct) auto

text \<open>
  The life of all timers: \<open>T\<close> are the timers in the heaps, \<open>known\<close> those created by \<open>start\<close>.
\<close>

definition known :: "nat \<Rightarrow> delegate set" where
  "known n = {d. did d < n \<and> d \<in> ranked \<and> mFutureTime d \<noteq> zero_time}"

definition life ::
  "delegate multiset \<Rightarrow> timer_msg list \<Rightarrow> (nat \<Rightarrow> delegate option) \<Rightarrow> (delegate \<Rightarrow> nat option) \<Rightarrow>
   nat \<Rightarrow> delegate list \<Rightarrow> delegate list \<Rightarrow> bool" where
  "life T ms mT mC n fr ca \<longleftrightarrow>
     (\<forall>d. count T d + count_list (pushes ms) d \<le> 1) \<and> ordered ms \<and>
     (\<forall>c d. mC d = Some c \<longleftrightarrow> mT c = Some d) \<and>
     set_mset T \<union> set (pushes ms) \<union> set (removes ms) \<union> set fr \<union> set ca \<union> dom mC \<subseteq> known n \<and>
     distinct fr \<and> distinct ca \<and>
     set fr \<inter> (set_mset T \<union> set (pushes ms) \<union> set (removes ms)) = {} \<and>
     (set fr \<union> set (removes ms) \<union> set ca) \<inter> dom mC = {}"

lemma known_mono: "known n \<subseteq> known (Suc n)"
  by (auto simp: known_def)

lemma life_push:
  "life T (MsgTimerPush d # ms) mT mC n fr ca \<Longrightarrow> life (add_mset d T) ms mT mC n fr ca"
  by (auto simp: life_def split: if_splits)

lemma count_diff_le:
  assumes "\<forall>e. count T e + f e \<le> (1::nat)"
  shows "\<forall>e. count (T - {#d#}) e + f e \<le> 1"
proof
  fix e
  have "count (T - {#d#}) e \<le> count T e" by simp
  then show "count (T - {#d#}) e + f e \<le> 1" using assms by (meson add_right_mono order_trans)
qed

lemma life_pop:
  assumes "life T ms mT mC n fr ca"
  shows "life (T - {#d#}) ms mT mC n fr ca"
  using assms count_diff_le [of T "count_list (pushes ms)" d]
  unfolding life_def by (auto dest: in_diffD)

lemma life_remove:
  assumes "life T (MsgTimerRemove d # ms) mT mC n fr ca"
  shows "life (T - {#d#}) ms mT mC n (fr @ [d]) ca"
proof -
  have "count T d \<le> 1" using assms by (auto simp: life_def dest: spec [of _ d])
  then have "d \<notin># T - {#d#}" by (simp add: not_in_iff)
  then show ?thesis
    using life_pop [OF assms, of d] by (auto simp: life_def)
qed

lemma life_expire: "life T (MsgTimerExpire w # ms) mT mC n fr ca \<Longrightarrow> life T ms mT mC n fr ca"
  by (auto simp: life_def)

lemma life_send_expire: "life T ms mT mC n fr ca \<Longrightarrow> life T (ms @ [MsgTimerExpire w]) mT mC n fr ca"
  by (auto simp: life_def)

lemma life_start:
  assumes "life T ms mT mC n fr ca" "mT c = None" "did d = n" "d \<in> ranked"
    "mFutureTime d \<noteq> zero_time"
  shows "life T (ms @ [MsgTimerPush d]) (mT(c := Some d)) (mC(d := Some c)) (Suc n) fr ca"
proof -
  have "d \<notin> known n" "d \<in> known (Suc n)" using assms by (auto simp: known_def)
  then have new: "d \<notin># T" "MsgTimerPush d \<notin> set ms" "MsgTimerRemove d \<notin> set ms" "d \<notin> set fr"
    "d \<notin> set ca" "mC d = None"
    using assms(1) by (auto simp: life_def)
  have "mT e \<noteq> Some d" for e
    using new(6) assms(1) unfolding life_def by (metis option.distinct(1))
  then show ?thesis
    using assms(1,2) new \<open>d \<in> known (Suc n)\<close> known_mono [of n]
    by (auto simp: life_def ordered_append_push not_in_iff count_list_0_iff)
qed

lemma life_stop:
  assumes "life T ms mT mC n fr ca" "mT c = Some d" "ca' = ca \<or> ca' = ca @ [d]"
  shows "life T (ms @ [MsgTimerRemove d]) (mT(c := None)) (mC(d := None)) n fr ca'"
proof -
  have "mC d = Some c" using assms(1,2) unfolding life_def by blast
  then have only: "mT e \<noteq> Some d" if "e \<noteq> c" for e
    using assms(1) that unfolding life_def by (metis option.inject)
  from \<open>mC d = Some c\<close> have "d \<in> dom mC" by blast
  then have "d \<in> known n" "d \<notin> set fr" "MsgTimerRemove d \<notin> set ms" "d \<notin> set ca"
    using assms(1) by (auto simp: life_def)
  then show ?thesis
    using assms only by (auto simp: life_def ordered_append_remove)
qed

section \<open>The kernel timer follows the heap\<close>

text \<open>
  A container whose heap is not empty is attended: its kernel timer is armed for the top of the
  heap and polled, or an expiry is being handled: announced by the polling thread, queued, or
  running in the message task.
\<close>

definition armed_for_top :: "container \<Rightarrow> bool" where
  "armed_for_top c \<longleftrightarrow>
     (case getSoonestTimer c of
        None \<Rightarrow> True
      | Some d \<Rightarrow> polled c \<and> armed c = mFutureTime d)"

definition expiring :: "bool \<Rightarrow> timer_sys \<Rightarrow> bool" where
  "expiring w s \<longleftrightarrow>
     MsgTimerExpire w \<in> set (msgs s) \<or> poll s \<in> {Fired w, Disarmed w, Unpolled w} \<or>
     (\<exists>n. task s = Popping w n) \<or> (\<exists>n c. task s = Calling w n c)"

lemma tree_updateSoonestTime [simp]: "tree (updateSoonestTime p c) = tree c"
  by (simp add: updateSoonestTime_def Let_def split: option.splits)

lemma armed_updateSoonestTime_None: "armed_for_top (updateSoonestTime None c)"
  by (auto simp: armed_for_top_def updateSoonestTime_def Let_def getSoonestTimer_def
      split: option.splits)

lemma tree_proc_push: "tree (proc_push d c) = heap_push timer_ranks (tree c) d"
  by (simp add: proc_push_def Let_def)

lemma heap_peek_push:
  "heap_peek (heap_push ranks t x) =
     Some (case heap_peek t of None \<Rightarrow> x | Some y \<Rightarrow> if outRanks ranks x y then x else y)"
  by (auto simp: heap_peek_def heap_push_def mData_node_push)

lemma armed_proc_push: "armed_for_top c \<Longrightarrow> armed_for_top (proc_push d c)"
  by (auto simp: armed_for_top_def proc_push_def updateSoonestTime_def Let_def getSoonestTimer_def
      heap_peek_push split: option.splits)

lemma tree_proc_remove: "tree (proc_remove d c) = fst (heap_remove timer_ranks (tree c) d)"
  by (simp add: proc_remove_def Let_def split: prod.splits)

lemma heap_remove_other:
  assumes "heap_peek t = Some y" "x \<noteq> y"
  shows "heap_peek (fst (heap_remove ranks t x)) = Some y"
proof (cases t)
  case (LocHeapNode n l r d)
  then show ?thesis using assms by (auto simp: heap_peek_def heap_remove_def Let_def split: prod.splits)
qed (use assms in \<open>simp add: heap_peek_def\<close>)

lemma armed_proc_remove:
  assumes "armed_for_top c" "timers.heap_inv (tree c)" "d \<in> ranked"
  shows "armed_for_top (proc_remove d c)"
proof (cases "heap_peek (tree c)")
  case None
  then have "tree c = NULL_node" by (simp add: heap_peek_def split: if_splits)
  then show ?thesis using armed_updateSoonestTime_None
    by (simp add: proc_remove_def getSoonestTimer_def heap_remove_def heap_peek_def)
next
  case (Some y)
  show ?thesis
  proof (cases "d = y")
    case True
    then obtain t where "heap_remove timer_ranks (tree c) d = (t, Some d)"
      using timers.heap_remove_cases [OF assms(2,3)] Some mData_in_elems [of "tree c"]
      by (auto simp: heap_peek_def split: if_splits)
    then show ?thesis using armed_updateSoonestTime_None Some True
      by (simp add: proc_remove_def getSoonestTimer_def Let_def)
  next
    case False
    obtain t r where t: "heap_remove timer_ranks (tree c) d = (t, r)" by fastforce
    then have "r \<noteq> Some y" using timers.heap_remove_cases [OF assms(2,3)] False
      by (auto split: if_splits)
    then show ?thesis using heap_remove_other [OF Some False, of timer_ranks] assms(1) Some t
      by (auto simp: proc_remove_def getSoonestTimer_def Let_def armed_for_top_def)
  qed
qed

section \<open>The invariant of the service\<close>

definition running :: "timer_sys \<Rightarrow> delegate multiset" where
  "running s = elems (tree (conts s False)) + elems (tree (conts s True))"

definition timer_inv :: "timer_sys \<Rightarrow> bool" where
  "timer_inv s \<longleftrightarrow>
     (\<forall>w. timers.heap_inv (tree (conts s w)) \<and> (\<forall>d \<in># elems (tree (conts s w)). mWake d = w) \<and>
          (armed_for_top (conts s w) \<or> expiring w s)) \<and>
     life (running s) (msgs s) (mTimer s) (mClient s) (next_did s) (freed s) (called s)"

lemma upd_cont_simps [simp]:
  "conts (upd_cont w c s) = (conts s)(w := c)" "msgs (upd_cont w c s) = msgs s"
  "task (upd_cont w c s) = task s" "poll (upd_cont w c s) = poll s"
  "mTimer (upd_cont w c s) = mTimer s" "mClient (upd_cont w c s) = mClient s"
  "next_did (upd_cont w c s) = next_did s" "freed (upd_cont w c s) = freed s"
  "called (upd_cont w c s) = called s"
  by (simp_all add: upd_cont_def)

lemma timer_inv_init: "timer_inv timer_init"
  by (auto simp: timer_inv_def timer_init_def empty_cont_def timers.heap_inv_def checkTree_heap_ok
      armed_for_top_def getSoonestTimer_def heap_peek_def life_def running_def)

lemma running_add:
  "elems (tree c) = add_mset d (elems (tree (conts s w))) \<Longrightarrow>
   running (upd_cont w c s) = add_mset d (running s)"
  by (cases w) (simp_all add: running_def)

lemma running_del:
  "\<lbrakk>elems (tree c) = elems (tree (conts s w)) - {#d#};
    d \<in># elems (tree (conts s w)) \<or> d \<notin># running s\<rbrakk> \<Longrightarrow>
   running (upd_cont w c s) = running s - {#d#}"
proof (cases "d \<in># elems (tree (conts s w))")
  case True
  assume c: "elems (tree c) = elems (tree (conts s w)) - {#d#}"
  obtain M where "elems (tree (conts s w)) = add_mset d M" using True by (rule mset_add)
  then show ?thesis using c by (cases w) (simp_all add: running_def)
next
  case False
  assume c: "elems (tree c) = elems (tree (conts s w)) - {#d#}"
    and "d \<in># elems (tree (conts s w)) \<or> d \<notin># running s"
  then have "d \<notin># running s" "elems (tree c) = elems (tree (conts s w))"
    using False by (simp_all add: diff_single_trivial)
  then show ?thesis by (cases w) (simp_all add: running_def diff_single_trivial)
qed

lemma running_other [simp]: "running (s\<lparr>msgs := ms\<rparr>) = running s"
  "running (s\<lparr>task := p\<rparr>) = running s" "running (s\<lparr>freed := fr\<rparr>) = running s"
  by (simp_all add: running_def)

lemma timer_invE:
  assumes "timer_inv s"
  obtains "\<And>w. timers.heap_inv (tree (conts s w))"
    "\<And>w d. d \<in># elems (tree (conts s w)) \<Longrightarrow> mWake d = w"
    "\<And>w. armed_for_top (conts s w) \<or> expiring w s"
    "life (running s) (msgs s) (mTimer s) (mClient s) (next_did s) (freed s) (called s)"
  using assms by (auto simp: timer_inv_def)

text \<open>
  A step that changes one container keeps the invariant when it does so to that container, and
  does not end an expiry of the other one.
\<close>

lemma timer_inv_cont:
  assumes "timer_inv s" "timers.heap_inv (tree c)" "\<And>d. d \<in># elems (tree c) \<Longrightarrow> mWake d = w"
    "conts s' = conts s" "armed_for_top c \<or> expiring w (upd_cont w c s')"
    "\<And>v. \<lbrakk>v \<noteq> w; expiring v s\<rbrakk> \<Longrightarrow> expiring v s'"
    "life (running (upd_cont w c s')) (msgs s') (mTimer s') (mClient s') (next_did s') (freed s')
       (called s')"
  shows "timer_inv (upd_cont w c s')"
proof -
  have e: "expiring v (upd_cont w c s') = expiring v s'" for v by (simp add: expiring_def)
  have "armed_for_top (((conts s)(w := c)) v) \<or> expiring v s'" for v
    using assms(1,5) assms(6) [of v] e by (cases "v = w") (auto simp: timer_inv_def)
  then show ?thesis
    using assms(1-4,7) e by (auto simp: timer_inv_def)
qed

text \<open>The steps of the message task on a push and on a removal message.\<close>

lemma timer_inv_push:
  assumes "timer_inv s" "task s = Idle" "msgs s = MsgTimerPush d # ms"
  shows "timer_inv (upd_cont (mWake d) (proc_push d (conts s (mWake d))) (s\<lparr>msgs := ms\<rparr>))"
    (is "timer_inv (upd_cont ?w ?c ?s)")
proof (rule timer_inv_cont [OF assms(1)])
  have inv: "timers.heap_inv (tree (conts s ?w))" "\<And>d. d \<in># elems (tree (conts s ?w)) \<Longrightarrow> mWake d = ?w"
    "armed_for_top (conts s ?w) \<or> expiring ?w s"
    "life (running s) (msgs s) (mTimer s) (mClient s) (next_did s) (freed s) (called s)"
    using assms(1) by (auto simp: timer_inv_def)
  have "d \<in> ranked" using inv(4) assms(3) by (auto simp: life_def known_def)
  then have tree: "timers.heap_inv (tree ?c)"
    "elems (tree ?c) = add_mset d (elems (tree (conts s ?w)))"
    using timers.heap.push_inv [OF inv(1)] by (simp_all add: tree_proc_push)
  then show "timers.heap_inv (tree ?c)" "\<And>d'. d' \<in># elems (tree ?c) \<Longrightarrow> mWake d' = ?w"
    using inv(2) by auto
  show exp: "expiring v s \<Longrightarrow> expiring v ?s" for v
    using assms(2,3) by (auto simp: expiring_def)
  show "armed_for_top ?c \<or> expiring ?w (upd_cont ?w ?c ?s)"
    using inv(3) armed_proc_push exp [of ?w] by (auto simp: expiring_def)
  show "life (running (upd_cont ?w ?c ?s)) (msgs ?s) (mTimer ?s) (mClient ?s) (next_did ?s) (freed ?s)
      (called ?s)"
    using running_add [of ?c d ?s ?w] tree(2) life_push [OF inv(4) [unfolded assms(3)]] by simp
qed simp

lemma timer_inv_remove:
  assumes "timer_inv s" "task s = Idle" "msgs s = MsgTimerRemove d # ms"
  shows "timer_inv (upd_cont (mWake d) (proc_remove d (conts s (mWake d)))
                      (s\<lparr>msgs := ms, freed := freed s @ [d]\<rparr>))"
    (is "timer_inv (upd_cont ?w ?c ?s)")
proof (rule timer_inv_cont [OF assms(1)])
  have inv: "timers.heap_inv (tree (conts s ?w))" "\<And>d. d \<in># elems (tree (conts s ?w)) \<Longrightarrow> mWake d = ?w"
    "armed_for_top (conts s ?w) \<or> expiring ?w s"
    "life (running s) (msgs s) (mTimer s) (mClient s) (next_did s) (freed s) (called s)"
    and wake: "\<And>w. d \<in># elems (tree (conts s w)) \<Longrightarrow> mWake d = w"
    using assms(1) by (auto simp: timer_inv_def)
  have d: "d \<in> ranked" using inv(4) assms(3) by (auto simp: life_def known_def)
  have tree: "timers.heap_inv (tree ?c)" "elems (tree ?c) = elems (tree (conts s ?w)) - {#d#}"
    using timers.heap_remove_cases [OF inv(1) d] inv(1)
    by (auto simp: tree_proc_remove diff_single_trivial split: if_splits)
  then show "timers.heap_inv (tree ?c)" "\<And>d'. d' \<in># elems (tree ?c) \<Longrightarrow> mWake d' = ?w"
    using inv(2) by (auto dest: in_diffD)
  show exp: "expiring v s \<Longrightarrow> expiring v ?s" for v
    using assms(2,3) by (auto simp: expiring_def)
  show "armed_for_top ?c \<or> expiring ?w (upd_cont ?w ?c ?s)"
    using inv(3) armed_proc_remove [OF _ inv(1) d] exp [of ?w] by (auto simp: expiring_def)
  have "d \<in># elems (tree (conts s ?w)) \<or> d \<notin># running s"
    using wake [of False] wake [of True] by (auto simp: running_def)
  then have "running (upd_cont ?w ?c ?s) = running s - {#d#}"
    using running_del [of ?c ?s ?w d] tree(2) by (simp add: running_def)
  then show "life (running (upd_cont ?w ?c ?s)) (msgs ?s) (mTimer ?s) (mClient ?s) (next_did ?s)
      (freed ?s) (called ?s)"
    using life_remove [OF inv(4) [unfolded assms(3)]] by simp
qed simp

lemma popped_cases:
  assumes "timers.heap_inv (tree c)" "heap_pop timer_ranks (tree c) = (t, x)"
  shows "timers.heap_inv t \<and>
         (case x of None \<Rightarrow> t = tree c | Some d \<Rightarrow> d \<in># elems (tree c) \<and> elems t = elems (tree c) - {#d#})"
  using assms timers.heap_pop_top [OF assms(1)] by (cases "tree c") (auto simp: heap_pop_def)

text \<open>A turn of the expiry loop, after the pop.\<close>

lemma timer_inv_expire_popped:
  assumes "timer_inv s" "heap_pop timer_ranks (tree (conts s w)) = (t, x) \<or> x = None \<and> t = tree (conts s w)"
    "conts s' = conts s" "\<And>v. \<lbrakk>v \<noteq> w; expiring v s\<rbrakk> \<Longrightarrow> expiring v (s'\<lparr>task := Idle\<rparr>)"
    "life (running s) (msgs s') (mTimer s') (mClient s') (next_did s') (freed s') (called s')"
  shows "timer_inv (expire_popped w now x (upd_cont w ((conts s w)\<lparr>tree := t\<rparr>) s'))"
    (is "timer_inv (expire_popped w now x (upd_cont w ?c s'))")
proof -
  have inv: "timers.heap_inv (tree (conts s w))" "\<And>d. d \<in># elems (tree (conts s w)) \<Longrightarrow> mWake d = w"
    using assms(1) by (auto simp: timer_inv_def)
  have t: "timers.heap_inv t"
    "case x of None \<Rightarrow> t = tree (conts s w)
             | Some d \<Rightarrow> d \<in># elems (tree (conts s w)) \<and> elems t = elems (tree (conts s w)) - {#d#}"
    using assms(2) popped_cases [OF inv(1)] inv(1) by auto
  have other: "\<lbrakk>v \<noteq> w; expiring v s\<rbrakk> \<Longrightarrow> expiring v (s'\<lparr>task := p\<rparr>)" for v p
    using assms(4) [of v] by (auto simp: expiring_def)
  show ?thesis
  proof (cases x)
    case None
    let ?u = "updateSoonestTime None ?c"
    have "timer_inv (upd_cont w ?u (s'\<lparr>task := Idle\<rparr>))"
    proof (rule timer_inv_cont [OF assms(1)])
      show "life (running (upd_cont w ?u (s'\<lparr>task := Idle\<rparr>))) (msgs (s'\<lparr>task := Idle\<rparr>))
          (mTimer (s'\<lparr>task := Idle\<rparr>)) (mClient (s'\<lparr>task := Idle\<rparr>)) (next_did (s'\<lparr>task := Idle\<rparr>))
          (freed (s'\<lparr>task := Idle\<rparr>)) (called (s'\<lparr>task := Idle\<rparr>))"
        using assms(3,5) t(2) None by (cases w) (simp_all add: running_def)
    qed (use inv t None assms(3) other armed_updateSoonestTime_None in auto)
    moreover have "upd_cont w ?u (s'\<lparr>task := Idle\<rparr>) =
        expire_popped w now x (upd_cont w ?c s')"
      by (simp add: None expire_popped_def upd_cont_def)
    ultimately show ?thesis by simp
  next
    case (Some d)
    have step: "timer_inv (upd_cont w ?c (s'\<lparr>task := p\<rparr>))"
      if p: "p = Popping w now \<or> (\<exists>c. p = Calling w now c)" for p
    proof (rule timer_inv_cont [OF assms(1)])
      have "running (upd_cont w ?c (s'\<lparr>task := p\<rparr>)) = running s - {#d#}"
        using running_del [of ?c s w d] t(2) Some assms(3) by (cases w) (simp_all add: running_def)
      then show "life (running (upd_cont w ?c (s'\<lparr>task := p\<rparr>))) (msgs (s'\<lparr>task := p\<rparr>))
          (mTimer (s'\<lparr>task := p\<rparr>)) (mClient (s'\<lparr>task := p\<rparr>)) (next_did (s'\<lparr>task := p\<rparr>))
          (freed (s'\<lparr>task := p\<rparr>)) (called (s'\<lparr>task := p\<rparr>))"
        using life_pop [OF assms(5), of d] by simp
      show "d' \<in># elems (tree ?c) \<Longrightarrow> mWake d' = w" for d'
        using t(2) inv(2) Some by (auto dest: in_diffD)
      show "armed_for_top ?c \<or> expiring w (upd_cont w ?c (s'\<lparr>task := p\<rparr>))"
        using p by (auto simp: expiring_def)
    qed (use t other assms(3) in auto)
    have "expire_popped w now x (upd_cont w ?c s') =
        upd_cont w ?c (s'\<lparr>task := (case mClient s' d of None \<Rightarrow> Popping w now
                                    | Some c \<Rightarrow> Calling w now c)\<rparr>)"
      by (simp add: Some expire_popped_def upd_cont_def split: option.splits)
    then show ?thesis using step by (auto split: option.splits)
  qed
qed

lemma timer_inv_stop:
  assumes "timer_inv s" "mTimer s c = Some d" "ca = called s \<or> ca = called s @ [d]"
    "p = task s \<or> (\<exists>w n c. task s = Calling w n c \<and> p = Popping w n)"
  shows "timer_inv ((fst (timer_stop c s))\<lparr>task := p, called := ca\<rparr>)"
proof -
  let ?s = "(fst (timer_stop c s))\<lparr>task := p, called := ca\<rparr>"
  have "life (running s) (msgs s) (mTimer s) (mClient s) (next_did s) (freed s) (called s)"
    using assms(1) by (simp add: timer_inv_def)
  from life_stop [OF this assms(2,3)]
  have "life (running ?s) (msgs ?s) (mTimer ?s) (mClient ?s) (next_did ?s) (freed ?s) (called ?s)"
    using assms(2) by (simp add: timer_stop_def running_def)
  moreover have "expiring w s \<Longrightarrow> expiring w ?s" for w
    using assms(2,4) by (auto simp: timer_stop_def expiring_def)
  moreover have "conts ?s = conts s" using assms(2) by (simp add: timer_stop_def)
  ultimately show ?thesis using assms(1) by (auto simp: timer_inv_def)
qed

lemma timer_inv_start:
  assumes "timer_inv s" "normal now" "0 < nanos now" "sint (tv_sec now) + uint ms div 1000 + 1 < 2 ^ 31"
  shows "timer_inv (fst (timer_start c now ms w s))"
proof (cases "mTimer s c")
  case (Some d)
  then show ?thesis using assms(1) by (simp add: timer_start_def)
next
  case None
  let ?d = "\<lparr>did = next_did s, mFutureTime = future_time now ms, mWake = w\<rparr>"
  let ?s = "fst (timer_start c now ms w s)"
  have "nanos (future_time now ms) > 0" "normal (future_time now ms)"
    using future_time_nanos [OF assms(2,4)] assms(3) by (simp_all add: add_pos_nonneg)
  then have "?d \<in> ranked" "future_time now ms \<noteq> zero_time"
    by (auto simp: ranked_def normal_def nanos_def zero_time_def)
  moreover have "life (running s) (msgs s) (mTimer s) (mClient s) (next_did s) (freed s) (called s)"
    using assms(1) by (simp add: timer_inv_def)
  ultimately have "life (running ?s) (msgs ?s) (mTimer ?s) (mClient ?s) (next_did ?s) (freed ?s) (called ?s)"
    using life_start [of "running s" "msgs s" "mTimer s" "mClient s" "next_did s" "freed s" "called s"
        c ?d] None by (simp add: timer_start_def Let_def running_def)
  moreover have "expiring v s \<Longrightarrow> expiring v ?s" for v
    using None by (auto simp: timer_start_def Let_def expiring_def)
  moreover have "conts ?s = conts s" using None by (simp add: timer_start_def Let_def)
  ultimately show ?thesis using assms(1) by (auto simp: timer_inv_def)
qed

lemma timer_inv_task:
  assumes "timer_inv s"
  shows "timer_inv (task_step now s)"
proof (cases "task s")
  case Idle
  show ?thesis
  proof (cases "msgs s")
    case Nil
    then show ?thesis using Idle assms by simp
  next
    case (Cons m ms)
    have life: "life (running s) (msgs s) (mTimer s) (mClient s) (next_did s) (freed s) (called s)"
      using assms by (simp add: timer_inv_def)
    show ?thesis
    proof (cases m)
      case (MsgTimerExpire w)
      obtain t x where t: "heap_pop timer_ranks (tree (conts s w)) = (t, x)" by fastforce
      have "timer_inv (expire_popped w now x (upd_cont w ((conts s w)\<lparr>tree := t\<rparr>) (s\<lparr>msgs := ms\<rparr>)))"
        using life_expire life Cons MsgTimerExpire
        by (intro timer_inv_expire_popped [OF assms disjI1 [OF t]]) (auto simp: expiring_def Idle)
      then show ?thesis
        using Idle Cons MsgTimerExpire t by (simp add: pop_first_def Let_def)
    qed (use timer_inv_push [OF assms Idle] timer_inv_remove [OF assms Idle] Idle Cons in auto)
  qed
next
  case (Popping w n)
  have life: "life (running s) (msgs s) (mTimer s) (mClient s) (next_did s) (freed s) (called s)"
    using assms by (simp add: timer_inv_def)
  obtain c x where c: "popIfOutRanks (timerOfNow n) (conts s w) = (c, x)" by fastforce
  then obtain t where t: "c = (conts s w)\<lparr>tree := t\<rparr>"
    "heap_pop timer_ranks (tree (conts s w)) = (t, x) \<or> x = None \<and> t = tree (conts s w)"
    by (auto simp: popIfOutRanks_def Let_def split: option.splits if_splits prod.splits)
       (metis container.surjective container.update_convs(1))+
  have "timer_inv (expire_popped w n x (upd_cont w ((conts s w)\<lparr>tree := t\<rparr>) s))"
    using life by (intro timer_inv_expire_popped [OF assms t(2)]) (auto simp: expiring_def Popping)
  then show ?thesis using Popping c t by (simp add: Let_def)
next
  case (Calling w n c)
  show ?thesis
  proof (cases "mTimer s c")
    case None
    have "expiring v s \<Longrightarrow> expiring v (s\<lparr>task := Popping w n\<rparr>)" for v
      using Calling by (auto simp: expiring_def)
    then have "timer_inv (s\<lparr>task := Popping w n\<rparr>)" using assms by (auto simp: timer_inv_def)
    then show ?thesis using Calling None by (simp add: timer_stop_def)
  next
    case (Some d)
    have "task_step now s =
        (fst (timer_stop c s))\<lparr>task := Popping w n, called := called s @ [d]\<rparr>"
      using Calling Some by (simp add: timer_stop_def)
    then show ?thesis
      using timer_inv_stop [OF assms Some, of "called s @ [d]" "Popping w n"] Calling by simp
  qed
qed

lemma timer_inv_poll:
  assumes "timer_inv s"
  shows "timer_inv (poll_step w s)"
proof -
  have inv: "\<And>w. timers.heap_inv (tree (conts s w))"
    "\<And>w d. d \<in># elems (tree (conts s w)) \<Longrightarrow> mWake d = w"
    "life (running s) (msgs s) (mTimer s) (mClient s) (next_did s) (freed s) (called s)"
    using assms by (auto simp: timer_inv_def)
  show ?thesis
  proof (cases "poll s")
    case Polling
    have "expiring v s \<Longrightarrow> expiring v (s\<lparr>poll := Fired w\<rparr>)" for v
      using Polling by (auto simp: expiring_def)
    moreover have "running (s\<lparr>poll := Fired w\<rparr>) = running s" by (simp add: running_def)
    ultimately show ?thesis using Polling assms by (auto simp: timer_inv_def)
  next
    case (Fired v)
    let ?c = "(conts s v)\<lparr>armed := zero_time\<rparr>"
    have "timer_inv (upd_cont v ?c (s\<lparr>poll := Disarmed v\<rparr>))"
      using inv by (intro timer_inv_cont [OF assms], goal_cases)
        (cases v; auto simp: expiring_def Fired running_def)+
    then show ?thesis using Fired by simp
  next
    case (Disarmed v)
    let ?c = "(conts s v)\<lparr>polled := False\<rparr>"
    have "timer_inv (upd_cont v ?c (s\<lparr>poll := Unpolled v\<rparr>))"
      using inv by (intro timer_inv_cont [OF assms], goal_cases)
        (cases v; auto simp: expiring_def Disarmed running_def)+
    then show ?thesis using Disarmed by simp
  next
    case (Unpolled v)
    let ?s = "s\<lparr>poll := Polling, msgs := msgs s @ [MsgTimerExpire v]\<rparr>"
    have "expiring u s \<Longrightarrow> expiring u ?s" for u using Unpolled by (auto simp: expiring_def)
    moreover have "running ?s = running s" by (simp add: running_def)
    ultimately show ?thesis
      using Unpolled assms life_send_expire [OF inv(3)] by (auto simp: timer_inv_def)
  qed
qed

lemma timer_inv_step: "timer_step s s' \<Longrightarrow> timer_inv s \<Longrightarrow> timer_inv s'"
proof (induction rule: timer_step.induct)
  case (stop s c)
  show ?case
  proof (cases "mTimer s c")
    case None
    then show ?thesis using stop by (simp add: timer_stop_def)
  next
    case (Some d)
    have "(fst (timer_stop c s))\<lparr>task := task s, called := called s\<rparr> = fst (timer_stop c s)"
      by (simp add: timer_stop_def Some)
    then show ?thesis using timer_inv_stop [OF stop Some, of "called s" "task s"] by simp
  qed
qed (auto intro: timer_inv_start timer_inv_task timer_inv_poll simp del: task_step.simps poll_step.simps)

lemma timer_inv_reachable: "timer_step\<^sup>*\<^sup>* timer_init s \<Longrightarrow> timer_inv s"
  by (induction rule: rtranclp_induct) (auto intro: timer_inv_step timer_inv_init)

section \<open>Properties\<close>


definition at_secs :: "nat \<Rightarrow> timespec" where
  "at_secs n = \<lparr>tv_sec = word_of_nat n, tv_nsec = 0\<rparr>"


text \<open>
  C5: no timer is forgotten. In every state the clients, the message task and the
  polling thread can reach, a heap with running timers is attended: either its kernel timer is
  armed with the future time of the top of the heap and is polled, or an expiry of that heap is
  under way; and nothing in the heap outranks its top.
\<close>

theorem timer_heap_attended:
  assumes "timer_step\<^sup>*\<^sup>* timer_init s" "heap_peek (tree (conts s w)) = Some d"
  shows "(polled (conts s w) \<and> armed (conts s w) = mFutureTime d \<or> expiring w s) \<and>
         (\<forall>e \<in># elems (tree (conts s w)). \<not> outRanks timer_ranks e d)"
proof -
  have inv: "timers.heap_inv (tree (conts s w))" "armed_for_top (conts s w) \<or> expiring w s"
    using timer_inv_reachable [OF assms(1)] by (auto simp: timer_inv_def)
  show ?thesis
    using inv assms(2) timers.top_max [of "tree (conts s w)"]
    by (auto simp: armed_for_top_def getSoonestTimer_def timers.heap_inv_def checkTree_heap_ok
        heap_peek_def split: if_splits)
qed

definition timer_s1 :: timer_sys where
  "timer_s1 = task_step (at_secs 10) (fst (timer_start 0 (at_secs 10) 5000 False timer_init))"

lemma timer_s1_reachable: "timer_step\<^sup>*\<^sup>* timer_init timer_s1"
proof -
  have "timer_step timer_init (fst (timer_start 0 (at_secs 10) 5000 False timer_init))"
    by (rule timer_step.start) (simp_all add: normal_def nanos_def at_secs_def)
  moreover have "timer_step (fst (timer_start 0 (at_secs 10) 5000 False timer_init)) timer_s1"
    unfolding timer_s1_def by (rule timer_step.task) (simp add: normal_def at_secs_def)
  ultimately show ?thesis by (meson converse_rtranclp_into_rtranclp rtranclp.rtrancl_refl)
qed

lemmas timer_eval =
  timer_start_def timer_stop_def timer_init_def empty_cont_def upd_cont_def proc_push_def
  proc_remove_def heap_push_def heap_remove_def heap_pop_def heap_peek_def new_node_def
  updateSoonestTime_def getSoonestTimer_def pop_first_def popIfOutRanks_def expire_popped_def
  future_time_def at_secs_def zero_time_def Let_def

theorem timer_heap_attended_witness:
  "polled (conts timer_s1 False) \<and>
      armed (conts timer_s1 False) = mFutureTime \<lparr>did = 0, mFutureTime = at_secs 15, mWake = False\<rparr> \<or>
    expiring False timer_s1"
  by (rule conjunct1 [OF timer_heap_attended [OF timer_s1_reachable]]) (simp add: timer_s1_def timer_eval)

text \<open>
  C30: the life of a timer object is safe in every interleaving. Each is deleted at
  most once and its client is called back at most once; a deleted timer is in no heap, in no
  queued message, and no client refers to it; and a timer whose client has been called back or
  that the client has stopped is not the running timer of any client.
\<close>

theorem timer_life_safe:
  assumes "timer_step\<^sup>*\<^sup>* timer_init s"
  shows "distinct (freed s) \<and> distinct (called s) \<and>
    (\<forall>d \<in> set (freed s).
       (\<forall>w. d \<notin># elems (tree (conts s w))) \<and>
       MsgTimerPush d \<notin> set (msgs s) \<and> MsgTimerRemove d \<notin> set (msgs s)) \<and>
    (\<forall>d c. d \<in> set (freed s) \<union> set (called s) \<or> MsgTimerRemove d \<in> set (msgs s) \<longrightarrow>
       mTimer s c \<noteq> Some d)"
proof -
  have life: "life (running s) (msgs s) (mTimer s) (mClient s) (next_did s) (freed s) (called s)"
    using timer_inv_reachable [OF assms] by (simp add: timer_inv_def)
  have sub: "d \<in># elems (tree (conts s w)) \<Longrightarrow> d \<in># running s" for d w
    by (cases w) (auto simp: running_def)
  have dom: "mTimer s c = Some d \<Longrightarrow> d \<in> dom (mClient s)" for c d
    using life unfolding life_def by blast
  show ?thesis using life sub dom unfolding life_def by fastforce
qed

theorem timer_life_safe_witness:
  "distinct (freed timer_s1) \<and> distinct (called timer_s1) \<and> mTimer timer_s1 0 \<noteq> None"
proof -
  have "distinct (freed timer_s1) \<and> distinct (called timer_s1)"
    using timer_life_safe [OF timer_s1_reachable] by blast
  moreover have "mTimer timer_s1 0 \<noteq> None" by (simp add: timer_s1_def timer_eval)
  ultimately show ?thesis by simp
qed

text \<open>
  A run in which a timer of one hour expires at once. Client 0 starts a timer of five seconds and
  stops it; its removal empties the heap but does not disarm the kernel timer, because
  \<open>updateSoonestTime\<close> is called with \<open>NULL\<close>, which equals the top of the empty heap. When the
  kernel timer fires client 1 starts its timer before the expiry message is queued, and
  \<open>MsgTimerExpire::proc\<close> pops the first timer without a look at its time.
\<close>

definition early1 :: timer_sys where
  "early1 = poll_step False (poll_step False (poll_step False
              (task_step (at_secs 12) (fst (timer_stop 0 timer_s1)))))"

definition early2 :: timer_sys where
  "early2 = poll_step False (fst (timer_start 1 (at_secs 15) 3600000 False early1))"

definition early3 :: timer_sys where
  "early3 = task_step (at_secs 15) (task_step (at_secs 15) early2)"

lemma reach_poll: "timer_step\<^sup>*\<^sup>* i s \<Longrightarrow> timer_step\<^sup>*\<^sup>* i (poll_step w s)"
  using timer_step.poll by (meson rtranclp.rtrancl_into_rtrancl)

lemma reach_task: "\<lbrakk>timer_step\<^sup>*\<^sup>* i s; normal now\<rbrakk> \<Longrightarrow> timer_step\<^sup>*\<^sup>* i (task_step now s)"
  using timer_step.task by (meson rtranclp.rtrancl_into_rtrancl)

lemma reach_stop: "timer_step\<^sup>*\<^sup>* i s \<Longrightarrow> timer_step\<^sup>*\<^sup>* i (fst (timer_stop c s))"
  using timer_step.stop by (meson rtranclp.rtrancl_into_rtrancl)

lemma early1_reachable: "timer_step\<^sup>*\<^sup>* timer_init early1"
  unfolding early1_def
  by (intro reach_poll reach_task reach_stop timer_s1_reachable) (simp add: normal_def at_secs_def)

lemma early3_reachable: "timer_step\<^sup>*\<^sup>* timer_init early3"
proof -
  have n: "normal (at_secs 15)" "0 < nanos (at_secs 15)" "sint (tv_sec (at_secs 15)) = 15"
    by (simp_all add: normal_def nanos_def at_secs_def)
  have "timer_step early1 (fst (timer_start 1 (at_secs 15) 3600000 False early1))"
    by (rule timer_step.start [OF n(1,2)]) (simp add: n(3))
  then have "timer_step\<^sup>*\<^sup>* timer_init early2"
    unfolding early2_def using early1_reachable
    by (intro reach_poll) (meson rtranclp.rtrancl_into_rtrancl)
  then show ?thesis unfolding early3_def by (intro reach_task n(1))
qed

definition hour_timer :: delegate where
  "hour_timer = \<lparr>did = 1, mFutureTime = at_secs 3615, mWake = False\<rparr>"

lemma early1_eval:
  "mTimer early1 = Map.empty" "next_did early1 = 1" "msgs early1 = []" "task early1 = Idle"
  "poll early1 = Unpolled False" "tree (conts early1 False) = NULL_node"
  by (simp_all add: early1_def timer_s1_def timer_eval)

lemma early2_eval:
  "mTimer early2 = [1 \<mapsto> hour_timer]" "mClient early2 hour_timer = Some 1"
  "msgs early2 = [MsgTimerPush hour_timer, MsgTimerExpire False]" "task early2 = Idle"
  "tree (conts early2 False) = NULL_node"
  by (simp_all add: early2_def early1_eval timer_start_def Let_def hour_timer_def future_time_def
      at_secs_def)

lemma early3_eval: "task early3 = Calling False (at_secs 15) 1" "mTimer early3 = [1 \<mapsto> hour_timer]"
proof -
  define e where "e = task_step (at_secs 15) early2"
  have w: "mWake hour_timer = False" by (simp add: hour_timer_def)
  have e: "task e = Idle" "msgs e = [MsgTimerExpire False]" "mTimer e = [1 \<mapsto> hour_timer]"
    "mClient e hour_timer = Some 1" "tree (conts e False) = new_node hour_timer"
    by (simp_all add: e_def early2_eval w proc_push_def heap_push_def Let_def)
  have early3: "early3 = task_step (at_secs 15) e" by (simp only: early3_def e_def)
  show "task early3 = Calling False (at_secs 15) 1" "mTimer early3 = [1 \<mapsto> hour_timer]"
    unfolding early3 by (simp_all add: e pop_first_def heap_pop_def new_node_def expire_popped_def)
qed

text \<open>
  a timer can expire before its time. There is a reachable state in which the
  message task, with the current time it has read, calls back a client whose timer was started
  for one hour later.
\<close>

theorem timer_expires_early:
  "\<exists>s s' now d. timer_step\<^sup>*\<^sup>* timer_init s \<and> task s = Calling False now 1 \<and>
     s' = task_step now s \<and> called s' = called s @ [d] \<and>
     nanos (mFutureTime d) = nanos now + 3600 * 1000000000"
proof (intro exI conjI)
  show "called (task_step (at_secs 15) early3) = called early3 @ [hour_timer]"
    by (simp add: early3_eval timer_stop_def)
  show "nanos (mFutureTime hour_timer) = nanos (at_secs 15) + 3600 * 1000000000"
    by (simp add: nanos_def hour_timer_def at_secs_def)
qed (rule early3_reachable early3_eval(1) refl)+

end
