(* ===== verification/Lights.thy ===== *)
theory Lights
  imports Prelude
begin

text \<open>
  The lights HAL of \<open>liblight/lights.c\<close>: five logical lights share one breathing LED, which shows
  the active source of the highest priority. The module's static variables are a record; what
  it writes to sysfs is a list of writes, which an interpretation replays to get the state of
  the LED. The two values read from sysfs for the battery are arguments.
\<close>

unbundle bit_operations_syntax

section \<open>Data\<close>

record light_state_t =
  color :: uint32
  flashMode :: int
  flashOnMS :: int
  flashOffMS :: int

abbreviation "LIGHT_FLASH_TIMED \<equiv> (1 :: int)"

abbreviation "PM_PWM_LUT_LOOP \<equiv> (0x01 :: uint32)"
abbreviation "PM_PWM_LUT_RAMP_UP \<equiv> (0x02 :: uint32)"
abbreviation "PM_PWM_LUT_REVERSE \<equiv> (0x04 :: uint32)"
abbreviation "PM_PWM_LUT_PAUSE_HI_EN \<equiv> (0x08 :: uint32)"
abbreviation "PM_PWM_LUT_PAUSE_LO_EN \<equiv> (0x10 :: uint32)"

abbreviation "BREATH_SOURCE_NOTIFICATION \<equiv> (0x01 :: uint32)"
abbreviation "BREATH_SOURCE_BATTERY \<equiv> (0x02 :: uint32)"
abbreviation "BREATH_SOURCE_BUTTONS \<equiv> (0x04 :: uint32)"
abbreviation "BREATH_SOURCE_ATTENTION \<equiv> (0x08 :: uint32)"
abbreviation "BREATH_SOURCE_NONE \<equiv> (0xFF :: uint32)"

text \<open>The sysfs files and the duty-cycle tables, by the names of their constants.\<close>

datatype sysfs_file =
    LCD_FILE
  | RIGHT_BUTTON_BLINK | RIGHT_BUTTON_RAMP_STEP_MS | RIGHT_BUTTON_LUT_FLAGS | RIGHT_BUTTON_DUTY_PCTS
  | LEFT_BUTTON_BLINK | LEFT_BUTTON_RAMP_STEP_MS | LEFT_BUTTON_LUT_FLAGS | LEFT_BUTTON_DUTY_PCTS
  | BREATH_LED_BLINK | BREATH_LED_LUT_FLAGS | BREATH_LED_PAUSE_HI | BREATH_LED_PAUSE_LO
  | BREATH_LED_RAMP_STEP_MS | BREATH_LED_DUTY_PCTS

datatype light_template =
    BREATH_LED_BRIGHTNESS_NOTIFICATION | BREATH_LED_BRIGHTNESS_BUTTONS
  | BREATH_LED_BRIGHTNESS_BATTERY | BREATH_LED_BRIGHTNESS_CHARGING | BREATH_LED_SIDE_BUTTONS

datatype sysfs_write = write_int sysfs_file int | write_str sysfs_file light_template | usleep nat

record lights =
  g_notification :: light_state_t
  g_battery :: light_state_t
  g_buttons :: light_state_t
  g_attention :: light_state_t
  active_states :: uint32
  last_state :: uint32
  writes :: "sysfs_write list"

definition light_off :: light_state_t where
  "light_off = \<lparr>color = 0, flashMode = 0, flashOnMS = 0, flashOffMS = 0\<rparr>"

definition lights_init :: lights where
  "lights_init = \<lparr>g_notification = light_off, g_battery = light_off, g_buttons = light_off,
     g_attention = light_off, active_states = 0, last_state = BREATH_SOURCE_NONE, writes = []\<rparr>"

section \<open>Operations\<close>

definition rgb_to_brightness :: "light_state_t \<Rightarrow> uint32" where
  "rgb_to_brightness state =
     (let c = color state AND 0x00FFFFFF
      in drop_bit 8 (77 * (drop_bit 16 c AND 0xFF) + 150 * (drop_bit 8 c AND 0xFF) + 29 * (c AND 0xFF)))"

definition emit_writes :: "sysfs_write list \<Rightarrow> lights \<Rightarrow> lights" where
  "emit_writes ws s = s\<lparr>writes := writes s @ ws\<rparr>"

text \<open>\<open>set_light_backlight\<close>; \<open>err\<close> is what \<open>write_int\<close> returns.\<close>

definition set_light_backlight :: "int \<Rightarrow> bool \<Rightarrow> light_state_t \<Rightarrow> lights \<Rightarrow> int \<times> lights" where
  "set_light_backlight err dev state s =
     (if \<not> dev then (-1, s)
      else (err, emit_writes [write_int LCD_FILE (uint (rgb_to_brightness state))] s))"

text \<open>The last part of \<open>set_breath_light_locked\<close>: programming the LED.\<close>

definition program_led :: "light_template \<Rightarrow> int \<Rightarrow> int \<Rightarrow> uint32 \<Rightarrow> sysfs_write list" where
  "program_led template onMS offMS lut_flags =
     [write_int BREATH_LED_BLINK 0, usleep 20000, write_str BREATH_LED_DUTY_PCTS template,
      write_int BREATH_LED_RAMP_STEP_MS 20] @
     (if offMS > 0 then [write_int BREATH_LED_PAUSE_LO offMS] else []) @
     (if onMS > 0 then [write_int BREATH_LED_PAUSE_HI onMS] else []) @
     [write_int BREATH_LED_LUT_FLAGS (uint lut_flags), usleep 20000, write_int BREATH_LED_BLINK 1]"

text \<open>
  The choice of template, flags and times by the active source of the highest priority;
  \<open>None\<close> is an early return that programs nothing. \<open>is_charging\<close> and \<open>capacity\<close> are the values
  of the two power-supply files, 0 when they cannot be read.
\<close>

definition choose_light ::
  "int \<Rightarrow> int \<Rightarrow> lights \<Rightarrow> (light_template \<times> int \<times> int \<times> uint32) option \<times> lights" where
  "choose_light is_charging capacity s =
     (if active_states s AND BREATH_SOURCE_NOTIFICATION \<noteq> 0
      then (let st = g_notification s;
                onMS = (if flashMode st = LIGHT_FLASH_TIMED then flashOnMS st else 0);
                offMS = (if flashMode st = LIGHT_FLASH_TIMED then flashOffMS st else 0);
                flags = (if onMS + offMS \<noteq> 0
                         then PM_PWM_LUT_RAMP_UP OR (PM_PWM_LUT_LOOP OR PM_PWM_LUT_REVERSE OR
                                PM_PWM_LUT_PAUSE_HI_EN OR PM_PWM_LUT_PAUSE_LO_EN)
                         else PM_PWM_LUT_RAMP_UP)
            in (Some (BREATH_LED_BRIGHTNESS_NOTIFICATION, onMS, offMS, flags),
                s\<lparr>last_state := BREATH_SOURCE_NOTIFICATION\<rparr>))
      else if active_states s AND BREATH_SOURCE_BATTERY \<noteq> 0
      then (if last_state s = BREATH_SOURCE_BATTERY then (None, s)
            else
              (Some (if is_charging = 0
                     then (BREATH_LED_BRIGHTNESS_BATTERY, 300, 1500,
                           PM_PWM_LUT_LOOP OR PM_PWM_LUT_RAMP_UP OR PM_PWM_LUT_REVERSE OR
                           PM_PWM_LUT_PAUSE_HI_EN OR PM_PWM_LUT_PAUSE_LO_EN)
                     else if capacity < 100
                     then (BREATH_LED_BRIGHTNESS_CHARGING, 0, 0,
                           PM_PWM_LUT_LOOP OR PM_PWM_LUT_RAMP_UP OR PM_PWM_LUT_REVERSE)
                     else (BREATH_LED_BRIGHTNESS_BATTERY, 0, 0, PM_PWM_LUT_RAMP_UP)),
               s\<lparr>last_state := BREATH_SOURCE_BATTERY\<rparr>))
      else if active_states s AND BREATH_SOURCE_BUTTONS \<noteq> 0
      then (if last_state s = BREATH_SOURCE_BUTTONS then (None, s)
            else (Some (BREATH_LED_BRIGHTNESS_BUTTONS, 0, 0, PM_PWM_LUT_RAMP_UP),
                  s\<lparr>last_state := BREATH_SOURCE_BUTTONS\<rparr>))
      else if active_states s AND BREATH_SOURCE_ATTENTION \<noteq> 0
      then (Some (BREATH_LED_BRIGHTNESS_NOTIFICATION, 0, 0, 0),
            s\<lparr>last_state := BREATH_SOURCE_ATTENTION\<rparr>)
      else (None, s\<lparr>last_state := BREATH_SOURCE_NONE\<rparr>))"

definition set_breath_light_locked ::
  "int \<Rightarrow> int \<Rightarrow> uint32 \<Rightarrow> light_state_t \<Rightarrow> lights \<Rightarrow> lights" where
  "set_breath_light_locked is_charging capacity event_source state s =
     (let on = rgb_to_brightness state > 0;
          s1 = s\<lparr>active_states := (if on then active_states s OR event_source
                                   else active_states s AND NOT event_source)\<rparr>
      in if \<not> on \<and> active_states s1 = 0
         then emit_writes [write_int BREATH_LED_BLINK 0] (s1\<lparr>last_state := BREATH_SOURCE_NONE\<rparr>)
         else if last_state s1 < event_source then s1
         else (case choose_light is_charging capacity s1 of
                 (None, s2) \<Rightarrow> s2
               | (Some (template, onMS, offMS, flags), s2) \<Rightarrow>
                   emit_writes (program_led template onMS offMS flags) s2))"

definition button_writes :: "uint32 \<Rightarrow> sysfs_write list" where
  "button_writes brightness =
     (if brightness > 0
      then [write_str LEFT_BUTTON_DUTY_PCTS BREATH_LED_SIDE_BUTTONS,
            write_str RIGHT_BUTTON_DUTY_PCTS BREATH_LED_SIDE_BUTTONS,
            write_int LEFT_BUTTON_LUT_FLAGS (uint PM_PWM_LUT_RAMP_UP),
            write_int RIGHT_BUTTON_LUT_FLAGS (uint PM_PWM_LUT_RAMP_UP),
            write_int LEFT_BUTTON_RAMP_STEP_MS 40, write_int RIGHT_BUTTON_RAMP_STEP_MS 40,
            usleep 20000]
      else []) @
     [write_int LEFT_BUTTON_BLINK (if brightness \<noteq> 0 then 1 else 0),
      write_int RIGHT_BUTTON_BLINK (if brightness \<noteq> 0 then 1 else 0)]"

text \<open>The set methods of the four sources; each first stores the state, then shows it.\<close>

definition set_light_buttons :: "int \<Rightarrow> int \<Rightarrow> bool \<Rightarrow> light_state_t \<Rightarrow> lights \<Rightarrow> int \<times> lights" where
  "set_light_buttons ch cap dev state s =
     (if \<not> dev then (-1, s)
      else (0, set_breath_light_locked ch cap BREATH_SOURCE_BUTTONS state
                 (emit_writes (button_writes (rgb_to_brightness state)) (s\<lparr>g_buttons := state\<rparr>))))"

definition set_light_notifications ::
  "int \<Rightarrow> int \<Rightarrow> bool \<Rightarrow> light_state_t \<Rightarrow> lights \<Rightarrow> int \<times> lights" where
  "set_light_notifications ch cap dev state s =
     (if \<not> dev then (-1, s)
      else (0, set_breath_light_locked ch cap BREATH_SOURCE_NOTIFICATION state
                 (s\<lparr>g_notification := state\<rparr>)))"

definition set_light_battery :: "int \<Rightarrow> int \<Rightarrow> bool \<Rightarrow> light_state_t \<Rightarrow> lights \<Rightarrow> int \<times> lights" where
  "set_light_battery ch cap dev state s =
     (if \<not> dev then (-1, s)
      else (0, set_breath_light_locked ch cap BREATH_SOURCE_BATTERY state (s\<lparr>g_battery := state\<rparr>)))"

definition set_light_attention ::
  "int \<Rightarrow> int \<Rightarrow> bool \<Rightarrow> light_state_t \<Rightarrow> lights \<Rightarrow> int \<times> lights" where
  "set_light_attention ch cap dev state s =
     (if \<not> dev then (-1, s)
      else (0, set_breath_light_locked ch cap BREATH_SOURCE_ATTENTION state
                 (s\<lparr>g_attention := state\<rparr>)))"

text \<open>\<open>open_lights\<close>: which set method a device name selects; \<open>malloc_ok\<close> is the allocation.\<close>

datatype set_light = Set_backlight | Set_notifications | Set_battery | Set_attention | Set_buttons

abbreviation "EINVAL \<equiv> (22 :: int)"
abbreviation "ENOMEM \<equiv> (12 :: int)"

definition open_lights :: "(string \<times> set_light) list \<Rightarrow> bool \<Rightarrow> string \<Rightarrow> int \<times> set_light option" where
  "open_lights ids malloc_ok name =
     (case map_of ids name of
        None \<Rightarrow> (- EINVAL, None)
      | Some m \<Rightarrow> if \<not> malloc_ok then (- ENOMEM, None) else (0, Some m))"

section \<open>The LED\<close>

text \<open>What the writes leave in the files of the breathing LED.\<close>

record led =
  led_on :: bool
  led_duty :: "light_template option"
  led_flags :: int

fun led_write :: "sysfs_write \<Rightarrow> led \<Rightarrow> led" where
  "led_write (write_int f v) l =
     (if f = BREATH_LED_BLINK then l\<lparr>led_on := (v \<noteq> 0)\<rparr>
      else if f = BREATH_LED_LUT_FLAGS then l\<lparr>led_flags := v\<rparr>
      else l)"
| "led_write (write_str f t) l = (if f = BREATH_LED_DUTY_PCTS then l\<lparr>led_duty := Some t\<rparr> else l)"
| "led_write (usleep n) l = l"

definition led_of :: "sysfs_write list \<Rightarrow> led" where
  "led_of ws = fold led_write ws \<lparr>led_on = False, led_duty = None, led_flags = 0\<rparr>"

lemma led_of_append: "led_of (ws @ vs) = fold led_write vs (led_of ws)"
  by (simp add: led_of_def)

lemma led_of_program [simp]:
  "fold led_write (program_led t onMS offMS fl) l = \<lparr>led_on = True, led_duty = Some t, led_flags = uint fl\<rparr>"
  by (simp add: program_led_def)

lemma led_of_buttons [simp]: "fold led_write (button_writes b) l = l"
  by (simp add: button_writes_def)

section \<open>The source on show\<close>

text \<open>The active source with the highest priority, the lowest bit.\<close>

definition top_source :: "uint32 \<Rightarrow> uint32" where
  "top_source a =
     (if a AND BREATH_SOURCE_NOTIFICATION \<noteq> 0 then BREATH_SOURCE_NOTIFICATION
      else if a AND BREATH_SOURCE_BATTERY \<noteq> 0 then BREATH_SOURCE_BATTERY
      else if a AND BREATH_SOURCE_BUTTONS \<noteq> 0 then BREATH_SOURCE_BUTTONS
      else if a AND BREATH_SOURCE_ATTENTION \<noteq> 0 then BREATH_SOURCE_ATTENTION
      else BREATH_SOURCE_NONE)"

definition sources :: "uint32 set" where
  "sources = {BREATH_SOURCE_NOTIFICATION, BREATH_SOURCE_BATTERY, BREATH_SOURCE_BUTTONS,
              BREATH_SOURCE_ATTENTION}"

definition notification_flags :: "light_state_t \<Rightarrow> uint32" where
  "notification_flags st =
     (if flashMode st = LIGHT_FLASH_TIMED \<and> flashOnMS st + flashOffMS st \<noteq> 0
      then PM_PWM_LUT_RAMP_UP OR (PM_PWM_LUT_LOOP OR PM_PWM_LUT_REVERSE OR
             PM_PWM_LUT_PAUSE_HI_EN OR PM_PWM_LUT_PAUSE_LO_EN)
      else PM_PWM_LUT_RAMP_UP)"

text \<open>What the LED looks like when it shows a source.\<close>

definition led_shows :: "lights \<Rightarrow> uint32 \<Rightarrow> led \<Rightarrow> bool" where
  "led_shows s src l \<longleftrightarrow>
     led_on l \<and>
     (src = BREATH_SOURCE_NOTIFICATION \<longrightarrow>
        led_duty l = Some BREATH_LED_BRIGHTNESS_NOTIFICATION \<and>
        led_flags l = uint (notification_flags (g_notification s))) \<and>
     (src = BREATH_SOURCE_BATTERY \<longrightarrow>
        led_duty l \<in> {Some BREATH_LED_BRIGHTNESS_BATTERY, Some BREATH_LED_BRIGHTNESS_CHARGING}) \<and>
     (src = BREATH_SOURCE_BUTTONS \<longrightarrow> led_duty l = Some BREATH_LED_BRIGHTNESS_BUTTONS) \<and>
     (src = BREATH_SOURCE_ATTENTION \<longrightarrow>
        led_duty l = Some BREATH_LED_BRIGHTNESS_NOTIFICATION \<and> led_flags l = 0)"

definition lights_inv :: "lights \<Rightarrow> bool" where
  "lights_inv s \<longleftrightarrow>
     active_states s < 16 \<and> last_state s = top_source (active_states s) \<and>
     (if active_states s = 0 then \<not> led_on (led_of (writes s))
      else led_shows s (last_state s) (led_of (writes s)))"

lemma less16_cases:
  assumes "(a :: uint32) < 16"
  shows "a \<in> {0, 1, 2, 3, 4, 5, 6, 7, 8, 9, 10, 11, 12, 13, 14, 15}"
proof -
  define n where "n = unat a"
  have a: "a = word_of_nat n" by (simp add: n_def)
  have "n < 16" using assms by (simp add: n_def word_less_nat_alt)
  then have "n \<in> {0, 1, 2, 3, 4, 5, 6, 7, 8, 9, 10, 11, 12, 13, 14, 15}" by simp presburger
  then show ?thesis unfolding a by (elim insertE emptyE) simp_all
qed

lemma source_on:
  assumes "a < 16" "e \<in> sources"
  shows "a OR e < 16 \<and> a OR e \<noteq> 0 \<and> top_source (a OR e) = (if top_source a < e then top_source a else e)"
  using less16_cases [OF assms(1)] assms(2)
  by (simp add: sources_def) (elim disjE; simp add: top_source_def)

lemma source_off:
  assumes "a < 16" "e \<in> sources"
  shows "a AND NOT e < 16 \<and> (top_source a < e \<longrightarrow> top_source (a AND NOT e) = top_source a \<and> a \<noteq> 0)"
  using less16_cases [OF assms(1)] assms(2)
  by (simp add: sources_def) (elim disjE; simp add: top_source_def)

lemma top_source_none: "a < 16 \<Longrightarrow> top_source a = BREATH_SOURCE_NONE \<longleftrightarrow> a = 0"
  by (drule less16_cases) (elim insertE emptyE; simp add: top_source_def)

text \<open>The choice: the source of the highest priority, or nothing when it is on show already.\<close>

lemma choose_light_top:
  assumes "choose_light ch cap s = (r, s')" "active_states s < 16" "active_states s \<noteq> 0"
  shows "s' = s\<lparr>last_state := top_source (active_states s)\<rparr> \<and>
    (case r of
       None \<Rightarrow> last_state s = top_source (active_states s)
     | Some (t, onMS, offMS, fl) \<Rightarrow>
         led_shows s (top_source (active_states s))
           \<lparr>led_on = True, led_duty = Some t, led_flags = uint fl\<rparr>)"
  using assms(1) top_source_none [OF assms(2)] assms(3)
  by (auto simp: choose_light_def top_source_def led_shows_def notification_flags_def Let_def
      split: if_splits)

lemma lights_inv_breath:
  assumes "lights_inv s" "e \<in> sources"
    "g' = (if e = BREATH_SOURCE_NOTIFICATION then st else g_notification s)"
    "g_notification s' = g'" "active_states s' = active_states s" "last_state s' = last_state s"
    "led_of (writes s') = led_of (writes s)"
  shows "lights_inv (set_breath_light_locked ch cap e st s')"
proof -
  define on where "on = (rgb_to_brightness st > 0)"
  define a where "a = (if on then active_states s OR e else active_states s AND NOT e)"
  define s1 where "s1 = s'\<lparr>active_states := a\<rparr>"
  have inv: "active_states s < 16" "last_state s = top_source (active_states s)"
    "active_states s \<noteq> 0 \<Longrightarrow> led_shows s (last_state s) (led_of (writes s))"
    "active_states s = 0 \<Longrightarrow> \<not> led_on (led_of (writes s))"
    using assms(1) by (auto simp: lights_inv_def)
  have a16: "a < 16" using source_on [OF inv(1) assms(2)] source_off [OF inv(1) assms(2)] by (simp add: a_def)
  have low: "last_state s < e \<Longrightarrow> top_source a = last_state s \<and> active_states s \<noteq> 0 \<and> a \<noteq> 0"
    using source_on [OF inv(1) assms(2)] source_off [OF inv(1) assms(2)] inv(2) top_source_none [OF inv(1)]
      top_source_none [OF a16] by (auto simp: a_def)
  have high: "\<lbrakk>\<not> last_state s < e; on\<rbrakk> \<Longrightarrow> top_source a = e \<and> a \<noteq> 0"
    using source_on [OF inv(1) assms(2)] inv(2) by (auto simp: a_def)
  have step: "set_breath_light_locked ch cap e st s' =
      (if \<not> on \<and> a = 0 then emit_writes [write_int BREATH_LED_BLINK 0] (s1\<lparr>last_state := BREATH_SOURCE_NONE\<rparr>)
       else if last_state s < e then s1
       else (case choose_light ch cap s1 of
               (None, s2) \<Rightarrow> s2
             | (Some (template, onMS, offMS, flags), s2) \<Rightarrow>
                 emit_writes (program_led template onMS offMS flags) s2))"
    by (simp add: set_breath_light_locked_def Let_def on_def a_def s1_def assms(5,6))
  have same: "led_shows s src l = led_shows s' src l" if "src \<noteq> BREATH_SOURCE_NOTIFICATION \<or> e \<noteq> BREATH_SOURCE_NOTIFICATION" for src l
    using that assms(3,4) by (auto simp: led_shows_def)
  consider (dark) "\<not> on" "a = 0" | (lower) "on \<or> a \<noteq> 0" "last_state s < e"
    | (visible) "a \<noteq> 0" "\<not> last_state s < e"
    using high by blast
  then show ?thesis
  proof cases
    case dark
    then show ?thesis unfolding step
      by (simp add: lights_inv_def emit_writes_def s1_def led_of_append top_source_def)
  next
    case lower
    then have "e \<noteq> BREATH_SOURCE_NOTIFICATION"
      using low top_source_none by (auto simp: inv(2) top_source_def split: if_splits)
    then show ?thesis unfolding step
      using lower low inv(3) a16 same assms(6,7)
      by (auto simp: lights_inv_def s1_def led_shows_def)
  next
    case visible
    obtain r s2 where c: "choose_light ch cap s1 = (r, s2)" by fastforce
    note ch = choose_light_top [OF c]
    show ?thesis
    proof (cases r)
      case None
      then have "last_state s = top_source a" "s2 = s1\<lparr>last_state := top_source a\<rparr>"
        using ch a16 visible(1) assms(6) by (simp_all add: s1_def)
      moreover have "top_source a \<noteq> BREATH_SOURCE_NOTIFICATION"
        using c None by (auto simp: choose_light_def top_source_def s1_def Let_def split: if_splits)
      moreover have "active_states s \<noteq> 0"
        using \<open>last_state s = top_source a\<close> inv(2) top_source_none [OF inv(1)] top_source_none [OF a16] visible(1)
        by auto
      ultimately show ?thesis unfolding step
        using visible None c inv(3) a16 same assms(6,7)
        by (auto simp: lights_inv_def s1_def led_shows_def)
    next
      case (Some x)
      obtain t onMS offMS fl where x: "x = (t, onMS, offMS, fl)" by (cases x) auto
      then show ?thesis unfolding step
        using visible Some c ch a16
        by (auto simp: lights_inv_def s1_def emit_writes_def led_of_append led_shows_def)
    qed
  qed
qed

section \<open>Calls\<close>

text \<open>A call of one of the five set methods; the battery values are those of its time.\<close>

datatype light_call =
    Backlight light_state_t
  | Notifications light_state_t
  | Battery int int light_state_t
  | Attention int int light_state_t
  | Buttons int int light_state_t

fun do_light_call :: "light_call \<Rightarrow> lights \<Rightarrow> lights" where
  "do_light_call (Backlight st) s = snd (set_light_backlight 0 True st s)"
| "do_light_call (Notifications st) s = snd (set_light_notifications 0 0 True st s)"
| "do_light_call (Battery ch cap st) s = snd (set_light_battery ch cap True st s)"
| "do_light_call (Attention ch cap st) s = snd (set_light_attention ch cap True st s)"
| "do_light_call (Buttons ch cap st) s = snd (set_light_buttons ch cap True st s)"

lemma lights_inv_other:
  "\<lbrakk>lights_inv s; g_notification s' = g_notification s; active_states s' = active_states s;
    last_state s' = last_state s; led_of (writes s') = led_of (writes s)\<rbrakk> \<Longrightarrow> lights_inv s'"
  unfolding lights_inv_def led_shows_def by presburger

lemma lights_inv_call: "lights_inv s \<Longrightarrow> lights_inv (do_light_call c s)"
proof (cases c)
  case (Backlight st)
  assume "lights_inv s"
  then show ?thesis
    by (rule lights_inv_other)
       (simp_all add: Backlight set_light_backlight_def emit_writes_def led_of_append)
next
  case (Notifications st)
  assume "lights_inv s"
  then show ?thesis
    by (simp add: Notifications set_light_notifications_def lights_inv_breath sources_def)
next
  case (Battery ch cap st)
  assume "lights_inv s"
  then show ?thesis
    by (simp add: Battery set_light_battery_def lights_inv_breath sources_def)
next
  case (Attention ch cap st)
  assume "lights_inv s"
  then show ?thesis
    by (simp add: Attention set_light_attention_def lights_inv_breath sources_def)
next
  case (Buttons ch cap st)
  assume "lights_inv s"
  then show ?thesis
    by (simp add: Buttons set_light_buttons_def lights_inv_breath sources_def emit_writes_def
        led_of_append)
qed

lemma lights_inv_init: "lights_inv lights_init"
  by (simp add: lights_inv_def lights_init_def led_of_def top_source_def)

lemma lights_inv_run: "lights_inv s \<Longrightarrow> lights_inv (fold do_light_call cs s)"
  by (induction cs arbitrary: s) (auto intro: lights_inv_call)

section \<open>Properties\<close>

text \<open>
  C32: the LED shows the active source of the highest priority. After any sequence of
  calls of the set methods the breathing LED is off exactly when no source is active; otherwise
  it is on with the table of the active source of the lowest bit, for a notification with the
  flags of the latest notification state; and \<open>last_state\<close> records that source.
\<close>

theorem lights_show_top_source:
  "(led_on (led_of (writes (fold do_light_call cs lights_init))) \<longleftrightarrow>
      active_states (fold do_light_call cs lights_init) \<noteq> 0) \<and>
   last_state (fold do_light_call cs lights_init) =
     top_source (active_states (fold do_light_call cs lights_init)) \<and>
   (active_states (fold do_light_call cs lights_init) = 0 \<or>
      led_shows (fold do_light_call cs lights_init) (last_state (fold do_light_call cs lights_init))
        (led_of (writes (fold do_light_call cs lights_init))))"
  using lights_inv_run [OF lights_inv_init, of cs] unfolding lights_inv_def
  by (auto simp: led_shows_def split: if_splits)

text \<open>The three channels of a colour.\<close>

definition channel :: "nat \<Rightarrow> light_state_t \<Rightarrow> int" where
  "channel n st = uint (color st) div 2 ^ n mod 256"

lemma channel_word:
  assumes "n \<le> 16"
  shows "uint (drop_bit n (color st AND 0x00FFFFFF) AND 0xFF) = channel n st"
proof -
  have m: "(0x00FFFFFF :: uint32) = mask 24" "(0xFF :: uint32) = mask 8"
    by (simp_all add: mask_eq_exp_minus_1)
  have "uint (drop_bit n (color st AND 0x00FFFFFF) AND 0xFF) =
      take_bit 8 (drop_bit n (take_bit 24 (uint (color st))))"
    unfolding m take_bit_eq_mask [symmetric] by (simp only: unsigned_take_bit_eq unsigned_drop_bit_eq) simp
  also have "\<dots> = take_bit 8 (drop_bit n (uint (color st)))"
    using assms by (simp add: drop_bit_take_bit)
  finally show ?thesis by (simp add: channel_def take_bit_eq_mod drop_bit_eq_div)
qed

text \<open>
  the brightness of a colour is the weighted mean of its channels, rounded down.
  The alpha byte is ignored and no sum wraps, so the result is at most 255, and it is 255 exactly
  for white.
\<close>

theorem rgb_to_brightness_mean:
  "uint (rgb_to_brightness st) =
     (77 * channel 16 st + 150 * channel 8 st + 29 * channel 0 st) div 256 \<and>
   uint (rgb_to_brightness st) \<le> 255 \<and>
   (uint (rgb_to_brightness st) = 255 \<longleftrightarrow>
      channel 16 st = 255 \<and> channel 8 st = 255 \<and> channel 0 st = 255)"
proof -
  let ?r = "drop_bit 16 (color st AND 0x00FFFFFF) AND 0xFF"
    and ?g = "drop_bit 8 (color st AND 0x00FFFFFF) AND 0xFF"
    and ?b = "(color st AND 0x00FFFFFF) AND 0xFF"
  have c: "uint ?r = channel 16 st" "uint ?g = channel 8 st" "uint ?b = channel 0 st"
    using channel_word [of 16 st] channel_word [of 8 st] channel_word [of 0 st] by simp_all
  have b: "0 \<le> channel n st \<and> channel n st \<le> 255" for n by (simp add: channel_def)
  have sum: "uint (77 * ?r + 150 * ?g + 29 * ?b) = 77 * uint ?r + 150 * uint ?g + 29 * uint ?b"
    unfolding uint_word_ariths using b [of 16] b [of 8] b [of 0] c by (simp add: mod_pos_pos_trivial)
  have "uint (drop_bit 8 w) = uint w div 256" for w :: uint32
    using drop_bit_eq_div [of 8 w] uint_div [of w 256] by simp
  then have u: "uint (rgb_to_brightness st) =
      (77 * channel 16 st + 150 * channel 8 st + 29 * channel 0 st) div 256"
    by (simp only: rgb_to_brightness_def Let_def sum c)
  then show ?thesis using b [of 16] b [of 8] b [of 0] by auto
qed

text \<open>
  the LED keeps an outdated battery state. Once the battery light is on show, no
  further call for the battery, whatever the charger and the capacity are by then, changes what
  the LED shows while the battery light stays on: the change from charging to full is not seen.
\<close>

theorem lights_battery_stale:
  assumes "lights_inv s" "last_state s = BREATH_SOURCE_BATTERY" "rgb_to_brightness st > 0"
  shows "writes (snd (set_light_battery ch cap True st s)) = writes s"
proof -
  let ?a = "active_states s OR BREATH_SOURCE_BATTERY"
  have a: "active_states s < 16" "top_source (active_states s) = BREATH_SOURCE_BATTERY"
    using assms(1,2) by (simp_all add: lights_inv_def)
  then have t: "top_source ?a = BREATH_SOURCE_BATTERY"
    using source_on [of "active_states s" BREATH_SOURCE_BATTERY] by (simp add: sources_def)
  let ?s = "s\<lparr>g_battery := st, active_states := ?a\<rparr>"
  have "choose_light ch cap ?s = (None, ?s)"
    using t assms(2) by (auto simp: choose_light_def top_source_def split: if_splits)
  then show ?thesis
    using assms(2,3) by (simp add: set_light_battery_def set_breath_light_locked_def Let_def)
qed

definition charging :: lights where
  "charging = do_light_call (Battery 1 50 (light_off\<lparr>color := 0xFFFFFF\<rparr>)) lights_init"

lemma charging_inv: "lights_inv charging"
  unfolding charging_def by (rule lights_inv_call [OF lights_inv_init])

theorem lights_battery_stale_witness:
  "writes (snd (set_light_battery 1 100 True (light_off\<lparr>color := 0x00FF00\<rparr>) charging)) = writes charging"
proof (rule lights_battery_stale [OF charging_inv])
  show "last_state charging = BREATH_SOURCE_BATTERY"
    by (simp add: charging_def set_light_battery_def set_breath_light_locked_def lights_init_def
        rgb_to_brightness_def light_off_def choose_light_def emit_writes_def)
qed (simp add: rgb_to_brightness_def light_off_def)

end
