(* ===== verification/Loc_Ni.thy ===== *)
theory Loc_Ni
  imports Prelude "HOL-Library.Multiset"
begin

text \<open>
  The network-initiated (NI) requests of the location engine
  (\<open>src/gps/loc_api/libloc_api_50001/loc_eng_ni.cpp\<close> and \<open>.h\<close>).  The modem asks whether a
  position may be given away; the engine notifies the user, waits in a thread of its own for the
  answer or for the time to run out, and then sends the answer back in a message that owns the
  modem's request data (the \<^emph>\<open>payload\<close>).  There are two sessions: one for SUPL, one for
  emergency SUPL (ES).

  The theory has the handlers as functions on an explicit state, the parts of the NI thread that
  run under the session's lock and behind it as separate steps, and a step relation that
  interleaves them with the handlers.  It shows that every payload has one owner at any time,
  that a session is answered with what the user said, and where the thread of a finished session
  disturbs the session that follows.
\<close>

section \<open>State\<close>

text \<open>
  \<open>GpsUserResponseType\<close> with the value \<open>GPS_NI_RESPONSE_IGNORE\<close> that \<open>loc_eng_ni.h\<close> adds, and
  \<open>GpsNiType\<close>.
\<close>

datatype ni_response =
  GPS_NI_RESPONSE_ACCEPT | GPS_NI_RESPONSE_DENY | GPS_NI_RESPONSE_NORESP | GPS_NI_RESPONSE_IGNORE

datatype ni_type =
  GPS_NI_TYPE_VOICE | GPS_NI_TYPE_UMTS_SUPL | GPS_NI_TYPE_UMTS_CTRL_PLANE |
  GPS_NI_TYPE_EMERGENCY_SUPL

text \<open>\<open>loc_eng_ni_session_s_type\<close>, without the thread handle and the lock.\<close>

record ni_session =
  respTimeLeft :: uint32
  respRecvd :: bool
  rawRequest :: "addr option"
  reqID :: uint32
  resp :: ni_response

text \<open>
  The thread of a session: it has not run yet, it waits for the answer until an absolute time,
  or it has left the critical section with the message it is going to send.
\<close>

datatype thread_phase =
  Starting | Waiting int | Unlocked "(ni_response \<times> addr) option"

datatype ni_which = SUPL | ES

datatype loc_mute_session_e_type =
  LOC_MUTE_SESS_NONE | LOC_MUTE_SESS_WAIT | LOC_MUTE_SESS_IN_SESSION

text \<open>
  The fields of \<open>loc_eng_data_s_type\<close> that the NI code uses: the callback (installed or not), the
  two sessions, the counter and the mute state; then the running NI threads, the messages
  \<open>LocEngInformNiResponse\<close> in the queue, and as history what the modem was told, what the user
  was notified of (the notification's id) and what was freed.
\<close>

record ni_state =
  ni_notify_cb :: bool
  session :: ni_session
  sessionEs :: ni_session
  reqIDCounter :: uint32
  mute_session_state :: loc_mute_session_e_type
  threads :: "(ni_which \<times> thread_phase) list"
  msgs :: "(ni_response \<times> addr) list"
  informed :: "(ni_response \<times> addr) list"
  notified :: "uint32 list"
  freed :: "addr list"
  now :: int

definition LOC_NI_NO_RESPONSE_TIME :: uint32 where "LOC_NI_NO_RESPONSE_TIME = 20"

fun sess :: "ni_which \<Rightarrow> ni_state \<Rightarrow> ni_session" where
  "sess SUPL st = session st"
| "sess ES st = sessionEs st"

fun put_sess :: "ni_which \<Rightarrow> ni_session \<Rightarrow> ni_state \<Rightarrow> ni_state" where
  "put_sess SUPL s st = st\<lparr>session := s\<rparr>"
| "put_sess ES s st = st\<lparr>sessionEs := s\<rparr>"

text \<open>\<open>free\<close> of a pointer that may be \<open>NULL\<close>, as the handlers guard it.\<close>

definition free_opt :: "addr option \<Rightarrow> ni_state \<Rightarrow> ni_state" where
  "free_opt p st = (case p of None \<Rightarrow> st | Some a \<Rightarrow> st\<lparr>freed := freed st @ [a]\<rparr>)"

section \<open>The handlers\<close>

text \<open>\<open>loc_eng_ni_init\<close>; the argument tells whether the callbacks and \<open>notify_cb\<close> are given.\<close>

definition cleared_session :: "ni_session \<Rightarrow> ni_session" where
  "cleared_session s = s\<lparr>respTimeLeft := 0, respRecvd := False, rawRequest := None, reqID := 0\<rparr>"

definition loc_eng_ni_init :: "bool \<Rightarrow> ni_state \<Rightarrow> ni_state" where
  "loc_eng_ni_init cb st =
     (if \<not> cb then st
      else if ni_notify_cb st then st
      else st\<lparr>sessionEs := cleared_session (sessionEs st),
              session := cleared_session (session st), ni_notify_cb := True\<rparr>)"

text \<open>The fields of \<open>GpsNiNotification\<close> that decide something.\<close>

record ni_notification =
  ntype :: ni_type
  privacy_override :: bool
  timeout :: uint32

text \<open>The session a request is for, unless one is in progress.\<close>

definition choose_session :: "ni_type \<Rightarrow> ni_state \<Rightarrow> ni_which option" where
  "choose_session t st =
     (if t = GPS_NI_TYPE_EMERGENCY_SUPL then
        (if rawRequest (sessionEs st) \<noteq> None then None else Some ES)
      else
        (if rawRequest (session st) \<noteq> None \<or> rawRequest (sessionEs st) \<noteq> None then None
         else Some SUPL))"

definition loc_eng_mute_one_session :: "ni_state \<Rightarrow> ni_state" where
  "loc_eng_mute_one_session st = st\<lparr>mute_session_state := LOC_MUTE_SESS_WAIT\<rparr>"

text \<open>The time the session waits, in seconds.\<close>

definition response_time :: "uint32 \<Rightarrow> uint32" where
  "response_time t = 5 + (if t \<noteq> 0 then t else LOC_NI_NO_RESPONSE_TIME)"

definition start_session ::
  "ni_which \<Rightarrow> ni_notification \<Rightarrow> addr option \<Rightarrow> ni_state \<Rightarrow> ni_state" where
  "start_session w n p st =
     (let c = reqIDCounter st + 1;
          t = response_time (timeout n);
          st1 = put_sess w ((sess w st)\<lparr>rawRequest := p, reqID := c\<rparr>) (st\<lparr>reqIDCounter := c\<rparr>);
          st2 = (if privacy_override n then loc_eng_mute_one_session st1 else st1);
          st3 = put_sess w ((sess w st2)\<lparr>respTimeLeft := t\<rparr>) st2
      in st3\<lparr>threads := threads st3 @ [(w, Starting)], notified := notified st3 @ [c]\<rparr>)"

definition loc_eng_ni_request_handler ::
  "ni_notification \<Rightarrow> addr option \<Rightarrow> ni_state \<Rightarrow> ni_state" where
  "loc_eng_ni_request_handler n p st =
     (if \<not> ni_notify_cb st then st
      else case choose_session (ntype n) st of
        None \<Rightarrow> free_opt p st
      | Some w \<Rightarrow> start_session w n p st)"

text \<open>The locked part of an answer: note it and wake the thread.\<close>

definition post_response :: "ni_which \<Rightarrow> ni_response \<Rightarrow> ni_state \<Rightarrow> ni_state" where
  "post_response w r st = put_sess w ((sess w st)\<lparr>resp := r, respRecvd := True\<rparr>) st"

definition loc_eng_ni_respond :: "uint32 \<Rightarrow> ni_response \<Rightarrow> ni_state \<Rightarrow> ni_state" where
  "loc_eng_ni_respond notif_id r st =
     (if \<not> ni_notify_cb st then st
      else if notif_id = reqID (sessionEs st) \<and> rawRequest (sessionEs st) \<noteq> None then
        (let st1 = (if r = GPS_NI_RESPONSE_ACCEPT \<and> rawRequest (session st) \<noteq> None
                    then post_response SUPL GPS_NI_RESPONSE_IGNORE st else st)
         in post_response ES r st1)
      else if notif_id = reqID (session st) \<and> rawRequest (session st) \<noteq> None then
        post_response SUPL r st
      else st)"

text \<open>
  \<open>loc_eng_ni_reset_on_engine_restart\<close>, for one session and for both.  The code reads the
  pointer and frees it before it clears it, and takes the lock only then; the two halves are
  separate operations, and the handler is their composition.
\<close>

definition restart_free :: "ni_which \<Rightarrow> ni_state \<Rightarrow> ni_state" where
  "restart_free w st = free_opt (rawRequest (sess w st)) st"

definition restart_clear :: "ni_which \<Rightarrow> ni_state \<Rightarrow> ni_state" where
  "restart_clear w st = put_sess w ((sess w st)\<lparr>rawRequest := None, respRecvd := True\<rparr>) st"

definition restart_session :: "ni_which \<Rightarrow> ni_state \<Rightarrow> ni_state" where
  "restart_session w st =
     (if rawRequest (sess w st) \<noteq> None then restart_clear w (restart_free w st) else st)"

definition loc_eng_ni_reset_on_engine_restart :: "ni_state \<Rightarrow> ni_state" where
  "loc_eng_ni_reset_on_engine_restart st =
     (if \<not> ni_notify_cb st then st else restart_session SUPL (restart_session ES st))"

section \<open>The thread\<close>

text \<open>The end of the critical section of \<open>ni_thread_proc\<close>, behind its loop.\<close>

definition finish_locked :: "ni_which \<Rightarrow> ni_state \<Rightarrow> ni_state \<times> thread_phase" where
  "finish_locked w st =
     (let s = (sess w st)\<lparr>respRecvd := False\<rparr> in
      case rawRequest s of
        None \<Rightarrow> (put_sess w s st, Unlocked None)
      | Some p \<Rightarrow>
          if resp s \<noteq> GPS_NI_RESPONSE_IGNORE
          then (put_sess w (s\<lparr>rawRequest := None\<rparr>) st, Unlocked (Some (resp s, p)))
          else (put_sess w (s\<lparr>rawRequest := None\<rparr>) (st\<lparr>freed := freed st @ [p]\<rparr>), Unlocked None))"

text \<open>
  One step of a thread.  \<open>timedout\<close> is the result of \<open>pthread_cond_timedwait\<close>: \<open>True\<close> for
  \<open>ETIMEDOUT\<close>, \<open>False\<close> for a wake-up, which may be spurious.
\<close>

fun ni_thread_proc ::
  "bool \<Rightarrow> ni_which \<Rightarrow> thread_phase \<Rightarrow> ni_state \<Rightarrow> ni_state \<times> thread_phase option" where
  "ni_thread_proc timedout w Starting st =
     (if respRecvd (sess w st)
      then (let (st', ph) = finish_locked w st in (st', Some ph))
      else (st, Some (Waiting (now st + sint (respTimeLeft (sess w st))))))"
| "ni_thread_proc timedout w (Waiting t) st =
     (if timedout
      then (let (st', ph) = finish_locked w
              (put_sess w ((sess w st)\<lparr>resp := GPS_NI_RESPONSE_NORESP\<rparr>) st) in (st', Some ph))
      else if respRecvd (sess w st)
      then (let (st', ph) = finish_locked w st in (st', Some ph))
      else (st, Some (Waiting t)))"
| "ni_thread_proc timedout w (Unlocked m) st =
     (let st' = put_sess w ((sess w st)\<lparr>respTimeLeft := 0, reqID := 0\<rparr>) st
      in (st'\<lparr>msgs := msgs st' @ (case m of None \<Rightarrow> [] | Some x \<Rightarrow> [x])\<rparr>, None))"

text \<open>A step of the thread at an index of the list of threads; a thread that ends is removed.\<close>

definition thread_step :: "bool \<Rightarrow> nat \<Rightarrow> ni_state \<Rightarrow> ni_state" where
  "thread_step timedout i st =
     (if i < length (threads st) then
        (let (w, ph) = threads st ! i; (st', ph') = ni_thread_proc timedout w ph st in
         case ph' of
           None \<Rightarrow> st'\<lparr>threads := take i (threads st) @ drop (Suc i) (threads st)\<rparr>
         | Some q \<Rightarrow> st'\<lparr>threads := (threads st)[i := (w, q)]\<rparr>)
      else st)"

text \<open>
  \<open>LocEngInformNiResponse\<close>: its \<open>proc\<close> tells the modem, and its destructor frees the payload.
\<close>

definition inform_proc :: "ni_state \<Rightarrow> ni_state" where
  "inform_proc st =
     (case msgs st of
        [] \<Rightarrow> st
      | (r, p) # ms \<Rightarrow> st\<lparr>msgs := ms, informed := informed st @ [(r, p)], freed := freed st @ [p]\<rparr>)"

section \<open>Events and runs\<close>

text \<open>
  What can happen: the modem asks (the message thread), the user answers (the client's thread),
  the modem restarts (the message thread), a NI thread runs, the message thread handles the next
  answer, time passes.
\<close>

datatype ni_event =
  Request ni_notification "addr option" | Respond uint32 ni_response | Restart |
  Thread bool nat | Inform | Tick nat

fun ni_apply :: "ni_event \<Rightarrow> ni_state \<Rightarrow> ni_state" where
  "ni_apply (Request n p) st = loc_eng_ni_request_handler n p st"
| "ni_apply (Respond i r) st = loc_eng_ni_respond i r st"
| "ni_apply Restart st = loc_eng_ni_reset_on_engine_restart st"
| "ni_apply (Thread timedout i) st = thread_step timedout i st"
| "ni_apply Inform st = inform_proc st"
| "ni_apply (Tick d) st = st\<lparr>now := now st + int d\<rparr>"

text \<open>A wait times out only when its time has come.\<close>

fun ni_enabled :: "ni_event \<Rightarrow> ni_state \<Rightarrow> bool" where
  "ni_enabled (Thread timedout i) st =
     (i < length (threads st) \<and>
      (timedout \<longrightarrow> (case snd (threads st ! i) of Waiting t \<Rightarrow> t \<le> now st | _ \<Rightarrow> False)))"
| "ni_enabled e st = True"

inductive ni_run :: "ni_state \<Rightarrow> ni_event list \<Rightarrow> ni_state \<Rightarrow> bool" where
  ni_run_Nil: "ni_run st [] st"
| ni_run_Cons: "\<lbrakk>ni_enabled e st; ni_run (ni_apply e st) es st'\<rbrakk> \<Longrightarrow> ni_run st (e # es) st'"

code_pred ni_run .

inductive_simps ni_run_Nil_iff [simp]: "ni_run st [] st'"
inductive_simps ni_run_Cons_iff [simp]: "ni_run st (e # es) st'"

lemma ni_run_append:
  "ni_run st (es @ fs) st' \<longleftrightarrow> (\<exists>m. ni_run st es m \<and> ni_run m fs st')"
  by (induction es arbitrary: st) auto

text \<open>The state after the engine's \<open>memset\<close>, at a time.\<close>

definition zero_session :: ni_session where
  "zero_session = \<lparr>respTimeLeft = 0, respRecvd = False, rawRequest = None, reqID = 0,
                   resp = GPS_NI_RESPONSE_ACCEPT\<rparr>"

definition ni_zero :: "int \<Rightarrow> ni_state" where
  "ni_zero t = \<lparr>ni_notify_cb = False, session = zero_session, sessionEs = zero_session,
     reqIDCounter = 0, mute_session_state = LOC_MUTE_SESS_NONE, threads = [], msgs = [],
     informed = [], notified = [], freed = [], now = t\<rparr>"

definition ni_start :: "int \<Rightarrow> ni_state" where
  "ni_start t = loc_eng_ni_init True (ni_zero t)"

section \<open>Ownership of the payloads\<close>

abbreviation opt_mset :: "'a option \<Rightarrow> 'a multiset" where
  "opt_mset x \<equiv> mset (case x of None \<Rightarrow> [] | Some a \<Rightarrow> [a])"

fun phase_payload :: "thread_phase \<Rightarrow> addr option" where
  "phase_payload (Unlocked m) = map_option snd m"
| "phase_payload _ = None"

definition thread_payloads :: "(ni_which \<times> thread_phase) list \<Rightarrow> addr multiset" where
  "thread_payloads ts = (\<Sum>t \<in># mset ts. opt_mset (phase_payload (snd t)))"

text \<open>
  The owners of payloads: the two sessions, the NI threads that carry an answer, the messages in
  the queue, and, for those given back, the heap.
\<close>

definition holders :: "ni_state \<Rightarrow> addr multiset" where
  "holders st = opt_mset (rawRequest (session st)) + opt_mset (rawRequest (sessionEs st))
     + thread_payloads (threads st) + mset (map snd (msgs st))"

definition owned :: "ni_state \<Rightarrow> addr multiset" where
  "owned st = holders st + mset (freed st)"

fun event_payload :: "ni_event \<Rightarrow> addr option" where
  "event_payload (Request n p) = p"
| "event_payload _ = None"

definition payloads :: "ni_event list \<Rightarrow> addr multiset" where
  "payloads es = (\<Sum>e \<in># mset es. opt_mset (event_payload e))"

lemma payloads_simps [simp]:
  "payloads [] = {#}" "payloads (e # es) = opt_mset (event_payload e) + payloads es"
  by (simp_all add: payloads_def)

lemma thread_payloads_simps [simp]:
  "thread_payloads [] = {#}"
  "thread_payloads (t # ts) = opt_mset (phase_payload (snd t)) + thread_payloads ts"
  "thread_payloads (ts @ us) = thread_payloads ts + thread_payloads us"
  by (simp_all add: thread_payloads_def)

lemma thread_payloads_split:
  "i < length ts \<Longrightarrow> thread_payloads ts =
     thread_payloads (take i ts) + opt_mset (phase_payload (snd (ts ! i)))
     + thread_payloads (drop (Suc i) ts)"
  by (metis (no_types, lifting) id_take_nth_drop thread_payloads_simps(2,3) add.assoc)

lemma thread_payloads_update:
  "i < length ts \<Longrightarrow> thread_payloads (ts[i := t]) =
     thread_payloads (take i ts) + opt_mset (phase_payload (snd t))
     + thread_payloads (drop (Suc i) ts)"
  by (simp add: upd_conv_take_nth_drop ac_simps)

text \<open>What a change of one session does to the other fields.\<close>

lemma put_sess_simps [simp]:
  "sess w (put_sess w s st) = s"
  "threads (put_sess w s st) = threads st"
  "msgs (put_sess w s st) = msgs st"
  "freed (put_sess w s st) = freed st"
  "informed (put_sess w s st) = informed st"
  "notified (put_sess w s st) = notified st"
  "now (put_sess w s st) = now st"
  "ni_notify_cb (put_sess w s st) = ni_notify_cb st"
  "reqIDCounter (put_sess w s st) = reqIDCounter st"
  by (cases w; simp)+

lemma sess_simps [simp]:
  "sess w (st\<lparr>threads := ts\<rparr>) = sess w st"
  "sess w (st\<lparr>msgs := ms\<rparr>) = sess w st"
  "sess w (st\<lparr>freed := fs\<rparr>) = sess w st"
  "sess w (st\<lparr>notified := ns\<rparr>) = sess w st"
  "sess w (st\<lparr>informed := is\<rparr>) = sess w st"
  "sess w (st\<lparr>reqIDCounter := c\<rparr>) = sess w st"
  "sess w (st\<lparr>mute_session_state := m\<rparr>) = sess w st"
  "sess w (st\<lparr>now := t\<rparr>) = sess w st"
  by (cases w; simp)+

lemma sess_put_other: "v \<noteq> w \<Longrightarrow> sess v (put_sess w s st) = sess v st"
  by (cases v; cases w) simp_all

fun other :: "ni_which \<Rightarrow> ni_which" where
  "other SUPL = ES" | "other ES = SUPL"

lemma other_ne [simp]: "other w \<noteq> w" "w \<noteq> other w"
  by (cases w; simp)+

lemma holders_alt:
  "holders st = opt_mset (rawRequest (sess w st)) + opt_mset (rawRequest (sess (other w) st))
     + thread_payloads (threads st) + mset (map snd (msgs st))"
  by (cases w) (simp_all add: holders_def)

lemma owned_alt:
  "owned st = opt_mset (rawRequest (sess w st)) + opt_mset (rawRequest (sess (other w) st))
     + thread_payloads (threads st) + mset (map snd (msgs st)) + mset (freed st)"
  by (simp add: owned_def holders_alt [of st w])

lemma owned_put_sess:
  "rawRequest s = rawRequest (sess w st) \<Longrightarrow> owned (put_sess w s st) = owned st"
  by (simp add: owned_alt [of _ w] sess_put_other)

lemma owned_take_request:
  "owned (put_sess w s st) + opt_mset (rawRequest (sess w st))
   = owned st + opt_mset (rawRequest s)"
  by (simp add: owned_alt [of _ w] sess_put_other)

lemma owned_free_opt [simp]: "owned (free_opt p st) = owned st + opt_mset p"
  by (cases p) (simp_all add: free_opt_def owned_def holders_def)

lemma sess_free_opt [simp]: "sess w (free_opt p st) = sess w st"
  by (cases p) (simp_all add: free_opt_def)

lemma owned_cong:
  "\<lbrakk>session st = session st'; sessionEs st = sessionEs st';
    thread_payloads (threads st) = thread_payloads (threads st'); msgs st = msgs st';
    freed st = freed st'\<rbrakk> \<Longrightarrow> owned st = owned st'"
  by (simp add: owned_def holders_def)

lemma owned_post_response [simp]: "owned (post_response w r st) = owned st"
  by (simp add: post_response_def owned_put_sess)

lemma owned_start_session:
  assumes "rawRequest (sess w st) = None"
  shows "owned (start_session w n p st) = owned st + opt_mset p"
proof -
  have [simp]: "threads x = ts \<Longrightarrow>
      owned (x\<lparr>threads := ts @ [(w, Starting)], notified := ns\<rparr>) = owned x" for x ts ns
    by (simp add: owned_def holders_def)
  have [simp]: "owned (st'\<lparr>reqIDCounter := c\<rparr>) = owned st'" for st' c
    by (rule owned_cong) simp_all
  have [simp]: "owned (st'\<lparr>mute_session_state := m\<rparr>) = owned st'" for st' m
    by (rule owned_cong) simp_all
  show ?thesis
    using owned_take_request [where w = w and st = "st\<lparr>reqIDCounter := reqIDCounter st + 1\<rparr>"
        and s = "(sess w st)\<lparr>rawRequest := p, reqID := reqIDCounter st + 1\<rparr>"] assms
    by (simp add: start_session_def Let_def owned_put_sess loc_eng_mute_one_session_def)
qed

lemma choose_session_free:
  "choose_session t st = Some w \<Longrightarrow> rawRequest (sess w st) = None"
  by (auto simp: choose_session_def split: if_splits)

lemma owned_request:
  "ni_notify_cb st \<Longrightarrow> owned (loc_eng_ni_request_handler n p st) = owned st + opt_mset p"
  by (auto simp: loc_eng_ni_request_handler_def owned_start_session choose_session_free
      split: option.splits)

lemma owned_respond: "owned (loc_eng_ni_respond i r st) = owned st"
  by (simp add: loc_eng_ni_respond_def Let_def)

lemma owned_restart_session: "owned (restart_session w st) = owned st"
  using owned_take_request [where w = w and st = "free_opt (rawRequest (sess w st)) st"
      and s = "(sess w st)\<lparr>rawRequest := None, respRecvd := True\<rparr>"]
  by (simp add: restart_session_def restart_clear_def restart_free_def)

lemma owned_restart: "owned (loc_eng_ni_reset_on_engine_restart st) = owned st"
  by (simp add: loc_eng_ni_reset_on_engine_restart_def owned_restart_session)

lemma owned_inform: "owned (inform_proc st) = owned st"
  by (auto simp: inform_proc_def owned_def holders_def split: list.splits)

lemma finish_locked_facts:
  assumes "finish_locked w st = (st', ph)"
  shows "owned st' + opt_mset (phase_payload ph) = owned st" "threads st' = threads st"
    "rawRequest (sess w st') = None" "rawRequest (sess (other w) st') = rawRequest (sess (other w) st)"
    "ni_notify_cb st' = ni_notify_cb st" "\<exists>m. ph = Unlocked m" "msgs st' = msgs st"
    "now st' = now st"
  using assms
  by (auto simp: finish_locked_def Let_def owned_alt [of _ w] sess_put_other
      split: option.splits if_splits)

lemma finish_locked_step:
  "finish_locked w st = (st', ph) \<Longrightarrow> owned st' + opt_mset (phase_payload ph) = owned st
     \<and> threads st' = threads st \<and> ni_notify_cb st' = ni_notify_cb st"
  by (simp add: finish_locked_facts)

fun opt_phase_payload :: "thread_phase option \<Rightarrow> addr option" where
  "opt_phase_payload None = None"
| "opt_phase_payload (Some ph) = phase_payload ph"

lemma ni_thread_proc_facts:
  assumes "ni_thread_proc b w ph st = (st', ph')"
  shows "owned st' + opt_mset (opt_phase_payload ph') = owned st + opt_mset (phase_payload ph)"
    "threads st' = threads st" "ni_notify_cb st' = ni_notify_cb st"
proof -
  let ?n = "put_sess w ((sess w st)\<lparr>resp := GPS_NI_RESPONSE_NORESP\<rparr>) st"
  have n: "owned ?n = owned st" by (simp add: owned_put_sess)
  have "owned st' + opt_mset (opt_phase_payload ph') = owned st + opt_mset (phase_payload ph)
      \<and> threads st' = threads st \<and> ni_notify_cb st' = ni_notify_cb st"
  proof (cases ph)
    case Starting
    then show ?thesis using assms
      by (auto split: if_splits prod.splits dest!: finish_locked_step)
  next
    case (Waiting t)
    then show ?thesis using assms n
      by (auto split: if_splits prod.splits dest!: finish_locked_step)
  next
    case (Unlocked m)
    then show ?thesis using assms
      by (auto simp: owned_alt [of _ w] sess_put_other Let_def split: option.splits)
  qed
  then show "owned st' + opt_mset (opt_phase_payload ph') = owned st + opt_mset (phase_payload ph)"
    "threads st' = threads st" "ni_notify_cb st' = ni_notify_cb st" by simp_all
qed

lemma owned_set_threads:
  "owned (st\<lparr>threads := ts\<rparr>) + thread_payloads (threads st) = owned st + thread_payloads ts"
  by (simp add: owned_def holders_def)

lemma owned_thread_step: "owned (thread_step b i st) = owned st"
proof (cases "i < length (threads st)")
  case False
  then show ?thesis by (simp add: thread_step_def)
next
  case i: True
  obtain w ph where t: "threads st ! i = (w, ph)" by fastforce
  obtain st' ph' where p: "ni_thread_proc b w ph st = (st', ph')" by fastforce
  note f = ni_thread_proc_facts [OF p]
  have s: "thread_payloads (threads st) = thread_payloads (take i (threads st))
      + opt_mset (phase_payload ph) + thread_payloads (drop (Suc i) (threads st))"
    using thread_payloads_split [OF i] t by simp
  show ?thesis
  proof (cases ph')
    case None
    show ?thesis
      using i t p None f s
        owned_set_threads [where st = st' and ts = "take i (threads st) @ drop (Suc i) (threads st)"]
      by (simp add: thread_step_def)
  next
    case (Some q)
    show ?thesis
      using i t p Some f s owned_set_threads [where st = st' and ts = "(threads st)[i := (w, q)]"]
      by (simp add: thread_step_def thread_payloads_update)
  qed
qed

lemma owned_apply:
  "ni_notify_cb st \<Longrightarrow> owned (ni_apply e st) = owned st + opt_mset (event_payload e)"
  by (cases e) (auto simp: owned_request owned_respond owned_restart owned_thread_step owned_inform
      intro: owned_cong)

lemma cb_post [simp]: "ni_notify_cb (post_response w r st) = ni_notify_cb st"
  by (simp add: post_response_def)

lemma cb_free_opt [simp]: "ni_notify_cb (free_opt p st) = ni_notify_cb st"
  by (cases p) (simp_all add: free_opt_def)

lemma cb_restart [simp]: "ni_notify_cb (restart_session w st) = ni_notify_cb st"
  by (simp add: restart_session_def restart_clear_def restart_free_def)

lemma cb_apply: "ni_notify_cb st \<Longrightarrow> ni_notify_cb (ni_apply e st)"
proof (induction e)
  case (Request n p)
  then show ?case
    by (auto simp: loc_eng_ni_request_handler_def start_session_def Let_def
        loc_eng_mute_one_session_def split: option.splits)
next
  case (Thread b i)
  then show ?case
    by (auto simp: thread_step_def split: prod.splits option.splits dest!: ni_thread_proc_facts(3))
qed (auto simp: loc_eng_ni_respond_def Let_def loc_eng_ni_reset_on_engine_restart_def
    inform_proc_def split: list.splits)

lemma owned_run:
  "\<lbrakk>ni_run st es st'; ni_notify_cb st\<rbrakk> \<Longrightarrow> owned st' = owned st + payloads es"
  by (induction rule: ni_run.induct) (simp_all add: owned_apply cb_apply)

lemma owned_zero: "owned (ni_start t) = {#}" "ni_notify_cb (ni_start t)"
  by (simp_all add: ni_start_def loc_eng_ni_init_def ni_zero_def cleared_session_def owned_def
      holders_def zero_session_def)


section \<open>A pending request has a thread\<close>

fun waits :: "thread_phase \<Rightarrow> bool" where
  "waits (Unlocked m) = False"
| "waits _ = True"

definition pending_ok :: "ni_state \<Rightarrow> bool" where
  "pending_ok st \<longleftrightarrow> (\<forall>w. rawRequest (sess w st) \<noteq> None \<longrightarrow>
     (\<exists>ph. (w, ph) \<in> set (threads st) \<and> waits ph))"

lemma pending_okI:
  "(\<And>w. rawRequest (sess w st) \<noteq> None \<Longrightarrow> \<exists>ph. (w, ph) \<in> set (threads st) \<and> waits ph)
   \<Longrightarrow> pending_ok st"
  by (simp add: pending_ok_def)

lemma pending_ok_cong:
  assumes "pending_ok st"
    and "\<And>w. rawRequest (sess w st') \<noteq> None \<Longrightarrow> rawRequest (sess w st) \<noteq> None"
    and "set (threads st) \<subseteq> set (threads st')"
  shows "pending_ok st'"
  using assms by (fastforce simp: pending_ok_def)

lemma raw_post [simp]: "rawRequest (sess v (post_response w r st)) = rawRequest (sess v st)"
  by (cases "v = w") (simp_all add: post_response_def sess_put_other)

lemma threads_simps [simp]:
  "threads (post_response w r st) = threads st"
  "threads (free_opt p st) = threads st"
  "threads (restart_session w st) = threads st"
  "threads (inform_proc st) = threads st"
  by (auto simp: post_response_def free_opt_def restart_session_def restart_clear_def
      restart_free_def inform_proc_def split: option.splits list.splits)

lemma raw_restart:
  "rawRequest (sess v (restart_session w st)) \<noteq> None \<Longrightarrow> rawRequest (sess v st) \<noteq> None"
  by (cases "v = w") (auto simp: restart_session_def restart_clear_def restart_free_def
      sess_put_other split: if_splits)

lemma raw_thread_proc:
  assumes "ni_thread_proc b w ph st = (st', ph')" "rawRequest (sess v st') \<noteq> None"
  shows "rawRequest (sess v st) \<noteq> None \<and>
    (v = w \<longrightarrow> (case ph' of None \<Rightarrow> \<not> waits ph | Some q \<Rightarrow> waits ph \<longrightarrow> waits q))"
proof -
  have fin: "v \<noteq> w \<and> rawRequest (sess v st') = rawRequest (sess v s0)"
    if "finish_locked w s0 = (st', q)" for s0 q
    using finish_locked_facts(3,4) [OF that] assms(2) by (cases v; cases w) auto
  show ?thesis
  proof (cases ph)
    case Starting
    show ?thesis
    proof (cases "respRecvd (sess w st)")
      case True
      then obtain q where "finish_locked w st = (st', q)"
        using assms(1) Starting by (auto split: prod.splits)
      from fin [OF this] assms(2) show ?thesis by simp
    qed (use assms Starting in auto)
  next
    case (Waiting t)
    let ?n = "put_sess w ((sess w st)\<lparr>resp := GPS_NI_RESPONSE_NORESP\<rparr>) st"
    consider (out) b | (rec) "\<not> b" "respRecvd (sess w st)" | (not) "\<not> b" "\<not> respRecvd (sess w st)"
      by blast
    then show ?thesis
    proof cases
      case out
      then obtain q where "finish_locked w ?n = (st', q)"
        using assms(1) Waiting by (auto split: prod.splits)
      from fin [OF this] assms(2) show ?thesis by (simp add: sess_put_other)
    next
      case rec
      then obtain q where "finish_locked w st = (st', q)"
        using assms(1) Waiting by (auto split: prod.splits)
      from fin [OF this] assms(2) show ?thesis by simp
    next
      case not
      then show ?thesis using assms Waiting by auto
    qed
  next
    case (Unlocked m)
    then show ?thesis using assms
      by (cases "v = w") (auto simp: Let_def sess_put_other)
  qed
qed

lemma pending_ok_thread:
  assumes "pending_ok st" shows "pending_ok (thread_step b i st)"
proof (cases "i < length (threads st)")
  case False
  then show ?thesis using assms by (simp add: thread_step_def)
next
  case i: True
  obtain w ph where t: "threads st ! i = (w, ph)" by fastforce
  obtain st' ph' where p: "ni_thread_proc b w ph st = (st', ph')" by fastforce
  have split: "threads st = take i (threads st) @ (w, ph) # drop (Suc i) (threads st)"
    using i t by (metis id_take_nth_drop)
  have old: "\<exists>q. (v, q) \<in> set (threads st) \<and> waits q" if "rawRequest (sess v st') \<noteq> None" for v
    using raw_thread_proc [OF p that] assms by (simp add: pending_ok_def)
  show ?thesis
  proof (rule pending_okI)
    fix v assume "rawRequest (sess v (thread_step b i st)) \<noteq> None"
    then have v: "rawRequest (sess v st') \<noteq> None"
      using i t p by (auto simp: thread_step_def split: option.splits)
    obtain q where q: "(v, q) \<in> set (threads st)" "waits q" using old [OF v] by blast
    have "(v, q) = (w, ph) \<or> (v, q) \<in> set (take i (threads st)) \<or> (v, q) \<in> set (drop (Suc i) (threads st))"
      using q(1) by (subst (asm) split) auto
    then show "\<exists>ph. (v, ph) \<in> set (threads (thread_step b i st)) \<and> waits ph"
      using i t p q(2) raw_thread_proc [OF p v]
      by (auto simp: thread_step_def upd_conv_take_nth_drop split: option.splits)
  qed
qed

lemma pending_ok_apply:
  assumes "pending_ok st" shows "pending_ok (ni_apply e st)"
proof (cases e)
  case (Request n p)
  show ?thesis
  proof (cases "ni_notify_cb st")
    case cb: True
    show ?thesis
    proof (cases "choose_session (ntype n) st")
      case None
      then show ?thesis using Request cb assms
        by (auto simp: loc_eng_ni_request_handler_def intro: pending_ok_cong [OF assms])
    next
      case (Some w)
      have "\<exists>ph. (v, ph) \<in> set (threads (start_session w n p st)) \<and> waits ph"
        if "rawRequest (sess v (start_session w n p st)) \<noteq> None" for v
        using assms that
        by (cases "v = w")
          (fastforce simp: start_session_def Let_def sess_put_other loc_eng_mute_one_session_def
             pending_ok_def split: if_splits)+
      then show ?thesis using Request cb Some
        by (simp add: loc_eng_ni_request_handler_def pending_ok_def)
    qed
  qed (use Request assms in \<open>simp add: loc_eng_ni_request_handler_def\<close>)
next
  case (Respond i r)
  then show ?thesis using assms
    by (auto simp: loc_eng_ni_respond_def Let_def intro: pending_ok_cong [OF assms])
next
  case Restart
  then show ?thesis using assms
    by (cases "ni_notify_cb st")
      (auto simp: loc_eng_ni_reset_on_engine_restart_def simp del: not_None_eq
        dest!: raw_restart intro!: pending_ok_cong [OF assms])
next
  case Inform
  then show ?thesis using assms
    by (auto simp: inform_proc_def split: list.splits intro!: pending_ok_cong [OF assms])
qed (use assms in \<open>auto simp: pending_ok_thread intro!: pending_ok_cong [OF assms]\<close>)

lemma pending_ok_run: "\<lbrakk>ni_run st es st'; pending_ok st\<rbrakk> \<Longrightarrow> pending_ok st'"
  by (induction rule: ni_run.induct) (simp_all add: pending_ok_apply)

text \<open>The two ways a thread gives up its session, and what it does behind the lock.\<close>

lemma finish_locked_takes:
  assumes "finish_locked w st = (st', ph)" "rawRequest (sess w st) = Some p"
  obtains m where "ph = Unlocked m" "rawRequest (sess w st') = None"
    "p \<in> set (freed st') \<or> (\<exists>r. m = Some (r, p))" "threads st' = threads st"
proof -
  have "\<exists>m. ph = Unlocked m \<and> (p \<in> set (freed st') \<or> (\<exists>r. m = Some (r, p)))"
    using assms by (auto simp: finish_locked_def Let_def split: if_splits)
  with finish_locked_facts(2,3) [OF assms(1)] that show thesis by blast
qed

lemma thread_finish:
  assumes "i < length (threads st)" "threads st ! i = (w, ph)" "waits ph"
    and "(b \<and> (\<exists>t. ph = Waiting t)) \<or> respRecvd (sess w st)" "rawRequest (sess w st) = Some p"
  obtains m where "threads (thread_step b i st) = (threads st)[i := (w, Unlocked m)]"
    "rawRequest (sess w (thread_step b i st)) = None"
    "p \<in> set (freed (thread_step b i st)) \<or> (\<exists>r. m = Some (r, p))"
proof -
  let ?n = "put_sess w ((sess w st)\<lparr>resp := GPS_NI_RESPONSE_NORESP\<rparr>) st"
  define s0 where "s0 = (if b \<and> ph \<noteq> Starting then ?n else st)"
  have s0: "s0 = st \<or> s0 = ?n"
    "\<And>x q. finish_locked w s0 = (x, q) \<Longrightarrow> ni_thread_proc b w ph st = (x, Some q)"
    using assms(3,4) by (cases ph; cases b; simp add: s0_def)+
  have raw: "rawRequest (sess w s0) = Some p" "threads s0 = threads st"
    using s0(1) assms(5) by auto
  obtain x q where x: "finish_locked w s0 = (x, q)" by fastforce
  obtain m where m: "q = Unlocked m" "rawRequest (sess w x) = None"
    "p \<in> set (freed x) \<or> (\<exists>r. m = Some (r, p))" "threads x = threads s0"
    using finish_locked_takes [OF x raw(1)] .
  have st: "thread_step b i st = x\<lparr>threads := (threads st)[i := (w, Unlocked m)]\<rparr>"
    using assms(1,2) s0(2) [OF x] m(1) by (simp add: thread_step_def)
  show thesis by (rule that [of m]) (use m st in simp_all)
qed

lemma thread_unlock:
  assumes "i < length (threads st)" "threads st ! i = (w, Unlocked m)"
  shows "rawRequest (sess v (thread_step b i st)) = rawRequest (sess v st)"
    "freed (thread_step b i st) = freed st"
    "msgs (thread_step b i st) = msgs st @ (case m of None \<Rightarrow> [] | Some x \<Rightarrow> [x])"
  using assms
  by (cases "v = w"; simp add: thread_step_def Let_def sess_put_other)+


section \<open>What the modem is told\<close>

definition ni_exec :: "ni_event list \<Rightarrow> ni_state \<Rightarrow> ni_state" where
  "ni_exec es st = fold ni_apply es st"

lemma ni_exec_simps [simp]:
  "ni_exec [] st = st" "ni_exec (e # es) st = ni_exec es (ni_apply e st)"
  by (simp_all add: ni_exec_def)

text \<open>No session is in progress and no thread is left over.\<close>

definition ni_idle :: "ni_state \<Rightarrow> bool" where
  "ni_idle st \<longleftrightarrow> ni_notify_cb st \<and> threads st = [] \<and> msgs st = []
     \<and> rawRequest (session st) = None \<and> \<not> respRecvd (session st)
     \<and> rawRequest (sessionEs st) = None \<and> \<not> respRecvd (sessionEs st)"

lemmas ni_step_defs = loc_eng_ni_request_handler_def choose_session_def start_session_def Let_def
  loc_eng_mute_one_session_def loc_eng_ni_respond_def post_response_def thread_step_def
  finish_locked_def inform_proc_def free_opt_def loc_eng_ni_reset_on_engine_restart_def
  restart_session_def restart_clear_def restart_free_def

text \<open>The session a notification's type selects when nothing is in progress.\<close>

definition ni_session_of :: "ni_notification \<Rightarrow> ni_which" where
  "ni_session_of n = (if ntype n = GPS_NI_TYPE_EMERGENCY_SUPL then ES else SUPL)"

lemma ni_idle_cases:
  assumes "ni_idle st"
  obtains "ni_session_of n = SUPL" "choose_session (ntype n) st = Some SUPL"
  | "ni_session_of n = ES" "choose_session (ntype n) st = Some ES"
  using assms that by (cases "ntype n = GPS_NI_TYPE_EMERGENCY_SUPL")
    (simp_all add: ni_idle_def ni_session_of_def choose_session_def)

text \<open>
  The courses a request \<open>p\<close> that is answered with \<open>r\<close> can take: the answer comes while the
  thread waits, or before it has run at all.
\<close>

definition answered_late :: "ni_notification \<Rightarrow> addr \<Rightarrow> uint32 \<Rightarrow> ni_response \<Rightarrow> ni_event list" where
  "answered_late n p i r = [Request n (Some p), Thread False 0, Respond i r, Thread False 0,
     Thread False 0, Inform]"

definition answered_early :: "ni_notification \<Rightarrow> addr \<Rightarrow> uint32 \<Rightarrow> ni_response \<Rightarrow> ni_event list" where
  "answered_early n p i r = [Request n (Some p), Respond i r, Thread False 0, Thread False 0, Inform]"

definition not_answered :: "ni_notification \<Rightarrow> addr \<Rightarrow> nat \<Rightarrow> ni_event list" where
  "not_answered n p d = [Request n (Some p), Thread False 0, Tick d, Thread True 0,
     Thread False 0, Inform]"

definition ni_told :: "ni_state \<Rightarrow> uint32 \<Rightarrow> ni_response \<Rightarrow> addr \<Rightarrow> ni_state \<Rightarrow> bool" where
  "ni_told st i r p st' \<longleftrightarrow> notified st' = notified st @ [i] \<and>
     informed st' = informed st @ [(r, p)] \<and> freed st' = freed st @ [p] \<and> ni_idle st'"

text \<open>
  The stages of one request between two idle states: its thread is in phase \<open>ph\<close>, and the answer
  \<open>rr\<close> has or has not come; then the thread has taken the request's data; then the answer is a
  message.
\<close>

definition in_progress :: "ni_state \<Rightarrow> ni_which \<Rightarrow> uint32 \<Rightarrow> addr \<Rightarrow> ni_response option \<Rightarrow>
    thread_phase \<Rightarrow> ni_state \<Rightarrow> bool" where
  "in_progress st0 w i p rr ph st \<longleftrightarrow> ni_notify_cb st \<and> threads st = [(w, ph)] \<and> msgs st = []
     \<and> informed st = informed st0 \<and> freed st = freed st0 \<and> notified st = notified st0 @ [i]
     \<and> rawRequest (sess w st) = Some p \<and> reqID (sess w st) = i
     \<and> rawRequest (sess (other w) st) = None \<and> \<not> respRecvd (sess (other w) st)
     \<and> (case rr of None \<Rightarrow> \<not> respRecvd (sess w st)
        | Some r \<Rightarrow> respRecvd (sess w st) \<and> resp (sess w st) = r)"

definition taken :: "ni_state \<Rightarrow> ni_which \<Rightarrow> uint32 \<Rightarrow> (ni_which \<times> thread_phase) list \<Rightarrow>
    (ni_response \<times> addr) list \<Rightarrow> ni_state \<Rightarrow> bool" where
  "taken st0 w i ts ms st \<longleftrightarrow> ni_notify_cb st \<and> threads st = ts \<and> msgs st = ms
     \<and> informed st = informed st0 \<and> freed st = freed st0 \<and> notified st = notified st0 @ [i]
     \<and> (\<forall>v. rawRequest (sess v st) = None \<and> \<not> respRecvd (sess v st))"

lemma all_which: "(\<forall>v. P v) \<longleftrightarrow> P w \<and> P (other w)"
  by (metis other.simps ni_which.exhaust)

lemma in_progress_request:
  assumes "ni_idle st"
  shows "in_progress st (ni_session_of n) (reqIDCounter st + 1) p None Starting
    (ni_apply (Request n (Some p)) st)"
  using assms
  by (cases "ntype n = GPS_NI_TYPE_EMERGENCY_SUPL"; cases "privacy_override n")
    (simp_all add: ni_idle_def in_progress_def ni_session_of_def loc_eng_ni_request_handler_def
      choose_session_def start_session_def Let_def loc_eng_mute_one_session_def)

lemma in_progress_wait:
  "in_progress st0 w i p None Starting st \<Longrightarrow>
   \<exists>u. in_progress st0 w i p None (Waiting u) (ni_apply (Thread False 0) st)"
  by (simp add: in_progress_def thread_step_def)

lemma in_progress_respond:
  assumes "in_progress st0 w i p None ph st"
  shows "in_progress st0 w i p (Some r) ph (ni_apply (Respond i r) st)"
  using assms
  by (cases w) (simp_all add: in_progress_def loc_eng_ni_respond_def post_response_def Let_def)

lemma taken_finish:
  assumes "in_progress st0 w i p (Some r) ph st" "waits ph" "r \<noteq> GPS_NI_RESPONSE_IGNORE"
  shows "taken st0 w i [(w, Unlocked (Some (r, p)))] [] (ni_apply (Thread False 0) st)"
  using assms
  by (cases ph) (simp_all add: in_progress_def taken_def thread_step_def finish_locked_def Let_def
      all_which [of _ w] sess_put_other)

lemma taken_timeout:
  assumes "in_progress st0 w i p None (Waiting u) st"
  shows "taken st0 w i [(w, Unlocked (Some (GPS_NI_RESPONSE_NORESP, p)))] []
    (ni_apply (Thread True 0) st)"
  using assms
  by (simp add: in_progress_def taken_def thread_step_def finish_locked_def Let_def
      all_which [of _ w] sess_put_other)

lemma taken_unlock:
  assumes "taken st0 w i [(w, Unlocked (Some m))] [] st"
  shows "taken st0 w i [] [m] (ni_apply (Thread False 0) st)"
  using assms
  by (simp add: taken_def thread_step_def Let_def all_which [of _ w] sess_put_other)

lemma taken_inform:
  assumes "taken st0 w i [] [(r, p)] st"
  shows "ni_told st0 i r p (ni_apply Inform st)"
  using assms
  by (simp add: taken_def ni_told_def ni_idle_def inform_proc_def all_which [of _ SUPL])

lemma in_progress_tick:
  "in_progress st0 w i p rr ph st \<Longrightarrow> in_progress st0 w i p rr ph (ni_apply (Tick d) st)"
  by (cases rr) (simp_all add: in_progress_def)



section \<open>Sessions that disturb each other\<close>

fun all_enabled :: "ni_event list \<Rightarrow> ni_state \<Rightarrow> bool" where
  "all_enabled [] st = True"
| "all_enabled (e # es) st = (ni_enabled e st \<and> all_enabled es (ni_apply e st))"

lemma ni_run_iff: "ni_run st es st' \<longleftrightarrow> all_enabled es st \<and> st' = ni_exec es st"
  by (induction es arbitrary: st) auto

text \<open>A plain SUPL request, and an emergency one.\<close>

definition supl_request :: ni_notification where
  "supl_request = \<lparr>ntype = GPS_NI_TYPE_UMTS_SUPL, privacy_override = False, timeout = 10\<rparr>"

definition es_request :: ni_notification where
  "es_request = \<lparr>ntype = GPS_NI_TYPE_EMERGENCY_SUPL, privacy_override = False, timeout = 10\<rparr>"

text \<open>
  A SUPL request is in progress, an emergency request comes and is accepted: the thread of the
  SUPL session frees its data.
\<close>

definition es_accepted :: "ni_event list" where
  "es_accepted = [Request supl_request (Some 1), Thread False 0, Request es_request (Some 2),
     Thread False 1, Respond 2 GPS_NI_RESPONSE_ACCEPT, Thread False 0, Thread False 1,
     Thread False 0, Thread False 0, Inform]"

text \<open>
  An accepted emergency request ends a SUPL request that is in progress: the SUPL request's
  data is freed, the modem is told of the emergency request only, and both sessions are over.
\<close>
theorem ni_es_ends_supl:
  "ni_run (ni_start 0) es_accepted (ni_exec es_accepted (ni_start 0))
   \<and> informed (ni_exec es_accepted (ni_start 0)) = [(GPS_NI_RESPONSE_ACCEPT, 2)]
   \<and> freed (ni_exec es_accepted (ni_start 0)) = [1, 2]
   \<and> ni_idle (ni_exec es_accepted (ni_start 0))"
  unfolding ni_run_iff by code_simp

text \<open>
  The user has accepted request 1; request 2 is under way when the modem restarts, and request 3
  comes before the thread of request 2 has been scheduled.
\<close>

definition restart_then_request :: "ni_event list" where
  "restart_then_request = [Request supl_request (Some 1), Thread False 0,
     Respond 1 GPS_NI_RESPONSE_ACCEPT, Thread False 0, Thread False 0, Inform,
     Request supl_request (Some 2), Thread False 0, Restart,
     Request supl_request (Some 3), Thread False 0, Thread False 0, Inform]"

text \<open>
  The engine can accept a request the user has not answered.  \<open>respRecvd\<close> is set by the
  restart to end the old thread, but the thread does not tell the old request from a new one: it
  takes the data of the request that came since and sends it with the answer the session still
  holds from an earlier request.
\<close>
theorem ni_restart_answers_new_request:
  "ni_run (ni_start 0) restart_then_request (ni_exec restart_then_request (ni_start 0))
   \<and> (GPS_NI_RESPONSE_ACCEPT, 3) \<in> set (informed (ni_exec restart_then_request (ni_start 0)))
   \<and> {i. \<exists>r. Respond i r \<in> set restart_then_request} \<subseteq> {1}
   \<and> notified (ni_exec restart_then_request (ni_start 0)) = [1, 2, 3]"
proof -
  have "(GPS_NI_RESPONSE_ACCEPT, 3) \<in> set (informed (ni_exec restart_then_request (ni_start 0)))"
    "all_enabled restart_then_request (ni_start 0)"
    "notified (ni_exec restart_then_request (ni_start 0)) = [1, 2, 3]"
    by code_simp+
  then show ?thesis by (auto simp: ni_run_iff restart_then_request_def)
qed

text \<open>
  The thread has taken request 1 and released the lock; request 2 begins before the thread clears
  \<open>reqID\<close>.
\<close>

definition late_clear :: "ni_event list" where
  "late_clear = [Request supl_request (Some 1), Thread False 0, Respond 1 GPS_NI_RESPONSE_DENY,
     Thread False 0, Request supl_request (Some 2), Thread False 0]"

text \<open>
  A thread that clears the session behind the lock takes the id of the request that follows,
  so that the user's answer under that id is refused as not belonging to an active session, while
  an answer under id 0 would be taken.
\<close>
theorem ni_late_clear_loses_answer:
  "ni_run (ni_start 0) late_clear (ni_exec late_clear (ni_start 0))
   \<and> rawRequest (session (ni_exec late_clear (ni_start 0))) = Some 2
   \<and> last (notified (ni_exec late_clear (ni_start 0))) = 2
   \<and> loc_eng_ni_respond 2 r (ni_exec late_clear (ni_start 0)) = ni_exec late_clear (ni_start 0)
   \<and> respRecvd (session (loc_eng_ni_respond 0 r (ni_exec late_clear (ni_start 0))))"
proof -
  let ?s = "ni_exec late_clear (ni_start 0)"
  have "all_enabled late_clear (ni_start 0)" "rawRequest (session ?s) = Some 2"
    "ni_notify_cb ?s" "last (notified ?s) = 2" "reqID (session ?s) = 0" "rawRequest (sessionEs ?s) = None"
    by code_simp+
  then show ?thesis by (simp add: ni_run_iff loc_eng_ni_respond_def post_response_def)
qed

text \<open>
  The restart frees the data before it takes the lock and clears the pointer.  When the
  thread's wait ends between the two, the thread takes the freed data, and once its answer has
  been handled the data has been freed twice.
\<close>
theorem ni_restart_double_free:
  assumes "ni_idle st"
  shows "\<exists>s1 s2. s1 = ni_exec [Request supl_request (Some p), Thread False 0] st
    \<and> s2 = ni_exec [Thread True 0, Thread False 0, Inform] (restart_free SUPL s1)
    \<and> freed s2 = freed st @ [p, p]"
proof -
  have s: "ni_session_of supl_request = SUPL" by (simp add: ni_session_of_def supl_request_def)
  let ?s1 = "ni_exec [Request supl_request (Some p), Thread False 0] st"
  obtain u where w: "in_progress st SUPL (reqIDCounter st + 1) p None (Waiting u) ?s1"
    using in_progress_wait [OF in_progress_request [OF assms, of supl_request p]] s by auto
  let ?st = "st\<lparr>freed := freed st @ [p]\<rparr>"
  have "in_progress ?st SUPL (reqIDCounter st + 1) p None (Waiting u) (restart_free SUPL ?s1)"
    using w by (simp add: in_progress_def restart_free_def free_opt_def)
  from taken_inform [OF taken_unlock [OF taken_timeout [OF this]]]
  show ?thesis by (simp add: ni_told_def)
qed

theorem ni_restart_double_free_witness:
  "\<exists>s1 s2. s1 = ni_exec [Request supl_request (Some 5), Thread False 0] (ni_start 0)
    \<and> s2 = ni_exec [Thread True 0, Thread False 0, Inform] (restart_free SUPL s1)
    \<and> freed s2 = freed (ni_start 0) @ [5, 5]"
  by (rule ni_restart_double_free)
    (simp add: ni_idle_def ni_start_def loc_eng_ni_init_def ni_zero_def cleared_session_def
      zero_session_def)

section \<open>Instances\<close>

lemma es_accepted_run: "ni_run (ni_start 0) es_accepted (ni_exec es_accepted (ni_start 0))"
  unfolding ni_run_iff by code_simp



end
