(* ===== verification/Loc_Agps.thy ===== *)
theory Loc_Agps
  imports Linked_List
begin

text \<open>
  The state machines of \<open>loc_eng_agps.cpp\<close>, which acquire a network interface on behalf of their
  subscribers. The subscriber list is the item list of the linked list (head first); that the
  pointer operations implement it is proved in \<open>Linked_List\<close>. What a machine tells the rest of
  the system (the daemon connection, the adapter, the servicer's callback, the timer) is a list
  of outputs. A subscriber that is passed by pointer from the list is its position in the list.
\<close>

section \<open>Data\<close>

datatype AgpsRsrcStatus =
  RSRC_SUBSCRIBE | RSRC_UNSUBSCRIBE | RSRC_GRANTED | RSRC_RELEASED | RSRC_DENIED | RSRC_STATUS_MAX

datatype servicerType = servicerTypeNoCbParam | servicerTypeAgps | servicerTypeExt

datatype AGpsStatusValue = GPS_REQUEST_AGPS_DATA_CONN | GPS_RELEASE_AGPS_DATA_CONN

datatype data_conn_status =
  GPSONE_LOC_API_IF_REQUEST_SUCCESS | GPSONE_LOC_API_IF_RELEASE_SUCCESS | GPSONE_LOC_API_IF_FAILURE

text \<open>\<open>AGpsExtType\<close>, \<open>AGpsBearerType\<close> and the sender ids are small integers.\<close>

abbreviation "AGPS_TYPE_INVALID \<equiv> (-1 :: int)"
abbreviation "AGPS_TYPE_SUPL \<equiv> (1 :: int)"
abbreviation "AGPS_APN_BEARER_INVALID \<equiv> (-1 :: int)"
abbreviation "LOC_ENG_IF_REQUEST_SENDER_ID_GPSONE_DAEMON \<equiv> (3 :: int)"
abbreviation "INADDR_NONE \<equiv> (0xFFFFFFFF :: uint32)"
abbreviation "SSID_BUF_SIZE \<equiv> (33 :: nat)"

text \<open>The four kinds of subscribers, with the members the state machines read.\<close>

datatype subscriber =
    BITSubscriber (ID: uint32) (mIPv6Addr: "uint8 list")
  | ATLSubscriber (ID: uint32) (mBackwardCompatibleMode: bool)
  | WIFISubscriber (ID: uint32) (mSSID: "string option") (mPassword: "string option")
      (senderId: int) (wifi_inactive: bool)
  | DSSubscriber (ID: uint32) (ds_inactive: bool)

datatype agps_out =
    Server_data_conn int data_conn_status
  | Atl_open_status uint32 int "string option" int int
  | Atl_close_status uint32 int
  | Close_data_call
  | Request_ATL uint32 int
  | Request_SuplES uint32
  | Timer_start nat
  | Servicer_request servicerType AGpsStatusValue int string string

text \<open>A notification; \<open>rcver\<close> is the subscriber pointed to, and the constructors follow.\<close>

datatype broadcast = BROADCAST_ALL | BROADCAST_ACTIVE | BROADCAST_INACTIVE

record Notification =
  rcver :: "subscriber option"
  groupID :: "broadcast option"
  rsrcStatus :: AgpsRsrcStatus
  postNotifyDelete :: bool

definition note_broadcast :: "broadcast \<Rightarrow> AgpsRsrcStatus \<Rightarrow> bool \<Rightarrow> Notification" where
  "note_broadcast b st del =
     \<lparr>rcver = None, groupID = Some b, rsrcStatus = st, postNotifyDelete = del\<rparr>"

definition note_to :: "subscriber \<Rightarrow> AgpsRsrcStatus \<Rightarrow> bool \<Rightarrow> Notification" where
  "note_to s st del = \<lparr>rcver = Some s, groupID = None, rsrcStatus = st, postNotifyDelete = del\<rparr>"

datatype agps_state = ReleasedState | PendingState | AcquiredState | ReleasingState

text \<open>
  A state machine; \<open>is_ds\<close> tells a \<open>DSStateMachine\<close>, which overrides some operations. The last
  two members are histories: the outputs, and how many searches compared a subscriber with one
  that had been deleted before.
\<close>

record agps_sm =
  mSubscribers :: "subscriber list"
  mStatePtr :: agps_state
  mServicer :: servicerType
  mType :: int
  mAPN :: "string option"
  mAPNLen :: nat
  mBearer :: int
  mEnforceSingleSubscriber :: bool
  is_ds :: bool
  mRetries :: uint8
  outs :: "agps_out list"
  freed_reads :: nat

definition emit :: "agps_out \<Rightarrow> agps_sm \<Rightarrow> agps_sm" where
  "emit x m = m\<lparr>outs := outs m @ [x]\<rparr>"

section \<open>Subscribers\<close>

text \<open>\<open>strncmp\<close> on two arrays of 16 characters compares them up to the first zero.\<close>

definition c_chars16 :: "uint8 list \<Rightarrow> uint8 list" where
  "c_chars16 xs = takeWhile (\<lambda>c. c \<noteq> 0) (take 16 xs)"

fun equals :: "subscriber \<Rightarrow> subscriber \<Rightarrow> bool" where
  "equals (BITSubscriber i v6) s \<longleftrightarrow>
     i = ID s \<and> (i \<noteq> INADDR_NONE \<or> c_chars16 v6 = c_chars16 (mIPv6Addr s))"
| "equals t s \<longleftrightarrow> ID t = ID s"

fun isInactive :: "subscriber \<Rightarrow> bool" where
  "isInactive (WIFISubscriber i ssid pw sender inact) = inact"
| "isInactive (DSSubscriber i inact) = inact"
| "isInactive s = False"

fun waitForCloseComplete :: "subscriber \<Rightarrow> bool" where
  "waitForCloseComplete (WIFISubscriber i ssid pw sender inact) = True"
| "waitForCloseComplete (DSSubscriber i inact) = True"
| "waitForCloseComplete s = False"

definition strlcpy33 :: "string \<Rightarrow> string" where
  "strlcpy33 s = take (SSID_BUF_SIZE - 1) s"

text \<open>The constructors of subscribers that compute their members.\<close>

definition new_BITSubscriber :: "uint32 \<Rightarrow> uint8 list option \<Rightarrow> subscriber" where
  "new_BITSubscriber ipv4 ipv6 =
     BITSubscriber ipv4 (case ipv6 of None \<Rightarrow> [0] | Some a \<Rightarrow> take 16 a)"

definition new_WIFISubscriber :: "string option \<Rightarrow> string option \<Rightarrow> int \<Rightarrow> subscriber" where
  "new_WIFISubscriber ssid pw sender =
     WIFISubscriber (word_of_int sender) (map_option strlcpy33 ssid) (map_option strlcpy33 pw)
       sender False"

text \<open>\<open>clone\<close> constructs a new object, so a clone is active.\<close>

fun clone :: "subscriber \<Rightarrow> subscriber" where
  "clone (BITSubscriber i v6) = new_BITSubscriber i (Some v6)"
| "clone (ATLSubscriber i bcm) = ATLSubscriber i bcm"
| "clone (WIFISubscriber i ssid pw sender inact) = new_WIFISubscriber ssid pw sender"
| "clone (DSSubscriber i inact) = DSSubscriber i False"

definition forMe :: "subscriber \<Rightarrow> Notification \<Rightarrow> bool" where
  "forMe s n =
     (case rcver n of
        Some r \<Rightarrow> equals s r
      | None \<Rightarrow>
          groupID n = Some BROADCAST_ALL \<or>
          (groupID n = Some BROADCAST_ACTIVE \<and> \<not> isInactive s) \<or>
          (groupID n = Some BROADCAST_INACTIVE \<and> isInactive s))"

text \<open>\<open>DSStateMachine::informStatus\<close>.\<close>

fun informStatus :: "AgpsRsrcStatus \<Rightarrow> uint32 \<Rightarrow> agps_sm \<Rightarrow> agps_sm" where
  "informStatus RSRC_UNSUBSCRIBE i m = emit (Atl_close_status i 1) m"
| "informStatus RSRC_RELEASED i m = emit Close_data_call m"
| "informStatus RSRC_DENIED i m = emit (Request_ATL i AGPS_TYPE_SUPL) (m\<lparr>mRetries := 0\<rparr>)"
| "informStatus RSRC_GRANTED i m =
     emit (Atl_open_status i 1 None AGPS_APN_BEARER_INVALID AGPS_TYPE_INVALID) m"
| "informStatus _ i m = m"

text \<open>What each kind of subscriber does with a status; \<open>None\<close> is the default branch.\<close>

fun rsrc_reaction :: "subscriber \<Rightarrow> AgpsRsrcStatus \<Rightarrow> agps_sm \<Rightarrow> agps_sm option" where
  "rsrc_reaction (BITSubscriber i v6) st m =
     (if st = RSRC_UNSUBSCRIBE \<or> st = RSRC_RELEASED
      then Some (emit (Server_data_conn LOC_ENG_IF_REQUEST_SENDER_ID_GPSONE_DAEMON
                         GPSONE_LOC_API_IF_RELEASE_SUCCESS) m)
      else if st = RSRC_DENIED
      then Some (emit (Server_data_conn LOC_ENG_IF_REQUEST_SENDER_ID_GPSONE_DAEMON
                         GPSONE_LOC_API_IF_FAILURE) m)
      else if st = RSRC_GRANTED
      then Some (emit (Server_data_conn LOC_ENG_IF_REQUEST_SENDER_ID_GPSONE_DAEMON
                         GPSONE_LOC_API_IF_REQUEST_SUCCESS) m)
      else None)"
| "rsrc_reaction (ATLSubscriber i bcm) st m =
     (let type = (if bcm then AGPS_TYPE_INVALID else mType m)
      in if st = RSRC_UNSUBSCRIBE \<or> st = RSRC_RELEASED then Some (emit (Atl_close_status i 1) m)
         else if st = RSRC_DENIED
         then Some (emit (Atl_open_status i 0 (mAPN m) (mBearer m) type) m)
         else if st = RSRC_GRANTED
         then Some (emit (Atl_open_status i 1 (mAPN m) (mBearer m) type) m)
         else None)"
| "rsrc_reaction (WIFISubscriber i ssid pw sender inact) st m =
     (if st = RSRC_UNSUBSCRIBE then Some m
      else if st = RSRC_RELEASED
      then Some (emit (Server_data_conn sender GPSONE_LOC_API_IF_RELEASE_SUCCESS) m)
      else if st = RSRC_DENIED
      then Some (emit (Server_data_conn sender GPSONE_LOC_API_IF_FAILURE) m)
      else if st = RSRC_GRANTED
      then Some (emit (Server_data_conn sender GPSONE_LOC_API_IF_REQUEST_SUCCESS) m)
      else None)"
| "rsrc_reaction (DSSubscriber i inact) st m =
     (if st = RSRC_UNSUBSCRIBE \<or> st = RSRC_RELEASED \<or> st = RSRC_DENIED \<or> st = RSRC_GRANTED
      then Some (informStatus st i m) else None)"

definition notifyRsrcStatus :: "Notification \<Rightarrow> subscriber \<Rightarrow> agps_sm \<Rightarrow> bool \<times> agps_sm" where
  "notifyRsrcStatus n s m =
     (if \<not> forMe s n then (False, m)
      else (case rsrc_reaction s (rsrcStatus n) m of None \<Rightarrow> (False, m) | Some m' \<Rightarrow> (True, m')))"

text \<open>\<open>setInactive\<close>; a DS subscriber also informs its machine.\<close>

fun setInactive :: "subscriber \<Rightarrow> agps_sm \<Rightarrow> subscriber \<times> agps_sm" where
  "setInactive (WIFISubscriber i ssid pw sender inact) m = (WIFISubscriber i ssid pw sender True, m)"
| "setInactive (DSSubscriber i inact) m = (DSSubscriber i True, informStatus RSRC_UNSUBSCRIBE i m)"
| "setInactive s m = (s, m)"

section \<open>The machine's use of its list\<close>

text \<open>\<open>linked_list_search\<close> on the subscriber list, with the callbacks the machine passes.\<close>

definition list_search ::
  "(subscriber \<Rightarrow> agps_sm \<Rightarrow> bool \<times> agps_sm) \<Rightarrow> bool \<Rightarrow> subscriber list \<Rightarrow> agps_sm \<Rightarrow>
   subscriber list \<times> subscriber option \<times> agps_sm" where
  "list_search eq rm subs m =
     (let (xs, d, m') = search_items eq True rm
        (map (\<lambda>s. (s, None :: (subscriber \<Rightarrow> agps_sm \<Rightarrow> agps_sm) option)) subs) m
      in (map fst xs, d, m'))"

definition hasSubscriber :: "Notification \<Rightarrow> subscriber \<Rightarrow> agps_sm \<Rightarrow> bool \<times> agps_sm" where
  "hasSubscriber n s m = (forMe s n, m)"

definition notifySubscriber :: "Notification \<Rightarrow> subscriber \<Rightarrow> agps_sm \<Rightarrow> bool \<times> agps_sm" where
  "notifySubscriber n s m =
     (let (r, m') = notifyRsrcStatus n s m in (r \<and> postNotifyDelete n, m'))"

lemma list_search_Nil [simp]: "list_search eq rm [] m = ([], None, m)"
  by (simp add: list_search_def)

lemma list_search_Cons [simp]:
  "list_search eq rm (s # subs) m =
     (let (found, m1) = eq s m
      in if found then (if rm then subs else s # subs, Some s, m1)
         else (let (xs, d, m2) = list_search eq rm subs m1 in (s # xs, d, m2)))"
  by (simp add: list_search_def Let_def dealloc_item_def comp_def split: prod.splits)

lemma list_search_shorter:
  "list_search eq True subs m = (subs', Some s, m') \<Longrightarrow> length subs' < length subs"
  by (induction subs arbitrary: m subs' m') (auto simp: Let_def split: prod.splits if_splits)

text \<open>
  The loop of \<open>notifySubscribers\<close> that deletes what it has notified. When the notification is
  for one subscriber of the list, that object is gone after the first turn and the comparisons
  of the next turn, if there are any, read it: such a turn is counted in \<open>freed_reads\<close>, and goes
  on as if the memory still held the object.
\<close>

function notify_delete_loop ::
  "Notification \<Rightarrow> subscriber list \<Rightarrow> agps_sm \<Rightarrow> subscriber list \<times> agps_sm" where
  "notify_delete_loop n subs m =
     (case list_search (notifySubscriber n) True subs m of
        (subs', None, m') \<Rightarrow> (subs', m')
      | (subs', Some s, m') \<Rightarrow>
          notify_delete_loop n subs'
            (if rcver n \<noteq> None then m'\<lparr>freed_reads := freed_reads m' + (if subs' = [] then 0 else 1)\<rparr> else m'))"
  by pat_completeness auto
termination
  by (relation "measure (\<lambda>(n, subs, m). length subs)") (auto dest: list_search_shorter [OF sym])

declare notify_delete_loop.simps [simp del]

definition notifySubscribers :: "Notification \<Rightarrow> agps_sm \<Rightarrow> agps_sm" where
  "notifySubscribers n m =
     (if postNotifyDelete n
      then (let (subs, m') = notify_delete_loop n (mSubscribers m) m in m'\<lparr>mSubscribers := subs\<rparr>)
      else (let (subs, d, m') = list_search (notifySubscriber n) False (mSubscribers m) m in m'))"

definition find_subscriber :: "Notification \<Rightarrow> agps_sm \<Rightarrow> subscriber option" where
  "find_subscriber n m = fst (snd (list_search (hasSubscriber n) False (mSubscribers m) m))"

definition hasSubscribers :: "agps_sm \<Rightarrow> bool" where
  "hasSubscribers m \<longleftrightarrow> mSubscribers m \<noteq> []"

definition hasActiveSubscribers :: "agps_sm \<Rightarrow> bool" where
  "hasActiveSubscribers m \<longleftrightarrow>
     find_subscriber (note_broadcast BROADCAST_ACTIVE RSRC_STATUS_MAX False) m \<noteq> None"

definition addSubscriber :: "subscriber \<Rightarrow> agps_sm \<Rightarrow> agps_sm" where
  "addSubscriber s m =
     (if find_subscriber (note_to s RSRC_STATUS_MAX False) m = None
      then m\<lparr>mSubscribers := clone s # mSubscribers m\<rparr> else m)"

definition dropAllSubscribers :: "agps_sm \<Rightarrow> agps_sm" where
  "dropAllSubscribers m = m\<lparr>mSubscribers := []\<rparr>"

section \<open>Requests to the servicer\<close>

text \<open>
  \<open>AgpsStateMachine::sendRsrcRequest\<close>: an active subscriber gives the Wi-Fi information. The
  result of \<open>requestRsrc\<close> is not used.
\<close>

fun setWifiInfo :: "subscriber \<Rightarrow> string \<times> string" where
  "setWifiInfo (WIFISubscriber i ssid pw sender inact) =
     ((case ssid of None \<Rightarrow> [] | Some x \<Rightarrow> strlcpy33 x),
      (case pw of None \<Rightarrow> [] | Some x \<Rightarrow> strlcpy33 x))"
| "setWifiInfo s = ([], [])"

definition agps_sendRsrcRequest :: "AGpsStatusValue \<Rightarrow> agps_sm \<Rightarrow> int \<times> agps_sm" where
  "agps_sendRsrcRequest action m =
     (let s = find_subscriber (note_broadcast BROADCAST_ACTIVE RSRC_STATUS_MAX False) m
      in if (s = None) = (action = GPS_RELEASE_AGPS_DATA_CONN)
         then (0, emit (case s of
                          None \<Rightarrow> Servicer_request (mServicer m) action (mType m) [] []
                        | Some x \<Rightarrow> Servicer_request (mServicer m) action (mType m)
                                      (fst (setWifiInfo x)) (snd (setWifiInfo x))) m)
         else (0, m))"

text \<open>
  \<open>DSStateMachine::sendRsrcRequest\<close>; \<open>ret\<close> is what the servicer's callback returns. The error
  codes are those of \<open>loc_api_adapter_err\<close>. \<open>loc_timer_start\<close> gives a handle, so the branch for
  a non-\<open>NULL\<close> result is taken. The counter of retries is an \<open>unsigned char\<close>. Without an active
  subscriber the connection handle is -1.
\<close>

abbreviation "LOC_API_ADAPTER_ERR_SUCCESS \<equiv> (0 :: int)"
abbreviation "LOC_API_ADAPTER_ERR_UNSUPPORTED \<equiv> (2 :: int)"
abbreviation "LOC_API_ADAPTER_ERR_ENGINE_BUSY \<equiv> (6 :: int)"
abbreviation "MAX_START_DATA_CALL_RETRIES \<equiv> (4 :: uint8)"
abbreviation "DATA_CALL_RETRY_DELAY_MSEC \<equiv> (500 :: nat)"

definition ds_sendRsrcRequest :: "int \<Rightarrow> AGpsStatusValue \<Rightarrow> agps_sm \<Rightarrow> int \<times> agps_sm" where
  "ds_sendRsrcRequest ret action m =
     (let s = find_subscriber (note_broadcast BROADCAST_ACTIVE RSRC_STATUS_MAX False) m;
          connHandle = (case s of None \<Rightarrow> -1 | Some x \<Rightarrow> ID x);
          m1 = emit (Servicer_request (mServicer m) action (mType m) [] []) m
      in if ret = LOC_API_ADAPTER_ERR_ENGINE_BUSY
         then (let m2 = m1\<lparr>mRetries := mRetries m1 + 1\<rparr>
               in if mRetries m2 > MAX_START_DATA_CALL_RETRIES
                  then (ret, informStatus RSRC_DENIED connHandle m2)
                  else (-1, emit (Timer_start DATA_CALL_RETRY_DELAY_MSEC) m2))
         else if ret = LOC_API_ADAPTER_ERR_UNSUPPORTED
         then (ret, informStatus RSRC_DENIED connHandle m1)
         else if ret = LOC_API_ADAPTER_ERR_SUCCESS then (ret, m1)
         else if ret = -1 then (ret, informStatus RSRC_DENIED connHandle m1)
         else (ret, m1))"

definition sendRsrcRequest :: "int \<Rightarrow> AGpsStatusValue \<Rightarrow> agps_sm \<Rightarrow> int \<times> agps_sm" where
  "sendRsrcRequest ret action m =
     (if is_ds m then ds_sendRsrcRequest ret action m else agps_sendRsrcRequest action m)"

section \<open>The states\<close>

text \<open>
  \<open>unsubscribe_at\<close> is what the pending, the acquired and the releasing state do first with the
  subscriber at a position of the list. In these and the following definitions \<open>ret\<close> is the
  servicer's answer, should the state send a request.
\<close>

definition unsubscribe_at :: "nat \<Rightarrow> agps_sm \<Rightarrow> agps_sm" where
  "unsubscribe_at i m =
     (let s = mSubscribers m ! i
      in if waitForCloseComplete s
         then (let (s', m') = setInactive s m in m'\<lparr>mSubscribers := (mSubscribers m')[i := s']\<rparr>)
         else notifySubscribers (note_to s RSRC_UNSUBSCRIBE True) m)"

text \<open>The subscriber that comes with an event: the caller's, or one of the list, or none.\<close>

datatype event_data = Caller subscriber | Listed nat | No_data

fun data_subscriber :: "event_data \<Rightarrow> agps_sm \<Rightarrow> subscriber option" where
  "data_subscriber (Caller s) m = Some s"
| "data_subscriber (Listed i) m = Some (mSubscribers m ! i)"
| "data_subscriber No_data m = None"

definition released_onRsrcEvent ::
  "int \<Rightarrow> AgpsRsrcStatus \<Rightarrow> event_data \<Rightarrow> agps_sm \<Rightarrow> agps_state \<times> agps_sm" where
  "released_onRsrcEvent ret event data m =
     (case (event, data_subscriber data m) of
        (RSRC_SUBSCRIBE, Some s) \<Rightarrow>
          let (r, m') = sendRsrcRequest ret GPS_REQUEST_AGPS_DATA_CONN (addSubscriber s m)
          in (if r = 0 then PendingState else ReleasedState, m')
      | (RSRC_UNSUBSCRIBE, Some s) \<Rightarrow>
          (ReleasedState, snd (notifyRsrcStatus (note_to s event False) s m))
      | _ \<Rightarrow> (ReleasedState, m))"

definition pending_onRsrcEvent ::
  "int \<Rightarrow> AgpsRsrcStatus \<Rightarrow> event_data \<Rightarrow> agps_sm \<Rightarrow> agps_state \<times> agps_sm" where
  "pending_onRsrcEvent ret event data m =
     (case (event, data) of
        (RSRC_SUBSCRIBE, Caller s) \<Rightarrow> (PendingState, addSubscriber s m)
      | (RSRC_UNSUBSCRIBE, Listed i) \<Rightarrow>
          let m1 = unsubscribe_at i m
          in if \<not> hasSubscribers m1
             then (ReleasedState, snd (sendRsrcRequest ret GPS_RELEASE_AGPS_DATA_CONN m1))
             else if \<not> hasActiveSubscribers m1
             then (ReleasingState, snd (sendRsrcRequest ret GPS_RELEASE_AGPS_DATA_CONN m1))
             else (PendingState, m1)
      | (RSRC_GRANTED, _) \<Rightarrow>
          (AcquiredState, notifySubscribers (note_broadcast BROADCAST_ACTIVE event False) m)
      | (RSRC_DENIED, _) \<Rightarrow>
          (ReleasedState, notifySubscribers (note_broadcast BROADCAST_ALL event True) m)
      | _ \<Rightarrow> (PendingState, m))"

definition acquired_onRsrcEvent ::
  "int \<Rightarrow> AgpsRsrcStatus \<Rightarrow> event_data \<Rightarrow> agps_sm \<Rightarrow> agps_state \<times> agps_sm" where
  "acquired_onRsrcEvent ret event data m =
     (case (event, data) of
        (RSRC_SUBSCRIBE, Caller s) \<Rightarrow>
          (AcquiredState,
           addSubscriber s (snd (notifyRsrcStatus (note_to s RSRC_GRANTED False) s m)))
      | (RSRC_UNSUBSCRIBE, Listed i) \<Rightarrow>
          let m1 = unsubscribe_at i m
          in if \<not> hasSubscribers m1
             then (ReleasedState, snd (sendRsrcRequest ret GPS_RELEASE_AGPS_DATA_CONN m1))
             else if \<not> hasActiveSubscribers m1
             then (ReleasingState, snd (sendRsrcRequest ret GPS_RELEASE_AGPS_DATA_CONN m1))
             else (AcquiredState, m1)
      | (RSRC_RELEASED, _) \<Rightarrow>
          (ReleasedState, notifySubscribers (note_broadcast BROADCAST_ALL event True) m)
      | _ \<Rightarrow> (AcquiredState, m))"

definition releasing_onRsrcEvent ::
  "int \<Rightarrow> AgpsRsrcStatus \<Rightarrow> event_data \<Rightarrow> agps_sm \<Rightarrow> agps_state \<times> agps_sm" where
  "releasing_onRsrcEvent ret event data m =
     (case (event, data) of
        (RSRC_SUBSCRIBE, Caller s) \<Rightarrow> (ReleasingState, addSubscriber s m)
      | (RSRC_UNSUBSCRIBE, Listed i) \<Rightarrow>
          let m1 = unsubscribe_at i m
          in (if \<not> hasSubscribers m1 then ReleasedState else ReleasingState, m1)
      | (RSRC_GRANTED, _) \<Rightarrow> (ReleasingState, m)
      | (ev, _) \<Rightarrow>
          if ev = RSRC_DENIED \<or> ev = RSRC_RELEASED
          then (let m1 = notifySubscribers (note_broadcast BROADCAST_INACTIVE event True) m
                in if hasActiveSubscribers m1
                   then (PendingState, snd (sendRsrcRequest ret GPS_REQUEST_AGPS_DATA_CONN m1))
                   else (ReleasedState, m1))
          else (ReleasingState, m))"

fun state_onRsrcEvent ::
  "agps_state \<Rightarrow> int \<Rightarrow> AgpsRsrcStatus \<Rightarrow> event_data \<Rightarrow> agps_sm \<Rightarrow> agps_state \<times> agps_sm" where
  "state_onRsrcEvent ReleasedState = released_onRsrcEvent"
| "state_onRsrcEvent PendingState = pending_onRsrcEvent"
| "state_onRsrcEvent AcquiredState = acquired_onRsrcEvent"
| "state_onRsrcEvent ReleasingState = releasing_onRsrcEvent"

text \<open>\<open>mStatePtr = mStatePtr->onRsrcEvent(event, data)\<close>.\<close>

definition dispatch :: "int \<Rightarrow> AgpsRsrcStatus \<Rightarrow> event_data \<Rightarrow> agps_sm \<Rightarrow> agps_sm" where
  "dispatch ret event data m =
     (let (st, m') = state_onRsrcEvent (mStatePtr m) ret event data m in m'\<lparr>mStatePtr := st\<rparr>)"

section \<open>The machine's operations\<close>

definition new_AgpsStateMachine :: "servicerType \<Rightarrow> int \<Rightarrow> bool \<Rightarrow> agps_sm" where
  "new_AgpsStateMachine servType type enforceSingleSubscriber =
     \<lparr>mSubscribers = [], mStatePtr = ReleasedState, mServicer = servType, mType = type,
      mAPN = None, mAPNLen = 0, mBearer = AGPS_APN_BEARER_INVALID,
      mEnforceSingleSubscriber = enforceSingleSubscriber, is_ds = False, mRetries = 0,
      outs = [], freed_reads = 0\<rparr>"

definition new_DSStateMachine :: "servicerType \<Rightarrow> agps_sm" where
  "new_DSStateMachine servType =
     (new_AgpsStateMachine servType AGPS_TYPE_INVALID False)\<lparr>is_ds := True\<rparr>"

definition setAPN :: "string option \<Rightarrow> nat \<Rightarrow> agps_sm \<Rightarrow> agps_sm" where
  "setAPN apn len m =
     (case apn of
        None \<Rightarrow> m\<lparr>mAPN := None, mAPNLen := 0\<rparr>
      | Some a \<Rightarrow> m\<lparr>mAPN := Some (take len a), mAPNLen := len\<rparr>)"

definition setBearer :: "int \<Rightarrow> agps_sm \<Rightarrow> agps_sm" where
  "setBearer bearer m = m\<lparr>mBearer := bearer\<rparr>"

definition subscribeRsrc :: "int \<Rightarrow> subscriber \<Rightarrow> agps_sm \<Rightarrow> agps_sm" where
  "subscribeRsrc ret s m =
     (if mEnforceSingleSubscriber m \<and> hasSubscribers m
      then snd (notifySubscriber (note_broadcast BROADCAST_ALL RSRC_DENIED True) s m)
      else dispatch ret RSRC_SUBSCRIBE (Caller s) m)"

text \<open>The position of the first subscriber of the list that equals the given one.\<close>

fun position :: "('a \<Rightarrow> bool) \<Rightarrow> 'a list \<Rightarrow> nat option" where
  "position P [] = None"
| "position P (x # xs) = (if P x then Some 0 else map_option Suc (position P xs))"

definition unsubscribeRsrc :: "int \<Rightarrow> subscriber \<Rightarrow> agps_sm \<Rightarrow> bool \<times> agps_sm" where
  "unsubscribeRsrc ret s m =
     (case position (\<lambda>t. forMe t (note_to s RSRC_STATUS_MAX False)) (mSubscribers m) of
        Some i \<Rightarrow> (True, dispatch ret RSRC_UNSUBSCRIBE (Listed i) m)
      | None \<Rightarrow> (False, m))"

definition agps_onRsrcEvent :: "int \<Rightarrow> AgpsRsrcStatus \<Rightarrow> agps_sm \<Rightarrow> agps_sm" where
  "agps_onRsrcEvent ret event m =
     (if event \<in> {RSRC_GRANTED, RSRC_RELEASED, RSRC_DENIED} then dispatch ret event No_data m else m)"

definition ds_onRsrcEvent :: "int \<Rightarrow> AgpsRsrcStatus \<Rightarrow> agps_sm \<Rightarrow> agps_sm" where
  "ds_onRsrcEvent ret event m =
     (if event = RSRC_GRANTED then dispatch ret event No_data m
      else if event = RSRC_RELEASED
      then (let m1 = dispatch ret event No_data m
            in if mStatePtr m1 \<noteq> mStatePtr m then m1 else dispatch ret RSRC_DENIED No_data m1)
      else if event = RSRC_DENIED then dispatch ret event No_data m
      else m)"

definition onRsrcEvent :: "int \<Rightarrow> AgpsRsrcStatus \<Rightarrow> agps_sm \<Rightarrow> agps_sm" where
  "onRsrcEvent ret event m =
     (if is_ds m then ds_onRsrcEvent ret event m else agps_onRsrcEvent ret event m)"

definition retryCallback :: "agps_sm \<Rightarrow> agps_sm" where
  "retryCallback m =
     (case find_subscriber (note_broadcast BROADCAST_ACTIVE RSRC_STATUS_MAX False) m of
        None \<Rightarrow> m
      | Some s \<Rightarrow> emit (Request_SuplES (ID s)) m)"

section \<open>What notifications do\<close>

definition answered :: "AgpsRsrcStatus set" where
  "answered = {RSRC_UNSUBSCRIBE, RSRC_GRANTED, RSRC_RELEASED, RSRC_DENIED}"

fun is_DSSub :: "subscriber \<Rightarrow> bool" where
  "is_DSSub (DSSubscriber i inact) = True"
| "is_DSSub s = False"

text \<open>The outputs with which a subscriber answers a status; only DS subscribers do more.\<close>

definition reply :: "agps_sm \<Rightarrow> AgpsRsrcStatus \<Rightarrow> subscriber \<Rightarrow> agps_out list" where
  "reply m st s = outs (the (rsrc_reaction s st (m\<lparr>outs := []\<rparr>)))"

lemma rsrc_reaction_reply:
  "\<lbrakk>\<not> is_DSSub s; st \<in> answered\<rbrakk> \<Longrightarrow>
   rsrc_reaction s st m = Some (m\<lparr>outs := outs m @ reply m st s\<rparr>)"
  by (cases s) (auto simp: answered_def reply_def emit_def Let_def)

lemma reply_cong:
  "\<lbrakk>mType m' = mType m; mAPN m' = mAPN m; mBearer m' = mBearer m; \<not> is_DSSub s; st \<in> answered\<rbrakk> \<Longrightarrow>
   reply m' st s = reply m st s"
  by (cases s) (auto simp: reply_def emit_def Let_def answered_def)

lemma reply_update [simp]:
  "\<lbrakk>\<not> is_DSSub s; st \<in> answered\<rbrakk> \<Longrightarrow> reply (m\<lparr>outs := x\<rparr>) st s = reply m st s"
  "\<lbrakk>\<not> is_DSSub s; st \<in> answered\<rbrakk> \<Longrightarrow> reply (m\<lparr>freed_reads := k\<rparr>) st s = reply m st s"
  by (rule reply_cong; simp)+

definition replies :: "agps_sm \<Rightarrow> AgpsRsrcStatus \<Rightarrow> subscriber list \<Rightarrow> agps_out list" where
  "replies m st subs = concat (map (reply m st) subs)"

lemma replies_simps [simp]: "replies m st [] = []"
  "replies m st (s # subs) = reply m st s @ replies m st subs"
  "replies m st (xs @ ys) = replies m st xs @ replies m st ys"
  by (simp_all add: replies_def)

lemma replies_update [simp]:
  assumes "\<forall>s \<in> set subs. \<not> is_DSSub s" "st \<in> answered"
  shows "replies (m\<lparr>outs := x\<rparr>) st subs = replies m st subs"
    "replies (m\<lparr>freed_reads := k\<rparr>) st subs = replies m st subs"
  using assms by (induction subs) auto

lemma notify_reply:
  "\<lbrakk>\<not> is_DSSub s; rsrcStatus n \<in> answered\<rbrakk> \<Longrightarrow>
   notifyRsrcStatus n s m =
     (forMe s n, if forMe s n then m\<lparr>outs := outs m @ reply m (rsrcStatus n) s\<rparr> else m)"
  by (simp add: notifyRsrcStatus_def rsrc_reaction_reply)

text \<open>Searching without an effect, and informing everybody without deletion.\<close>

lemma find_subscriber_find: "find_subscriber n m = find (\<lambda>s. forMe s n) (mSubscribers m)"
proof -
  have "fst (snd (list_search (hasSubscriber n) False subs m)) = find (\<lambda>s. forMe s n) subs" for subs
    by (induction subs) (auto simp: hasSubscriber_def Let_def split: prod.splits)
  then show ?thesis by (simp add: find_subscriber_def)
qed

lemma list_search_all:
  assumes "\<forall>s \<in> set subs. \<not> is_DSSub s" "rsrcStatus n \<in> answered" "\<not> postNotifyDelete n"
  shows "list_search (notifySubscriber n) False subs m =
    (subs, None, m\<lparr>outs := outs m @ replies m (rsrcStatus n) (filter (\<lambda>s. forMe s n) subs)\<rparr>)"
  using assms
proof (induction subs arbitrary: m)
  case (Cons s subs)
  then show ?case
    by (cases "forMe s n") (simp_all add: notifySubscriber_def notify_reply)
qed simp

lemma notifySubscribers_keep:
  assumes "\<forall>s \<in> set (mSubscribers m). \<not> is_DSSub s" "rsrcStatus n \<in> answered"
    "\<not> postNotifyDelete n"
  shows "notifySubscribers n m = m\<lparr>outs := outs m @
           replies m (rsrcStatus n) (filter (\<lambda>s. forMe s n) (mSubscribers m))\<rparr>"
  using list_search_all [OF assms] assms(3) by (simp add: notifySubscribers_def)

text \<open>Informing with deletion takes out exactly those informed.\<close>

lemma list_search_first:
  assumes "\<forall>s \<in> set subs. \<not> is_DSSub s" "rsrcStatus n \<in> answered" "postNotifyDelete n"
  shows "list_search (notifySubscriber n) True subs m =
    (case find (\<lambda>s. forMe s n) subs of
       None \<Rightarrow> (subs, None, m)
     | Some s \<Rightarrow> (remove1 s subs, Some s, m\<lparr>outs := outs m @ reply m (rsrcStatus n) s\<rparr>))"
  using assms
  by (induction subs) (auto simp: notifySubscriber_def notify_reply Let_def split: option.splits
      dest: find_Some_iff [THEN iffD1])

text \<open>
  The counter after a deleting notification to one subscriber of the list: every turn but one
  that emptied the list was followed by a search that read the deleted object.
\<close>

definition stale_after :: "Notification \<Rightarrow> subscriber list \<Rightarrow> nat" where
  "stale_after n subs =
     (let k = length (filter (\<lambda>s. forMe s n) subs)
      in if rcver n = None then 0 else if k = length subs then k - 1 else k)"

lemma notify_delete_loop_eq:
  assumes "\<forall>s \<in> set subs. \<not> is_DSSub s" "rsrcStatus n \<in> answered" "postNotifyDelete n"
  shows "notify_delete_loop n subs m =
    (filter (\<lambda>s. \<not> forMe s n) subs,
     m\<lparr>outs := outs m @ replies m (rsrcStatus n) (filter (\<lambda>s. forMe s n) subs),
       freed_reads := freed_reads m + stale_after n subs\<rparr>)"
  using assms
proof (induction "length subs" arbitrary: subs m)
  case 0
  then show ?case by (subst notify_delete_loop.simps) (simp add: stale_after_def)
next
  case (Suc k)
  show ?case
  proof (cases "find (\<lambda>s. forMe s n) subs")
    case None
    then have "filter (\<lambda>s. forMe s n) subs = []" "filter (\<lambda>s. \<not> forMe s n) subs = subs"
      by (auto simp: find_None_iff filter_empty_conv filter_id_conv)
    then show ?thesis
      using None Suc.prems Suc.hyps(2)
      by (subst notify_delete_loop.simps) (auto simp: list_search_first stale_after_def)
  next
    case (Some s)
    obtain ys zs where subs: "subs = ys @ s # zs" "\<forall>y \<in> set ys. \<not> forMe y n" "forMe s n"
      using Some by (induction subs) (auto split: if_splits, metis append_Nil empty_iff list.set(1),
          metis append_Cons set_ConsD)
    then have r: "remove1 s subs = ys @ zs" by (auto simp: remove1_append)
    let ?m = "m\<lparr>outs := outs m @ reply m (rsrcStatus n) s\<rparr>"
    let ?m' = "if rcver n \<noteq> None
      then ?m\<lparr>freed_reads := freed_reads ?m + (if ys @ zs = [] then 0 else 1)\<rparr> else ?m"
    have "notify_delete_loop n subs m = notify_delete_loop n (ys @ zs) ?m'"
      using Some Suc.prems r by (subst notify_delete_loop.simps) (simp add: list_search_first)
    moreover have "k = length (ys @ zs)" using Suc.hyps(2) subs by simp
    ultimately show ?thesis
      using Suc.hyps(1) [of "ys @ zs" ?m'] Suc.prems subs
      by (auto simp: stale_after_def Let_def filter_empty_conv)
  qed
qed

lemma notifySubscribers_delete:
  assumes "\<forall>s \<in> set (mSubscribers m). \<not> is_DSSub s" "rsrcStatus n \<in> answered" "postNotifyDelete n"
  shows "notifySubscribers n m =
    m\<lparr>mSubscribers := filter (\<lambda>s. \<not> forMe s n) (mSubscribers m),
      outs := outs m @ replies m (rsrcStatus n) (filter (\<lambda>s. forMe s n) (mSubscribers m)),
      freed_reads := freed_reads m + stale_after n (mSubscribers m)\<rparr>"
  using notify_delete_loop_eq [OF assms] assms(3) by (simp add: notifySubscribers_def)

section \<open>The invariant of a machine\<close>

text \<open>The requests a machine has made; a release only ever follows a request.\<close>

fun nif_request :: "agps_out \<Rightarrow> AGpsStatusValue list" where
  "nif_request (Servicer_request sv a ty ssid pw) = [a]"
| "nif_request _ = []"

definition nif_log :: "agps_out list \<Rightarrow> AGpsStatusValue list" where
  "nif_log xs = concat (map nif_request xs)"

fun releases_follow :: "AGpsStatusValue option \<Rightarrow> AGpsStatusValue list \<Rightarrow> bool" where
  "releases_follow prev [] = True"
| "releases_follow prev (a # as) \<longleftrightarrow>
     (a = GPS_RELEASE_AGPS_DATA_CONN \<longrightarrow> prev = Some GPS_REQUEST_AGPS_DATA_CONN) \<and>
     releases_follow (Some a) as"

lemma releases_follow_snoc [simp]:
  "releases_follow prev (as @ [a]) \<longleftrightarrow>
     releases_follow prev as \<and>
     (a = GPS_RELEASE_AGPS_DATA_CONN \<longrightarrow>
      last_or prev as = Some GPS_REQUEST_AGPS_DATA_CONN)"
  by (induction as arbitrary: prev) (auto simp: last_or_def)

lemma nif_log_simps [simp]: "nif_log [] = []" "nif_log (xs @ ys) = nif_log xs @ nif_log ys"
  "nif_log [Servicer_request sv a ty ssid pw] = [a]"
  by (simp_all add: nif_log_def)

lemma nif_log_reply [simp]: "\<lbrakk>\<not> is_DSSub s; st \<in> answered\<rbrakk> \<Longrightarrow> nif_log (reply m st s) = []"
  by (cases s) (auto simp: reply_def emit_def answered_def nif_log_def Let_def)

lemma nif_log_replies [simp]:
  "\<lbrakk>\<forall>s \<in> set subs. \<not> is_DSSub s; st \<in> answered\<rbrakk> \<Longrightarrow> nif_log (replies m st subs) = []"
  by (induction subs) auto

definition has_active :: "subscriber list \<Rightarrow> bool" where
  "has_active subs \<longleftrightarrow> (\<exists>s \<in> set subs. \<not> isInactive s)"

definition agps_inv :: "agps_sm \<Rightarrow> bool" where
  "agps_inv m \<longleftrightarrow>
     \<not> is_ds m \<and> (\<forall>s \<in> set (mSubscribers m). \<not> is_DSSub s) \<and>
     (mStatePtr m = ReleasedState \<longleftrightarrow> mSubscribers m = []) \<and>
     (mStatePtr m \<in> {PendingState, AcquiredState} \<longrightarrow>
        has_active (mSubscribers m) \<and>
        last_opt (nif_log (outs m)) = Some GPS_REQUEST_AGPS_DATA_CONN) \<and>
     releases_follow None (nif_log (outs m)) \<and>
     (mEnforceSingleSubscriber m \<longrightarrow> length (mSubscribers m) \<le> 1)"

lemma forMe_active: "forMe s (note_broadcast BROADCAST_ACTIVE st del) = (\<not> isInactive s)"
  and forMe_inactive: "forMe s (note_broadcast BROADCAST_INACTIVE st del) = isInactive s"
  and forMe_all: "forMe s (note_broadcast BROADCAST_ALL st del)"
  by (simp_all add: forMe_def note_broadcast_def)

lemma forMe_to: "forMe s (note_to r st del) = equals s r"
  by (simp add: forMe_def note_to_def)

lemma note_sel [simp]:
  "rsrcStatus (note_broadcast b st del) = st" "postNotifyDelete (note_broadcast b st del) = del"
  "rcver (note_broadcast b st del) = None"
  "rsrcStatus (note_to s st del) = st" "postNotifyDelete (note_to s st del) = del"
  "rcver (note_to s st del) = Some s"
  by (simp_all add: note_broadcast_def note_to_def)

lemma hasActive_iff: "hasActiveSubscribers m = has_active (mSubscribers m)"
  by (auto simp: hasActiveSubscribers_def find_subscriber_find forMe_active find_None_iff has_active_def)

lemma find_active: "(find_subscriber (note_broadcast BROADCAST_ACTIVE st del) m = None) =
   (\<not> has_active (mSubscribers m))"
  by (auto simp: find_subscriber_find forMe_active find_None_iff has_active_def)

lemma clone_active [simp]: "\<not> isInactive (clone s)" "is_DSSub (clone s) = is_DSSub s"
  by (cases s; simp add: new_BITSubscriber_def new_WIFISubscriber_def)+

lemma addSubscriber_frame [simp]:
  "outs (addSubscriber s m) = outs m" "is_ds (addSubscriber s m) = is_ds m"
  "mStatePtr (addSubscriber s m) = mStatePtr m" "freed_reads (addSubscriber s m) = freed_reads m"
  "mEnforceSingleSubscriber (addSubscriber s m) = mEnforceSingleSubscriber m"
  by (simp_all add: addSubscriber_def)

lemma addSubscriber_subs:
  "mSubscribers (addSubscriber s m) = mSubscribers m \<or>
   mSubscribers (addSubscriber s m) = clone s # mSubscribers m"
  by (simp add: addSubscriber_def)

lemma addSubscriber_empty: "mSubscribers m = [] \<Longrightarrow> mSubscribers (addSubscriber s m) = [clone s]"
  by (simp add: addSubscriber_def find_subscriber_find)

text \<open>The request of a plain machine always goes out with the right action.\<close>

lemma agps_request:
  assumes "\<not> is_ds m" "has_active (mSubscribers m) \<longleftrightarrow> action \<noteq> GPS_RELEASE_AGPS_DATA_CONN"
  shows "\<exists>out. sendRsrcRequest ret action m = (0, m\<lparr>outs := outs m @ [out]\<rparr>) \<and> nif_log [out] = [action]"
  using assms find_active [of RSRC_STATUS_MAX False m]
  by (auto simp: sendRsrcRequest_def agps_sendRsrcRequest_def emit_def Let_def split: option.splits)

text \<open>What the unsubscription of a listed subscriber leaves.\<close>

lemma unsubscribe_at_frame:
  assumes "\<forall>s \<in> set (mSubscribers m). \<not> is_DSSub s" "i < length (mSubscribers m)"
  shows "\<exists>subs xs k. unsubscribe_at i m =
             m\<lparr>mSubscribers := subs, outs := outs m @ xs, freed_reads := k\<rparr> \<and>
           (\<forall>s \<in> set subs. \<not> is_DSSub s) \<and> length subs \<le> length (mSubscribers m) \<and> nif_log xs = []"
proof (cases "waitForCloseComplete (mSubscribers m ! i)")
  case True
  then obtain j ssid pw sender inact where
    "mSubscribers m ! i = WIFISubscriber j ssid pw sender inact"
    using assms nth_mem [OF assms(2)] by (cases "mSubscribers m ! i") auto
  then have u: "unsubscribe_at i m =
      m\<lparr>mSubscribers := (mSubscribers m)[i := WIFISubscriber j ssid pw sender True],
        outs := outs m @ [], freed_reads := freed_reads m\<rparr>"
    by (simp add: unsubscribe_at_def)
  have "\<forall>s \<in> set ((mSubscribers m)[i := WIFISubscriber j ssid pw sender True]). \<not> is_DSSub s"
    using assms by (auto dest: set_update_subset_insert [THEN subsetD])
  then show ?thesis
    by (intro exI [of _ "(mSubscribers m)[i := WIFISubscriber j ssid pw sender True]"]
        exI [of _ "[]"] exI [of _ "freed_reads m"]) (use u in auto)
next
  case False
  let ?n = "note_to (mSubscribers m ! i) RSRC_UNSUBSCRIBE True"
  have "unsubscribe_at i m = notifySubscribers ?n m"
    using False by (simp add: unsubscribe_at_def Let_def)
  then show ?thesis
    using notifySubscribers_delete [of m ?n] assms
    by (intro exI conjI, simp add: answered_def) (auto simp: answered_def)
qed

section \<open>Every operation keeps the invariant\<close>

definition dispatched :: "agps_state \<times> agps_sm \<Rightarrow> agps_sm" where
  "dispatched r = (snd r)\<lparr>mStatePtr := fst r\<rparr>"

lemma dispatch_alt: "dispatch ret ev d m = dispatched (state_onRsrcEvent (mStatePtr m) ret ev d m)"
  by (simp add: dispatch_def dispatched_def Let_def split: prod.splits)

lemma inv_subscribe_released:
  assumes "agps_inv m" "mStatePtr m = ReleasedState" "\<not> is_DSSub s"
  shows "agps_inv (dispatched (released_onRsrcEvent ret RSRC_SUBSCRIBE (Caller s) m))"
proof -
  have e: "mSubscribers (addSubscriber s m) = [clone s]"
    using assms addSubscriber_empty by (simp add: agps_inv_def)
  obtain out where "sendRsrcRequest ret GPS_REQUEST_AGPS_DATA_CONN (addSubscriber s m) =
      (0, (addSubscriber s m)\<lparr>outs := outs m @ [out]\<rparr>)" "nif_log [out] = [GPS_REQUEST_AGPS_DATA_CONN]"
    using agps_request [of "addSubscriber s m" GPS_REQUEST_AGPS_DATA_CONN ret] e assms(1)
    by (auto simp: has_active_def agps_inv_def)
  then show ?thesis
    using assms e
    by (simp add: released_onRsrcEvent_def dispatched_def agps_inv_def has_active_def)
qed

lemma inv_unsubscribe:
  assumes "agps_inv m" "mStatePtr m \<in> {PendingState, AcquiredState}" "i < length (mSubscribers m)"
    "m1 = unsubscribe_at i m" "st = mStatePtr m"
  shows "agps_inv (dispatched
     (if \<not> hasSubscribers m1
      then (ReleasedState, snd (sendRsrcRequest ret GPS_RELEASE_AGPS_DATA_CONN m1))
      else if \<not> hasActiveSubscribers m1
      then (ReleasingState, snd (sendRsrcRequest ret GPS_RELEASE_AGPS_DATA_CONN m1))
      else (st, m1)))"
proof -
  obtain subs xs k where m1: "m1 = m\<lparr>mSubscribers := subs, outs := outs m @ xs, freed_reads := k\<rparr>"
    "\<forall>s \<in> set subs. \<not> is_DSSub s" "length subs \<le> length (mSubscribers m)" "nif_log xs = []"
    using unsubscribe_at_frame [of m i] assms by (auto simp: agps_inv_def)
  have rel: "\<not> has_active subs \<Longrightarrow> \<exists>out. sendRsrcRequest ret GPS_RELEASE_AGPS_DATA_CONN m1 =
      (0, m1\<lparr>outs := outs m1 @ [out]\<rparr>) \<and> nif_log [out] = [GPS_RELEASE_AGPS_DATA_CONN]"
    using agps_request [of m1 GPS_RELEASE_AGPS_DATA_CONN ret] assms(1) m1(1) by (simp add: agps_inv_def)
  have pre: "mSubscribers m \<noteq> []" "last_opt (nif_log (outs m)) = Some GPS_REQUEST_AGPS_DATA_CONN"
    "mStatePtr m \<noteq> ReleasedState"
    using assms(1,2) by (auto simp: agps_inv_def)
  have single: "mEnforceSingleSubscriber m \<Longrightarrow> length subs \<le> 1"
    using assms(1) m1(3) unfolding agps_inv_def by linarith
  show ?thesis
  proof (cases "has_active subs")
    case True
    then have subs: "subs \<noteq> []" "hasSubscribers m1" "hasActiveSubscribers m1"
      using m1(1) by (auto simp: has_active_def hasSubscribers_def hasActive_iff)
    have "agps_inv (dispatched (st, m1))"
      using assms(1) pre True subs(1) m1(2,4) single
      by (simp add: m1(1) assms(5) dispatched_def agps_inv_def)
    then show ?thesis using subs by simp
  next
    case False
    then obtain out where out: "sendRsrcRequest ret GPS_RELEASE_AGPS_DATA_CONN m1 =
      (0, m1\<lparr>outs := outs m1 @ [out]\<rparr>)" "nif_log [out] = [GPS_RELEASE_AGPS_DATA_CONN]"
      using rel by blast
    have "agps_inv (dispatched (q, m1\<lparr>outs := outs m1 @ [out]\<rparr>))"
      if "q = (if subs = [] then ReleasedState else ReleasingState)" for q
      using assms(1) pre m1(2,4) single out(2) that
      by (simp add: m1(1) dispatched_def agps_inv_def)
    moreover have "hasSubscribers m1 \<longleftrightarrow> subs \<noteq> []" "\<not> hasActiveSubscribers m1"
      using False m1(1) by (simp_all add: hasSubscribers_def hasActive_iff)
    ultimately show ?thesis using out(1) by (cases "subs = []") simp_all
  qed
qed

lemma inv_drop_all:
  assumes "agps_inv m" "st \<in> answered"
  shows "agps_inv (dispatched (ReleasedState, notifySubscribers (note_broadcast BROADCAST_ALL st True) m))"
  using assms notifySubscribers_delete [of m "note_broadcast BROADCAST_ALL st True"]
  by (auto simp: agps_inv_def dispatched_def forMe_all)

lemma inv_releasing_over:
  assumes "agps_inv m" "st \<in> answered"
    "m1 = notifySubscribers (note_broadcast BROADCAST_INACTIVE st True) m"
  shows "agps_inv (dispatched
     (if hasActiveSubscribers m1
      then (PendingState, snd (sendRsrcRequest ret GPS_REQUEST_AGPS_DATA_CONN m1))
      else (ReleasedState, m1)))"
proof -
  let ?subs = "filter (\<lambda>s. \<not> isInactive s) (mSubscribers m)"
  obtain xs k where m1: "m1 = m\<lparr>mSubscribers := ?subs, outs := outs m @ xs, freed_reads := k\<rparr>"
    "nif_log xs = []"
    using notifySubscribers_delete [of m "note_broadcast BROADCAST_INACTIVE st True"] assms
    by (auto simp: agps_inv_def forMe_inactive)
  have act: "has_active ?subs \<longleftrightarrow> ?subs \<noteq> []"
    by (auto simp: has_active_def filter_empty_conv)
  have len: "mEnforceSingleSubscriber m \<Longrightarrow> length ?subs \<le> 1"
    using assms(1) unfolding agps_inv_def by (blast intro: order_trans [OF length_filter_le])
  show ?thesis
  proof (cases "has_active ?subs")
    case True
    obtain out where "sendRsrcRequest ret GPS_REQUEST_AGPS_DATA_CONN m1 =
      (0, m1\<lparr>outs := outs m1 @ [out]\<rparr>)" "nif_log [out] = [GPS_REQUEST_AGPS_DATA_CONN]"
      using agps_request [of m1 GPS_REQUEST_AGPS_DATA_CONN ret] True m1(1) assms(1)
      by (auto simp: agps_inv_def)
    then show ?thesis
      using True act assms(1) m1 len
      by (auto simp: dispatched_def agps_inv_def hasActive_iff)
  next
    case False
    then show ?thesis
      using act assms(1) m1
      by (auto simp: dispatched_def agps_inv_def hasActive_iff)
  qed
qed

lemma addSubscriber_inv:
  assumes "agps_inv m" "\<not> is_DSSub s" "mStatePtr m \<noteq> ReleasedState"
    "mEnforceSingleSubscriber m \<Longrightarrow> mSubscribers m = []"
  shows "agps_inv (addSubscriber s m)"
  using assms addSubscriber_subs [of s m] by (auto simp: agps_inv_def has_active_def)

lemma agps_inv_outs:
  "\<lbrakk>agps_inv m; nif_log xs = []\<rbrakk> \<Longrightarrow> agps_inv (m\<lparr>outs := outs m @ xs\<rparr>)"
  by (auto simp: agps_inv_def)

lemma dispatched_same: "mStatePtr m = st \<Longrightarrow> dispatched (st, m) = m"
  by (auto simp: dispatched_def)

text \<open>Subscribing in any state.\<close>

lemma inv_subscribe:
  assumes "agps_inv m" "\<not> is_DSSub s"
  shows "agps_inv (subscribeRsrc ret s m)"
proof (cases "mEnforceSingleSubscriber m \<and> hasSubscribers m")
  case True
  then show ?thesis
    using assms by (simp add: subscribeRsrc_def notifySubscriber_def notify_reply answered_def
        forMe_all agps_inv_outs)
next
  case False
  have add: "mStatePtr m \<noteq> ReleasedState \<Longrightarrow> agps_inv (addSubscriber s m)"
    using False assms by (intro addSubscriber_inv) (auto simp: hasSubscribers_def)
  show ?thesis
  proof (cases "mStatePtr m")
    case ReleasedState
    then show ?thesis
      using False inv_subscribe_released [OF assms(1) _ assms(2)]
      by (auto simp: subscribeRsrc_def dispatch_alt)
  next
    case AcquiredState
    let ?m = "m\<lparr>outs := outs m @ reply m RSRC_GRANTED s\<rparr>"
    have "agps_inv ?m" using assms by (intro agps_inv_outs) (simp_all add: answered_def)
    then have "agps_inv (addSubscriber s ?m)"
      using False AcquiredState assms by (intro addSubscriber_inv) (auto simp: hasSubscribers_def)
    moreover have "forMe s (note_to s RSRC_GRANTED False)"
      by (cases s) (auto simp: forMe_def note_to_def)
    ultimately show ?thesis
      using False AcquiredState assms(2)
      by (auto simp: subscribeRsrc_def dispatch_alt acquired_onRsrcEvent_def notify_reply
          answered_def dispatched_same)
  qed (use False add in \<open>auto simp: subscribeRsrc_def dispatch_alt pending_onRsrcEvent_def
          releasing_onRsrcEvent_def dispatched_same\<close>)
qed

lemma position_less: "position P xs = Some i \<Longrightarrow> i < length xs \<and> P (xs ! i)"
  by (induction xs arbitrary: i) (auto split: if_splits)

lemma position_None: "position P xs = None \<longleftrightarrow> (\<forall>x \<in> set xs. \<not> P x)"
  by (induction xs) auto

lemma inv_unsubscribe_releasing:
  assumes "agps_inv m" "mStatePtr m = ReleasingState" "i < length (mSubscribers m)"
  shows "agps_inv (dispatched (releasing_onRsrcEvent ret RSRC_UNSUBSCRIBE (Listed i) m))"
proof -
  obtain subs xs k where "unsubscribe_at i m =
      m\<lparr>mSubscribers := subs, outs := outs m @ xs, freed_reads := k\<rparr>"
    "\<forall>s \<in> set subs. \<not> is_DSSub s" "length subs \<le> length (mSubscribers m)" "nif_log xs = []"
    using unsubscribe_at_frame [of m i] assms by (auto simp: agps_inv_def)
  then show ?thesis
    using assms by (auto simp: releasing_onRsrcEvent_def dispatched_def agps_inv_def
        hasSubscribers_def Let_def)
qed

lemma inv_unsubscribe_op:
  assumes "agps_inv m"
  shows "agps_inv (snd (unsubscribeRsrc ret s m))"
proof (cases "position (\<lambda>t. forMe t (note_to s RSRC_STATUS_MAX False)) (mSubscribers m)")
  case None
  then show ?thesis using assms by (simp add: unsubscribeRsrc_def)
next
  case (Some i)
  then have i: "i < length (mSubscribers m)" using position_less by blast
  then have "mStatePtr m \<noteq> ReleasedState" using assms by (auto simp: agps_inv_def)
  then show ?thesis
    using inv_unsubscribe [OF assms _ i refl refl, of ret] inv_unsubscribe_releasing [OF assms _ i, of ret] Some
    by (cases "mStatePtr m") (auto simp: unsubscribeRsrc_def dispatch_alt pending_onRsrcEvent_def
        acquired_onRsrcEvent_def Let_def split: if_splits)
qed

lemma inv_rsrc_event:
  assumes "agps_inv m"
  shows "agps_inv (onRsrcEvent ret ev m)"
proof -
  have "agps_inv (dispatch ret ev No_data m)" if "ev \<in> {RSRC_GRANTED, RSRC_RELEASED, RSRC_DENIED}"
  proof -
    have ans: "ev \<in> answered" using that by (auto simp: answered_def)
    have same: "mStatePtr m = st \<Longrightarrow> agps_inv (dispatched (st, m))" for st
      using assms by (simp add: dispatched_same)
    have granted: "mStatePtr m = PendingState \<Longrightarrow>
        agps_inv (dispatched (AcquiredState, notifySubscribers (note_broadcast BROADCAST_ACTIVE ev False) m))"
      using assms ans notifySubscribers_keep [of m "note_broadcast BROADCAST_ACTIVE ev False"]
      by (auto simp: agps_inv_def dispatched_def)
    show ?thesis
      using that same granted inv_drop_all [OF assms ans] inv_releasing_over [OF assms ans refl, of ret]
      by (cases "mStatePtr m") (auto simp: dispatch_alt released_onRsrcEvent_def pending_onRsrcEvent_def
          acquired_onRsrcEvent_def releasing_onRsrcEvent_def Let_def)
  qed
  then show ?thesis
    using assms by (simp add: onRsrcEvent_def agps_onRsrcEvent_def agps_inv_def)
qed

section \<open>Runs of a machine\<close>

datatype agps_event =
    Subscribe subscriber | Unsubscribe subscriber | Rsrc_event AgpsRsrcStatus
  | Set_APN "string option" nat | Set_bearer int

fun agps_step :: "int \<Rightarrow> agps_event \<Rightarrow> agps_sm \<Rightarrow> agps_sm" where
  "agps_step ret (Subscribe s) m = subscribeRsrc ret s m"
| "agps_step ret (Unsubscribe s) m = snd (unsubscribeRsrc ret s m)"
| "agps_step ret (Rsrc_event ev) m = onRsrcEvent ret ev m"
| "agps_step ret (Set_APN apn len) m = setAPN apn len m"
| "agps_step ret (Set_bearer b) m = setBearer b m"

fun plain_event :: "agps_event \<Rightarrow> bool" where
  "plain_event (Subscribe s) = (\<not> is_DSSub s)"
| "plain_event e = True"

lemma agps_inv_step: "\<lbrakk>agps_inv m; plain_event e\<rbrakk> \<Longrightarrow> agps_inv (agps_step ret e m)"
proof (cases e)
  case (Set_APN apn len)
  assume "agps_inv m"
  then show ?thesis using Set_APN by (cases apn) (simp_all add: setAPN_def agps_inv_def)
next
  case (Set_bearer b)
  assume "agps_inv m"
  then show ?thesis using Set_bearer by (simp add: setBearer_def agps_inv_def)
qed (auto simp: inv_subscribe inv_unsubscribe_op inv_rsrc_event)

lemma agps_inv_run:
  "\<lbrakk>agps_inv m; \<forall>e \<in> set es. plain_event e\<rbrakk> \<Longrightarrow> agps_inv (fold (agps_step ret) es m)"
  by (induction es arbitrary: m) (auto intro: agps_inv_step)

lemma agps_inv_new: "agps_inv (new_AgpsStateMachine servType type single)"
  by (simp add: agps_inv_def new_AgpsStateMachine_def)

section \<open>Properties\<close>

text \<open>
  C3: the invariant of the AGPS state machine. After any sequence of subscriptions,
  unsubscriptions, resource events and settings on a new machine, it is in the released state
  exactly when it has no subscribers; in the pending and in the acquired state it has an active
  subscriber and the last request to the connectivity service was for a data connection; every
  release it has sent followed a request, never another release; and a machine that enforces a
  single subscriber has at most one.
\<close>

theorem agps_machine_invariant:
  assumes "\<forall>e \<in> set es. plain_event e"
    "m = fold (agps_step ret) es (new_AgpsStateMachine servType type single)"
  shows "(mStatePtr m = ReleasedState \<longleftrightarrow> mSubscribers m = []) \<and>
    (mStatePtr m \<in> {PendingState, AcquiredState} \<longrightarrow>
       has_active (mSubscribers m) \<and>
       last_opt (nif_log (outs m)) = Some GPS_REQUEST_AGPS_DATA_CONN) \<and>
    releases_follow None (nif_log (outs m)) \<and>
    (mEnforceSingleSubscriber m \<longrightarrow> length (mSubscribers m) \<le> 1)"
  using agps_inv_run [OF agps_inv_new assms(1)] unfolding assms(2) agps_inv_def by blast

lemmas agps_eval =
  new_AgpsStateMachine_def subscribeRsrc_def hasSubscribers_def dispatch_def
  released_onRsrcEvent_def pending_onRsrcEvent_def acquired_onRsrcEvent_def
  releasing_onRsrcEvent_def addSubscriber_def find_subscriber_find forMe_active forMe_inactive
  forMe_all forMe_to sendRsrcRequest_def agps_sendRsrcRequest_def emit_def onRsrcEvent_def
  agps_onRsrcEvent_def unsubscribeRsrc_def unsubscribe_at_def hasActiveSubscribers_def
  new_WIFISubscriber_def new_BITSubscriber_def strlcpy33_def notify_reply answered_def

definition demo_events :: "agps_event list" where
  "demo_events = [Subscribe (ATLSubscriber 1 False), Subscribe (ATLSubscriber 2 False),
     Rsrc_event RSRC_GRANTED, Unsubscribe (ATLSubscriber 1 False)]"

theorem agps_machine_invariant_witness:
  "\<exists>m. m = fold (agps_step 0) demo_events (new_AgpsStateMachine servicerTypeAgps 1 False) \<and>
    (mStatePtr m = ReleasedState \<longleftrightarrow> mSubscribers m = []) \<and>
    (mStatePtr m \<in> {PendingState, AcquiredState} \<longrightarrow>
       has_active (mSubscribers m) \<and>
       last_opt (nif_log (outs m)) = Some GPS_REQUEST_AGPS_DATA_CONN) \<and>
    releases_follow None (nif_log (outs m)) \<and>
    (mEnforceSingleSubscriber m \<longrightarrow> length (mSubscribers m) \<le> 1)"
proof -
  have "\<forall>e \<in> set demo_events. plain_event e" by (simp add: demo_events_def)
  from agps_machine_invariant [OF this refl, of 0 servicerTypeAgps 1 False] show ?thesis by blast
qed

text \<open>
  a grant reaches exactly the active subscribers. When the resource is granted in
  the pending state the machine acquires it, tells every active subscriber once, in the order of
  the list, and keeps all of them; inactive subscribers, which only wait for the close to
  complete, hear nothing.
\<close>

theorem agps_granted:
  assumes "agps_inv m" "mStatePtr m = PendingState"
  shows "onRsrcEvent ret RSRC_GRANTED m =
    m\<lparr>mStatePtr := AcquiredState,
      outs := outs m @ replies m RSRC_GRANTED (filter (\<lambda>s. \<not> isInactive s) (mSubscribers m))\<rparr>"
  using assms notifySubscribers_keep [of m "note_broadcast BROADCAST_ACTIVE RSRC_GRANTED False"]
  by (simp add: agps_inv_def onRsrcEvent_def agps_onRsrcEvent_def dispatch_def
      pending_onRsrcEvent_def forMe_active answered_def)

definition pending2 :: agps_sm where
  "pending2 = (new_AgpsStateMachine servicerTypeAgps 1 False)\<lparr>
     mSubscribers := [ATLSubscriber 2 False, WIFISubscriber 1 None None 1 True],
     mStatePtr := PendingState,
     outs := [Servicer_request servicerTypeAgps GPS_REQUEST_AGPS_DATA_CONN 1 [] []]\<rparr>"

lemma pending2_inv: "agps_inv pending2"
  by (simp add: agps_inv_def pending2_def new_AgpsStateMachine_def has_active_def nif_log_def)

theorem agps_granted_witness:
  "onRsrcEvent 0 RSRC_GRANTED pending2 =
    pending2\<lparr>mStatePtr := AcquiredState,
      outs := outs pending2 @ replies pending2 RSRC_GRANTED
        (filter (\<lambda>s. \<not> isInactive s) (mSubscribers pending2))\<rparr>"
  by (rule agps_granted [OF pending2_inv]) (simp add: pending2_def)

text \<open>
  C27: the loss of the resource reaches everybody. A denial in the pending state and a
  forced release in the acquired state tell every subscriber once, in the order of the list,
  remove all of them and leave the machine released; the deleting loop terminates and never
  reads a deleted subscriber.
\<close>

theorem agps_lost:
  assumes "agps_inv m"
    "mStatePtr m = PendingState \<and> ev = RSRC_DENIED \<or> mStatePtr m = AcquiredState \<and> ev = RSRC_RELEASED"
  shows "onRsrcEvent ret ev m =
    m\<lparr>mStatePtr := ReleasedState, mSubscribers := [],
      outs := outs m @ replies m ev (mSubscribers m)\<rparr>"
proof -
  have "notifySubscribers (note_broadcast BROADCAST_ALL ev True) m =
      m\<lparr>mSubscribers := [], outs := outs m @ replies m ev (mSubscribers m)\<rparr>"
    using assms notifySubscribers_delete [of m "note_broadcast BROADCAST_ALL ev True"]
    by (auto simp: agps_inv_def forMe_all answered_def stale_after_def)
  then show ?thesis
    using assms by (auto simp: agps_inv_def onRsrcEvent_def agps_onRsrcEvent_def dispatch_def
        pending_onRsrcEvent_def acquired_onRsrcEvent_def)
qed

theorem agps_lost_witness:
  "onRsrcEvent 0 RSRC_DENIED pending2 =
    pending2\<lparr>mStatePtr := ReleasedState, mSubscribers := [],
      outs := outs pending2 @ replies pending2 RSRC_DENIED (mSubscribers pending2)\<rparr>"
  by (rule agps_lost [OF pending2_inv]) (simp add: pending2_def)

text \<open>
  unsubscribing reads freed memory. When a subscriber that does not wait for the
  close to complete unsubscribes from an acquired resource that another subscriber still holds,
  \<open>notifySubscribers\<close> deletes it and then searches the list again with the notification that
  points to it: at least one comparison reads the deleted object.
\<close>

theorem agps_unsubscribe_reads_freed:
  assumes "agps_inv m" "mStatePtr m = AcquiredState"
    "position (\<lambda>t. forMe t (note_to s RSRC_STATUS_MAX False)) (mSubscribers m) = Some i"
    "\<not> waitForCloseComplete (mSubscribers m ! i)"
    "\<exists>t \<in> set (mSubscribers m). \<not> equals t (mSubscribers m ! i)"
  shows "freed_reads (snd (unsubscribeRsrc ret s m)) > freed_reads m"
proof -
  let ?s = "mSubscribers m ! i" and ?subs = "mSubscribers m"
  let ?n = "note_to ?s RSRC_UNSUBSCRIBE True"
  have i: "i < length ?subs" using position_less [OF assms(3)] by simp
  have self: "equals ?s ?s" by (cases ?s) auto
  have fm: "forMe t ?n = equals t ?s" for t by (simp add: forMe_def note_to_def)
  have "?s \<in> set (filter (\<lambda>t. forMe t ?n) ?subs)" using self i fm by simp
  then have pos: "length (filter (\<lambda>t. forMe t ?n) ?subs) > 0" by (rule length_pos_if_in_set)
  obtain t where "t \<in> set ?subs" "\<not> forMe t ?n" using assms(5) fm by blast
  then have "length (filter (\<lambda>t. forMe t ?n) ?subs) < length ?subs" by (rule length_filter_less)
  then have st: "stale_after ?n ?subs > 0"
    using pos by (auto simp: stale_after_def Let_def)
  have u: "freed_reads (unsubscribe_at i m) > freed_reads m" "\<not> is_ds (unsubscribe_at i m)"
    using assms(1,4) notifySubscribers_delete [of m ?n] st
    by (simp_all add: unsubscribe_at_def Let_def agps_inv_def answered_def)
  have "freed_reads (snd (sendRsrcRequest ret a m1)) = freed_reads m1" if "\<not> is_ds m1" for a m1
    using that by (simp add: sendRsrcRequest_def agps_sendRsrcRequest_def emit_def Let_def)
  then show ?thesis
    using u assms(2,3) by (simp add: unsubscribeRsrc_def dispatch_def acquired_onRsrcEvent_def
        Let_def split: prod.splits)
qed

definition acquired2 :: agps_sm where
  "acquired2 = pending2\<lparr>mStatePtr := AcquiredState,
     mSubscribers := [ATLSubscriber 2 False, ATLSubscriber 1 False]\<rparr>"

lemma acquired2_inv: "agps_inv acquired2"
  by (simp add: agps_inv_def acquired2_def pending2_def new_AgpsStateMachine_def has_active_def
      nif_log_def)

theorem agps_unsubscribe_reads_freed_witness:
  "freed_reads (snd (unsubscribeRsrc 0 (ATLSubscriber 1 False) acquired2)) > freed_reads acquired2"
  by (rule agps_unsubscribe_reads_freed [OF acquired2_inv, where i = 1])
     (simp_all add: acquired2_def forMe_def note_to_def)

text \<open>A Wi-Fi client that unsubscribes and subscribes again before the release completes.\<close>

definition resubscribe_events :: "subscriber \<Rightarrow> agps_event list" where
  "resubscribe_events w =
     [Subscribe w, Rsrc_event RSRC_GRANTED, Unsubscribe w, Subscribe w, Rsrc_event RSRC_RELEASED]"

definition resubscribe_run ::
  "string option \<Rightarrow> string option \<Rightarrow> int \<Rightarrow> int \<Rightarrow> servicerType \<Rightarrow> int \<Rightarrow> agps_sm" where
  "resubscribe_run ssid pw sender ret sv ty =
     fold (agps_step ret) (resubscribe_events (new_WIFISubscriber ssid pw sender))
       (new_AgpsStateMachine sv ty False)"

text \<open>
  a subscription can be lost. A Wi-Fi client that unsubscribes and subscribes again
  before the release completes is found in the list by its sender id, although it is inactive
  there, so it is not added: when the release completes it is told so and removed, no second
  request is made, and it is never granted or denied what it asked for.
\<close>

theorem agps_resubscribe_lost:
  "mStatePtr (resubscribe_run ssid pw sender ret sv ty) = ReleasedState \<and>
   mSubscribers (resubscribe_run ssid pw sender ret sv ty) = [] \<and>
   nif_log (outs (resubscribe_run ssid pw sender ret sv ty)) =
     [GPS_REQUEST_AGPS_DATA_CONN, GPS_RELEASE_AGPS_DATA_CONN] \<and>
   filter (\<lambda>x. nif_request x = []) (outs (resubscribe_run ssid pw sender ret sv ty)) =
     [Server_data_conn sender GPSONE_LOC_API_IF_REQUEST_SUCCESS,
      Server_data_conn sender GPSONE_LOC_API_IF_RELEASE_SUCCESS]"
  unfolding resubscribe_run_def resubscribe_events_def
  by (simp add: agps_eval notifySubscribers_keep notifySubscribers_delete nif_log_def reply_def)

definition ds_busy_run :: "uint32 \<Rightarrow> nat \<Rightarrow> agps_sm" where
  "ds_busy_run i n =
     ((subscribeRsrc LOC_API_ADAPTER_ERR_ENGINE_BUSY (DSSubscriber i False)) ^^ n)
       (new_DSStateMachine servicerTypeExt)"

abbreviation "ds_request \<equiv>
  Servicer_request servicerTypeExt GPS_REQUEST_AGPS_DATA_CONN AGPS_TYPE_INVALID [] []"

definition ds_released :: "uint32 \<Rightarrow> uint8 \<Rightarrow> agps_out list \<Rightarrow> agps_sm" where
  "ds_released i k xs = (new_DSStateMachine servicerTypeExt)\<lparr>
     mSubscribers := [DSSubscriber i False], mRetries := k, outs := xs\<rparr>"

lemma ds_busy_first:
  "subscribeRsrc LOC_API_ADAPTER_ERR_ENGINE_BUSY (DSSubscriber i False)
     (new_DSStateMachine servicerTypeExt) =
   ds_released i 1 [ds_request, Timer_start DATA_CALL_RETRY_DELAY_MSEC]"
  by (simp add: ds_released_def new_DSStateMachine_def agps_eval ds_sendRsrcRequest_def Let_def)

lemma ds_busy_next:
  "subscribeRsrc LOC_API_ADAPTER_ERR_ENGINE_BUSY (DSSubscriber i False) (ds_released i k xs) =
   (if k + 1 > MAX_START_DATA_CALL_RETRIES
    then ds_released i 0 (xs @ [ds_request, Request_ATL i AGPS_TYPE_SUPL])
    else ds_released i (k + 1) (xs @ [ds_request, Timer_start DATA_CALL_RETRY_DELAY_MSEC]))"
  by (simp add: ds_released_def new_DSStateMachine_def agps_eval ds_sendRsrcRequest_def Let_def)

lemma funpow_four: "(f ^^ 4) x = f (f (f (f x)))"
  and funpow_five: "(f ^^ 5) x = f ((f ^^ 4) x)"
  and replicate_four: "replicate 4 y = [y, y, y, y]"
  by (simp_all add: eval_nat_numeral)

lemma ds_busy_run_4: "ds_busy_run i 4 =
    ds_released i 4 (concat (replicate 4 [ds_request, Timer_start DATA_CALL_RETRY_DELAY_MSEC]))"
  unfolding ds_busy_run_def funpow_four replicate_four by (simp add: ds_busy_first ds_busy_next)

lemma ds_busy_run_5: "ds_busy_run i 5 =
    ds_released i 0 (outs (ds_busy_run i 4) @ [ds_request, Request_ATL i AGPS_TYPE_SUPL])"
proof -
  have "ds_busy_run i 5 =
      subscribeRsrc LOC_API_ADAPTER_ERR_ENGINE_BUSY (DSSubscriber i False) (ds_busy_run i 4)"
    unfolding ds_busy_run_def by (rule funpow_five)
  then show ?thesis by (simp add: ds_busy_run_4 ds_busy_next) (simp add: ds_released_def)
qed

text \<open>
  the data-call machine gives up after five busy answers. While the engine answers
  busy, each of the first four requests starts the retry timer of 500 ms and leaves the machine
  released with its subscriber still listed; the fifth falls back to an ordinary ATL request and
  resets the counter.
\<close>

theorem ds_busy_fallback:
  "outs (ds_busy_run i 4) = concat (replicate 4 [ds_request, Timer_start DATA_CALL_RETRY_DELAY_MSEC]) \<and>
   outs (ds_busy_run i 5) = outs (ds_busy_run i 4) @ [ds_request, Request_ATL i AGPS_TYPE_SUPL] \<and>
   mRetries (ds_busy_run i 4) = 4 \<and> mRetries (ds_busy_run i 5) = 0 \<and>
   mStatePtr (ds_busy_run i 5) = ReleasedState \<and> mSubscribers (ds_busy_run i 5) = [DSSubscriber i False]"
  by (simp add: ds_busy_run_5) (simp add: ds_busy_run_4 ds_released_def new_DSStateMachine_def
      new_AgpsStateMachine_def)

end
