(* ===== verification/Loc_Cfg.thy ===== *)
theory Loc_Cfg
  imports Prelude
begin

text \<open>
  The configuration reader (\<open>src/gps/utils/loc_cfg.cpp\<close>) with the string helpers it uses
  (\<open>src/gps/utils/loc_misc_utils.cpp\<close>), and the two parameter tables of the location engine
  (\<open>src/gps/loc_api/libloc_api_50001/loc_eng.cpp\<close>).

  A C string is a list of characters without its terminator.  A pointer of the table is the
  function that writes through it, in one of the three ways \<open>param_type\<close> selects; the memory the
  table points into is the type \<open>'m\<close> of the model.  Floating point values have a type \<open>'f\<close> of
  their own, and \<open>atof\<close> is a parameter.
\<close>

section \<open>The C library's string functions\<close>

definition isspace :: "char \<Rightarrow> bool" where
  "isspace c \<longleftrightarrow> c \<in> {CHR 0x09, CHR 0x0A, CHR 0x0B, CHR 0x0C, CHR 0x0D, CHR '' ''}"

text \<open>\<open>strtok_r\<close> with a single delimiter: the token and what the save pointer points to.\<close>

definition strtok_r :: "char \<Rightarrow> string \<Rightarrow> (string \<times> string) option" where
  "strtok_r d s =
     (let t = dropWhile (\<lambda>c. c = d) s in
      if t = [] then None
      else Some (takeWhile (\<lambda>c. c \<noteq> d) t, drop 1 (dropWhile (\<lambda>c. c \<noteq> d) t)))"

text \<open>\<open>strlcpy\<close> into a buffer of \<open>n\<close> bytes.\<close>

definition strlcpy :: "nat \<Rightarrow> string \<Rightarrow> string" where
  "strlcpy n s = take (n - 1) s"

text \<open>Digits in a base up to 16.\<close>

definition digit_of :: "char \<Rightarrow> int option" where
  "digit_of c =
     (let n = of_char c :: int in
      if 48 \<le> n \<and> n \<le> 57 then Some (n - 48)
      else if 97 \<le> n \<and> n \<le> 102 then Some (n - 87)
      else if 65 \<le> n \<and> n \<le> 70 then Some (n - 55)
      else None)"

fun digits_value :: "int \<Rightarrow> int \<Rightarrow> string \<Rightarrow> int" where
  "digits_value b acc [] = acc"
| "digits_value b acc (c # cs) =
     (case digit_of c of
        None \<Rightarrow> acc
      | Some d \<Rightarrow> if d < b then digits_value b (acc * b + d) cs else acc)"

text \<open>\<open>strtol\<close>: white space, a sign, digits, and the bounds of the 32-bit \<open>long\<close>.\<close>

definition LONG_MAX :: int where "LONG_MAX = 2147483647"
definition LONG_MIN :: int where "LONG_MIN = -2147483648"

definition clamp_long :: "int \<Rightarrow> int" where
  "clamp_long x = (if x > LONG_MAX then LONG_MAX else if x < LONG_MIN then LONG_MIN else x)"

definition skip_0x :: "int \<Rightarrow> string \<Rightarrow> string" where
  "skip_0x b s =
     (case s of
        c0 # c1 # rest \<Rightarrow>
          if b = 16 \<and> c0 = CHR ''0'' \<and> (c1 = CHR ''x'' \<or> c1 = CHR ''X'') then rest else s
      | _ \<Rightarrow> s)"

definition strtol :: "int \<Rightarrow> string \<Rightarrow> int" where
  "strtol b s =
     (case dropWhile isspace s of
        [] \<Rightarrow> 0
      | c # cs \<Rightarrow>
          if c = CHR ''-'' then clamp_long (- digits_value b 0 (skip_0x b cs))
          else if c = CHR ''+'' then clamp_long (digits_value b 0 (skip_0x b cs))
          else clamp_long (digits_value b 0 (skip_0x b (c # cs))))"

definition atoi :: "string \<Rightarrow> int" where
  "atoi s = strtol 10 s"

section \<open>The helpers of \<open>loc_misc_utils.cpp\<close>\<close>

text \<open>
  The loop of \<open>loc_util_trim_space\<close>: what is left to scan, whether a non-space character has been
  seen, the characters written so far, and how many of them \<open>last_nonspace\<close> keeps.
\<close>

fun trim_loop :: "string \<Rightarrow> bool \<Rightarrow> string \<Rightarrow> nat option \<Rightarrow> string \<times> nat option" where
  "trim_loop [] first w lst = (w, lst)"
| "trim_loop (c # cs) first w lst =
     (let first' = (first \<or> \<not> isspace c) in
      if first'
      then trim_loop cs first' (w @ [c]) (if \<not> isspace c then Some (length w + 1) else lst)
      else trim_loop cs first' w lst)"

definition loc_util_trim_space :: "string \<Rightarrow> string" where
  "loc_util_trim_space s =
     (let (w, lst) = trim_loop s False [] None in
      case lst of Some n \<Rightarrow> take n (w @ drop (length w) s) | None \<Rightarrow> w @ drop (length w) s)"

text \<open>
  \<open>loc_util_split_string\<close> on non-\<open>NULL\<close> arguments: the substrings it leaves in the array.  \<open>cur\<close>
  is the substring that is being scanned, \<open>done\<close> the ones that have ended.
\<close>

fun split_loop :: "nat \<Rightarrow> char \<Rightarrow> string \<Rightarrow> string \<Rightarrow> string list \<Rightarrow> string list" where
  "split_loop mx d [] cur ss = ss @ [cur]"
| "split_loop mx d (c # cs) cur ss =
     (if c = d
      then (if Suc (length ss) < mx then split_loop mx d cs [] (ss @ [cur]) else ss @ [cur])
      else split_loop mx d cs (cur @ [c]) ss)"

definition loc_util_split_string :: "string \<Rightarrow> nat \<Rightarrow> char \<Rightarrow> string list" where
  "loc_util_split_string s mx d = split_loop mx d s [] []"

section \<open>The parameter table\<close>

datatype ('m, 'f) param_ptr =
    PtrN "uint32 \<Rightarrow> 'm \<Rightarrow> 'm" | PtrS "string \<Rightarrow> 'm \<Rightarrow> 'm" | PtrF "'f \<Rightarrow> 'm \<Rightarrow> 'm" | PtrBad

record ('m, 'f) loc_param =
  param_name :: string
  param_ptr :: "('m, 'f) param_ptr option"
  param_set :: "(bool \<Rightarrow> 'm \<Rightarrow> 'm) option"

record 'f loc_param_v =
  v_name :: string
  v_str_value :: string
  v_int_value :: int
  v_double_value :: 'f

definition LOC_MAX_PARAM_STRING :: nat where "LOC_MAX_PARAM_STRING = 80"
definition LOC_MAX_PARAM_LINE :: nat where "LOC_MAX_PARAM_LINE = 80 + 80"

definition mark_set :: "('m, 'f) loc_param \<Rightarrow> bool \<Rightarrow> 'm \<Rightarrow> 'm" where
  "mark_set e b m = (case param_set e of None \<Rightarrow> m | Some f \<Rightarrow> f b m)"

text \<open>\<open>loc_set_config_entry\<close>: its result and the memory.\<close>

definition loc_set_config_entry ::
  "('m, 'f) loc_param \<Rightarrow> 'f loc_param_v \<Rightarrow> 'm \<Rightarrow> int \<times> 'm" where
  "loc_set_config_entry e v m =
     (if param_name e = v_name v then
        (case param_ptr e of
           None \<Rightarrow> (-1, m)
         | Some (PtrS w) \<Rightarrow>
             (0, mark_set e True
                (w (if v_str_value v = ''NULL'' then []
                    else strlcpy (LOC_MAX_PARAM_STRING + 1) (v_str_value v)) m))
         | Some (PtrN w) \<Rightarrow> (0, mark_set e True (w (word_of_int (v_int_value v)) m))
         | Some (PtrF w) \<Rightarrow> (0, mark_set e True (w (v_double_value v) m))
         | Some PtrBad \<Rightarrow> (-1, m))
      else (-1, m))"

text \<open>The loop over the table in \<open>loc_fill_conf_item\<close>.\<close>

fun set_entries ::
  "('m, 'f) loc_param list \<Rightarrow> 'f loc_param_v \<Rightarrow> nat \<Rightarrow> 'm \<Rightarrow> nat \<times> 'm" where
  "set_entries [] v n m = (n, m)"
| "set_entries (e # es) v n m =
     (let (r, m') = loc_set_config_entry e v m
      in set_entries es v (if r = 0 then n + 1 else n) m')"

definition is_hex :: "string \<Rightarrow> bool" where
  "is_hex s \<longleftrightarrow> 3 \<le> length s \<and> s ! 0 = CHR ''0'' \<and> (s ! 1 = CHR ''x'' \<or> s ! 1 = CHR ''X'')"

text \<open>The value of an item: \<open>zero\<close> is what \<open>memset\<close> leaves in a double.\<close>

definition conf_value :: "(string \<Rightarrow> 'f) \<Rightarrow> 'f \<Rightarrow> string \<Rightarrow> string \<Rightarrow> 'f loc_param_v" where
  "conf_value atof zero n s =
     (if is_hex s
      then \<lparr>v_name = n, v_str_value = s, v_int_value = strtol 16 (drop 2 s), v_double_value = zero\<rparr>
      else \<lparr>v_name = n, v_str_value = s, v_int_value = atoi s, v_double_value = atof s\<rparr>)"

text \<open>The item of a line, if it has two operands.\<close>

definition parse_item :: "(string \<Rightarrow> 'f) \<Rightarrow> 'f \<Rightarrow> string \<Rightarrow> 'f loc_param_v option" where
  "parse_item atof zero line =
     (case strtok_r (CHR ''='') line of
        None \<Rightarrow> None
      | Some (name, rest) \<Rightarrow>
          (case strtok_r (CHR ''='') rest of
             None \<Rightarrow> None
           | Some (val, rest') \<Rightarrow>
               Some (conf_value atof zero (loc_util_trim_space name) (loc_util_trim_space val))))"

definition loc_fill_conf_item ::
  "(string \<Rightarrow> 'f) \<Rightarrow> 'f \<Rightarrow> ('m, 'f) loc_param list \<Rightarrow> string \<Rightarrow> 'm \<Rightarrow> nat \<times> 'm" where
  "loc_fill_conf_item atof zero table line m =
     (case parse_item atof zero line of
        None \<Rightarrow> (0, m)
      | Some v \<Rightarrow> set_entries table v 0 m)"

section \<open>Reading and updating\<close>

definition clear_sets :: "('m, 'f) loc_param list \<Rightarrow> 'm \<Rightarrow> 'm" where
  "clear_sets table m = fold (\<lambda>e. mark_set e False) table m"

text \<open>\<open>fgets\<close> into a buffer of \<open>n\<close> bytes: up to \<open>n - 1\<close> characters, to the end of the line.\<close>

definition fgets_length :: "nat \<Rightarrow> string \<Rightarrow> nat" where
  "fgets_length n s = min (n - 1)
     (let k = length (takeWhile (\<lambda>c. c \<noteq> CHR 0x0A) s) in if k < length s then Suc k else k)"

definition fgets :: "nat \<Rightarrow> string \<Rightarrow> (string \<times> string) option" where
  "fgets n s =
     (if s = [] then None else Some (take (fgets_length n s) s, drop (fgets_length n s) s))"

lemma fgets_length_pos: "\<lbrakk>s \<noteq> []; 2 \<le> n\<rbrakk> \<Longrightarrow> 0 < fgets_length n s"
  by (cases s) (auto simp: fgets_length_def Let_def)

function read_loop ::
  "(string \<Rightarrow> 'f) \<Rightarrow> 'f \<Rightarrow> ('m, 'f) loc_param list \<Rightarrow> uint32 \<Rightarrow> string \<Rightarrow> 'm \<Rightarrow> 'm" where
  "read_loop atof zero table num file m =
     (if num = 0 then m
      else case fgets LOC_MAX_PARAM_LINE file of
        None \<Rightarrow> m
      | Some (line, rest) \<Rightarrow>
          (let (k, m') = loc_fill_conf_item atof zero table line m
           in read_loop atof zero table (num - of_nat k) rest m'))"
  by pat_completeness auto
termination
  by (relation "measure (\<lambda>(_, _, _, _, file, _). length file)")
    (auto simp: fgets_def LOC_MAX_PARAM_LINE_def fgets_length_pos split: if_splits)

declare read_loop.simps [simp del]

text \<open>\<open>loc_read_conf_r\<close>; \<open>None\<close> is the \<open>NULL\<close> file pointer.\<close>

definition loc_read_conf_r ::
  "(string \<Rightarrow> 'f) \<Rightarrow> 'f \<Rightarrow> ('m, 'f) loc_param list \<Rightarrow> string option \<Rightarrow> 'm \<Rightarrow> int \<times> 'm" where
  "loc_read_conf_r atof zero table file m =
     (case file of
        None \<Rightarrow> (-1, m)
      | Some s \<Rightarrow>
          (0, read_loop atof zero table (of_nat (length table)) s (clear_sets table m)))"

lemma strtok_r_shorter: "strtok_r d s = Some (t, r) \<Longrightarrow> length r < length s"
proof -
  assume a: "strtok_r d s = Some (t, r)"
  let ?t = "dropWhile (\<lambda>c. c = d) s"
  have t: "?t \<noteq> []" "r = drop 1 (dropWhile (\<lambda>c. c \<noteq> d) ?t)"
    using a by (auto simp: strtok_r_def Let_def split: if_splits)
  then obtain c cs where c0: "?t = c # cs" by (cases ?t) simp_all
  moreover have "c \<noteq> d" using hd_dropWhile [OF t(1)] c0 by simp
  ultimately have c: "?t = c # cs" "c \<noteq> d" by simp_all
  have "length r = length (dropWhile (\<lambda>c. c \<noteq> d) cs) - 1" using t(2) c by simp
  also have "\<dots> \<le> length cs" by (rule order_trans [OF diff_le_self length_dropWhile_le])
  finally have "length r \<le> length cs" .
  also have "length cs < length ?t" using c by simp
  also have "length ?t \<le> length s" by (rule length_dropWhile_le)
  finally show ?thesis .
qed

text \<open>The loop of \<open>loc_update_conf\<close>: the number of lines it looked at and the memory.\<close>

function update_loop ::
  "(string \<Rightarrow> 'f) \<Rightarrow> 'f \<Rightarrow> ('m, 'f) loc_param list \<Rightarrow> uint32 \<Rightarrow> string \<Rightarrow> nat \<Rightarrow> 'm \<Rightarrow> nat \<times> 'm" where
  "update_loop atof zero table num data ret m =
     (if num = 0 then (ret, m)
      else case strtok_r (CHR 0x0A) data of
        None \<Rightarrow> (ret, m)
      | Some (line, rest) \<Rightarrow>
          (let (k, m') = loc_fill_conf_item atof zero table line m
           in update_loop atof zero table (num - of_nat k) rest (ret + 1) m'))"
  by pat_completeness auto
termination
  by (relation "measure (\<lambda>(_, _, _, _, data, _). length data)") (auto simp: strtok_r_shorter)

declare update_loop.simps [simp del]

text \<open>
  \<open>loc_update_conf\<close>: the data are the first \<open>length\<close> characters of the buffer, \<open>None\<close> is \<open>NULL\<close>;
  a string ends at its first NUL.
\<close>

definition loc_update_conf ::
  "(string \<Rightarrow> 'f) \<Rightarrow> 'f \<Rightarrow> ('m, 'f) loc_param list \<Rightarrow> string option \<Rightarrow> 'm \<Rightarrow> int \<times> 'm" where
  "loc_update_conf atof zero table conf m =
     (case conf of
        None \<Rightarrow> (-1, m)
      | Some data \<Rightarrow>
          if data = [] \<or> table = [] then (-1, m)
          else (let (n, m') = update_loop atof zero table (of_nat (length table) - 1)
                  (takeWhile (\<lambda>c. c \<noteq> CHR 0x00) data) 0 m in (int n, m')))"

text \<open>The reader's own parameters, and \<open>loc_read_conf\<close>, which ends by handing them to the logger.\<close>

record log_params =
  DEBUG_LEVEL :: uint32
  TIMESTAMP :: uint32

definition loc_param_table :: "(log_params, 'f) loc_param list" where
  "loc_param_table =
     [\<lparr>param_name = ''DEBUG_LEVEL'', param_ptr = Some (PtrN (\<lambda>v p. p\<lparr>DEBUG_LEVEL := v\<rparr>)), param_set = None\<rparr>,
      \<lparr>param_name = ''TIMESTAMP'', param_ptr = Some (PtrN (\<lambda>v p. p\<lparr>TIMESTAMP := v\<rparr>)), param_set = None\<rparr>]"

definition loc_read_conf ::
  "(string \<Rightarrow> 'f) \<Rightarrow> 'f \<Rightarrow> ('m, 'f) loc_param list \<Rightarrow> string option \<Rightarrow> 'm \<times> log_params \<Rightarrow> 'm \<times> log_params" where
  "loc_read_conf atof zero table file s =
     (case file of
        None \<Rightarrow> s
      | Some f \<Rightarrow>
          (if table = [] then fst s else snd (loc_read_conf_r atof zero table (Some f) (fst s)),
           snd (loc_read_conf_r atof zero loc_param_table (Some f) (snd s))))"

section \<open>The tables of the location engine\<close>

text \<open>\<open>loc_gps_cfg_s_type\<close> and \<open>loc_sap_cfg_s_type\<close>.\<close>

record gps_cfg =
  INTERMEDIATE_POS :: uint32
  ACCURACY_THRES :: uint32
  SUPL_VER :: uint32
  SUPL_MODE :: uint32
  CAPABILITIES :: uint32
  LPP_PROFILE :: uint32
  XTRA_VERSION_CHECK :: uint32
  XTRA_SERVER_1 :: string
  XTRA_SERVER_2 :: string
  XTRA_SERVER_3 :: string
  USE_EMERGENCY_PDN_FOR_EMERGENCY_SUPL :: uint32
  NMEA_PROVIDER :: uint32
  GPS_LOCK :: uint32
  A_GLONASS_POS_PROTOCOL_SELECT :: uint32
  AGPS_CERT_WRITABLE_MASK :: uint32

definition num_param :: "string \<Rightarrow> (uint32 \<Rightarrow> 'm \<Rightarrow> 'm) \<Rightarrow> ('m, 'f) loc_param" where
  "num_param n f = \<lparr>param_name = n, param_ptr = Some (PtrN f), param_set = None\<rparr>"

definition str_param :: "string \<Rightarrow> (string \<Rightarrow> 'm \<Rightarrow> 'm) \<Rightarrow> ('m, 'f) loc_param" where
  "str_param n f = \<lparr>param_name = n, param_ptr = Some (PtrS f), param_set = None\<rparr>"

definition float_param ::
  "string \<Rightarrow> ('f \<Rightarrow> 'm \<Rightarrow> 'm) \<Rightarrow> (bool \<Rightarrow> 'm \<Rightarrow> 'm) \<Rightarrow> ('m, 'f) loc_param" where
  "float_param n f g = \<lparr>param_name = n, param_ptr = Some (PtrF f), param_set = Some g\<rparr>"

definition gps_conf_table :: "(gps_cfg, 'f) loc_param list" where
  "gps_conf_table =
     [num_param ''GPS_LOCK'' (\<lambda>v c. c\<lparr>GPS_LOCK := v\<rparr>),
      num_param ''SUPL_VER'' (\<lambda>v c. c\<lparr>SUPL_VER := v\<rparr>),
      num_param ''LPP_PROFILE'' (\<lambda>v c. c\<lparr>LPP_PROFILE := v\<rparr>),
      num_param ''A_GLONASS_POS_PROTOCOL_SELECT'' (\<lambda>v c. c\<lparr>A_GLONASS_POS_PROTOCOL_SELECT := v\<rparr>),
      num_param ''AGPS_CERT_WRITABLE_MASK'' (\<lambda>v c. c\<lparr>AGPS_CERT_WRITABLE_MASK := v\<rparr>),
      num_param ''SUPL_MODE'' (\<lambda>v c. c\<lparr>SUPL_MODE := v\<rparr>),
      num_param ''INTERMEDIATE_POS'' (\<lambda>v c. c\<lparr>INTERMEDIATE_POS := v\<rparr>),
      num_param ''ACCURACY_THRES'' (\<lambda>v c. c\<lparr>ACCURACY_THRES := v\<rparr>),
      num_param ''NMEA_PROVIDER'' (\<lambda>v c. c\<lparr>NMEA_PROVIDER := v\<rparr>),
      num_param ''CAPABILITIES'' (\<lambda>v c. c\<lparr>CAPABILITIES := v\<rparr>),
      num_param ''XTRA_VERSION_CHECK'' (\<lambda>v c. c\<lparr>XTRA_VERSION_CHECK := v\<rparr>),
      str_param ''XTRA_SERVER_1'' (\<lambda>v c. c\<lparr>XTRA_SERVER_1 := v\<rparr>),
      str_param ''XTRA_SERVER_2'' (\<lambda>v c. c\<lparr>XTRA_SERVER_2 := v\<rparr>),
      str_param ''XTRA_SERVER_3'' (\<lambda>v c. c\<lparr>XTRA_SERVER_3 := v\<rparr>),
      num_param ''USE_EMERGENCY_PDN_FOR_EMERGENCY_SUPL''
        (\<lambda>v c. c\<lparr>USE_EMERGENCY_PDN_FOR_EMERGENCY_SUPL := v\<rparr>)]"

record 'f sap_cfg =
  GYRO_BIAS_RANDOM_WALK_VALID :: bool
  GYRO_BIAS_RANDOM_WALK :: 'f
  SENSOR_ACCEL_BATCHES_PER_SEC :: uint32
  SENSOR_ACCEL_SAMPLES_PER_BATCH :: uint32
  SENSOR_GYRO_BATCHES_PER_SEC :: uint32
  SENSOR_GYRO_SAMPLES_PER_BATCH :: uint32
  SENSOR_ACCEL_BATCHES_PER_SEC_HIGH :: uint32
  SENSOR_ACCEL_SAMPLES_PER_BATCH_HIGH :: uint32
  SENSOR_GYRO_BATCHES_PER_SEC_HIGH :: uint32
  SENSOR_GYRO_SAMPLES_PER_BATCH_HIGH :: uint32
  SENSOR_CONTROL_MODE :: uint32
  SENSOR_USAGE :: uint32
  SENSOR_ALGORITHM_CONFIG_MASK :: uint32
  ACCEL_RANDOM_WALK_SPECTRAL_DENSITY_VALID :: bool
  ACCEL_RANDOM_WALK_SPECTRAL_DENSITY :: 'f
  ANGLE_RANDOM_WALK_SPECTRAL_DENSITY_VALID :: bool
  ANGLE_RANDOM_WALK_SPECTRAL_DENSITY :: 'f
  RATE_RANDOM_WALK_SPECTRAL_DENSITY_VALID :: bool
  RATE_RANDOM_WALK_SPECTRAL_DENSITY :: 'f
  VELOCITY_RANDOM_WALK_SPECTRAL_DENSITY_VALID :: bool
  VELOCITY_RANDOM_WALK_SPECTRAL_DENSITY :: 'f
  SENSOR_PROVIDER :: uint32

definition sap_conf_table :: "('f sap_cfg, 'f) loc_param list" where
  "sap_conf_table =
     [float_param ''GYRO_BIAS_RANDOM_WALK'' (\<lambda>v c. c\<lparr>GYRO_BIAS_RANDOM_WALK := v\<rparr>)
        (\<lambda>b c. c\<lparr>GYRO_BIAS_RANDOM_WALK_VALID := b\<rparr>),
      float_param ''ACCEL_RANDOM_WALK_SPECTRAL_DENSITY''
        (\<lambda>v c. c\<lparr>ACCEL_RANDOM_WALK_SPECTRAL_DENSITY := v\<rparr>)
        (\<lambda>b c. c\<lparr>ACCEL_RANDOM_WALK_SPECTRAL_DENSITY_VALID := b\<rparr>),
      float_param ''ANGLE_RANDOM_WALK_SPECTRAL_DENSITY''
        (\<lambda>v c. c\<lparr>ANGLE_RANDOM_WALK_SPECTRAL_DENSITY := v\<rparr>)
        (\<lambda>b c. c\<lparr>ANGLE_RANDOM_WALK_SPECTRAL_DENSITY_VALID := b\<rparr>),
      float_param ''RATE_RANDOM_WALK_SPECTRAL_DENSITY''
        (\<lambda>v c. c\<lparr>RATE_RANDOM_WALK_SPECTRAL_DENSITY := v\<rparr>)
        (\<lambda>b c. c\<lparr>RATE_RANDOM_WALK_SPECTRAL_DENSITY_VALID := b\<rparr>),
      float_param ''VELOCITY_RANDOM_WALK_SPECTRAL_DENSITY''
        (\<lambda>v c. c\<lparr>VELOCITY_RANDOM_WALK_SPECTRAL_DENSITY := v\<rparr>)
        (\<lambda>b c. c\<lparr>VELOCITY_RANDOM_WALK_SPECTRAL_DENSITY_VALID := b\<rparr>),
      num_param ''SENSOR_ACCEL_BATCHES_PER_SEC'' (\<lambda>v c. c\<lparr>SENSOR_ACCEL_BATCHES_PER_SEC := v\<rparr>),
      num_param ''SENSOR_ACCEL_SAMPLES_PER_BATCH'' (\<lambda>v c. c\<lparr>SENSOR_ACCEL_SAMPLES_PER_BATCH := v\<rparr>),
      num_param ''SENSOR_GYRO_BATCHES_PER_SEC'' (\<lambda>v c. c\<lparr>SENSOR_GYRO_BATCHES_PER_SEC := v\<rparr>),
      num_param ''SENSOR_GYRO_SAMPLES_PER_BATCH'' (\<lambda>v c. c\<lparr>SENSOR_GYRO_SAMPLES_PER_BATCH := v\<rparr>),
      num_param ''SENSOR_ACCEL_BATCHES_PER_SEC_HIGH'' (\<lambda>v c. c\<lparr>SENSOR_ACCEL_BATCHES_PER_SEC_HIGH := v\<rparr>),
      num_param ''SENSOR_ACCEL_SAMPLES_PER_BATCH_HIGH'' (\<lambda>v c. c\<lparr>SENSOR_ACCEL_SAMPLES_PER_BATCH_HIGH := v\<rparr>),
      num_param ''SENSOR_GYRO_BATCHES_PER_SEC_HIGH'' (\<lambda>v c. c\<lparr>SENSOR_GYRO_BATCHES_PER_SEC_HIGH := v\<rparr>),
      num_param ''SENSOR_GYRO_SAMPLES_PER_BATCH_HIGH'' (\<lambda>v c. c\<lparr>SENSOR_GYRO_SAMPLES_PER_BATCH_HIGH := v\<rparr>),
      num_param ''SENSOR_CONTROL_MODE'' (\<lambda>v c. c\<lparr>SENSOR_CONTROL_MODE := v\<rparr>),
      num_param ''SENSOR_USAGE'' (\<lambda>v c. c\<lparr>SENSOR_USAGE := v\<rparr>),
      num_param ''SENSOR_ALGORITHM_CONFIG_MASK'' (\<lambda>v c. c\<lparr>SENSOR_ALGORITHM_CONFIG_MASK := v\<rparr>),
      num_param ''SENSOR_PROVIDER'' (\<lambda>v c. c\<lparr>SENSOR_PROVIDER := v\<rparr>)]"

text \<open>\<open>loc_default_parameters\<close>; the servers keep their values.\<close>

definition default_gps :: "gps_cfg \<Rightarrow> gps_cfg" where
  "default_gps c = c\<lparr>INTERMEDIATE_POS := 0, ACCURACY_THRES := 0, NMEA_PROVIDER := 0, GPS_LOCK := 0,
     SUPL_VER := 0x10000, SUPL_MODE := 0x3, CAPABILITIES := 0x7, LPP_PROFILE := 0,
     A_GLONASS_POS_PROTOCOL_SELECT := 0, XTRA_VERSION_CHECK := 0,
     USE_EMERGENCY_PDN_FOR_EMERGENCY_SUPL := 1, AGPS_CERT_WRITABLE_MASK := 0\<rparr>"

definition default_sap :: "'f \<Rightarrow> 'f sap_cfg" where
  "default_sap zero = \<lparr>GYRO_BIAS_RANDOM_WALK_VALID = False, GYRO_BIAS_RANDOM_WALK = zero,
     SENSOR_ACCEL_BATCHES_PER_SEC = 2, SENSOR_ACCEL_SAMPLES_PER_BATCH = 5,
     SENSOR_GYRO_BATCHES_PER_SEC = 2, SENSOR_GYRO_SAMPLES_PER_BATCH = 5,
     SENSOR_ACCEL_BATCHES_PER_SEC_HIGH = 4, SENSOR_ACCEL_SAMPLES_PER_BATCH_HIGH = 25,
     SENSOR_GYRO_BATCHES_PER_SEC_HIGH = 4, SENSOR_GYRO_SAMPLES_PER_BATCH_HIGH = 25,
     SENSOR_CONTROL_MODE = 0, SENSOR_USAGE = 0, SENSOR_ALGORITHM_CONFIG_MASK = 0,
     ACCEL_RANDOM_WALK_SPECTRAL_DENSITY_VALID = False, ACCEL_RANDOM_WALK_SPECTRAL_DENSITY = zero,
     ANGLE_RANDOM_WALK_SPECTRAL_DENSITY_VALID = False, ANGLE_RANDOM_WALK_SPECTRAL_DENSITY = zero,
     RATE_RANDOM_WALK_SPECTRAL_DENSITY_VALID = False, RATE_RANDOM_WALK_SPECTRAL_DENSITY = zero,
     VELOCITY_RANDOM_WALK_SPECTRAL_DENSITY_VALID = False,
     VELOCITY_RANDOM_WALK_SPECTRAL_DENSITY = zero, SENSOR_PROVIDER = 1\<rparr>"

section \<open>Trimming and splitting\<close>

definition rstrip :: "string \<Rightarrow> string" where
  "rstrip s = rev (dropWhile isspace (rev s))"

definition strip :: "string \<Rightarrow> string" where
  "strip s = rstrip (dropWhile isspace s)"

lemma rstrip_all_space: "(\<forall>c \<in> set s. isspace c) \<Longrightarrow> rstrip s = []"
  by (simp add: rstrip_def)

lemma rstrip_Cons:
  "rstrip (c # s) = (if (\<forall>x \<in> set s. isspace x) then (if isspace c then [] else [c]) else c # rstrip s)"
  by (auto simp: rstrip_def dropWhile_append)

lemma rstrip_prefix: "take (length (rstrip s)) s = rstrip s"
  by (induction s) (auto simp: rstrip_Cons rstrip_all_space)

lemma rstrip_id: "\<lbrakk>s \<noteq> []; \<not> isspace (last s)\<rbrakk> \<Longrightarrow> rstrip s = s"
  by (cases s rule: rev_cases) (simp_all add: rstrip_def)

lemma trim_loop_seen:
  "trim_loop s True w lst =
     (w @ s, if (\<forall>c \<in> set s. isspace c) then lst else Some (length w + length (rstrip s)))"
  by (induction s arbitrary: w lst) (auto simp: rstrip_Cons rstrip_all_space Let_def)

lemma trim_loop_unseen:
  "trim_loop s False [] None =
     (dropWhile isspace s,
      if (\<forall>c \<in> set s. isspace c) then None else Some (length (strip s)))"
proof (induction s)
  case Nil
  then show ?case by simp
next
  case (Cons c s)
  then show ?case
    by (cases "isspace c") (auto simp: trim_loop_seen strip_def rstrip_Cons rstrip_all_space Let_def)
qed

lemma trim_space_eq:
  "loc_util_trim_space s = (if (\<forall>c \<in> set s. isspace c) then s else strip s)"
proof (cases "\<forall>c \<in> set s. isspace c")
  case True
  then have "dropWhile isspace s = []" by simp
  then have "trim_loop s False [] None = ([], None)" using True by (simp only: trim_loop_unseen) simp
  with True show ?thesis by (simp add: loc_util_trim_space_def)
next
  case False
  have "length (strip s) \<le> length (dropWhile isspace s)"
    by (simp add: strip_def rstrip_def) (metis length_dropWhile_le length_rev)
  moreover have "take (length (strip s)) (dropWhile isspace s) = strip s"
    by (simp add: strip_def rstrip_prefix)
  ultimately show ?thesis using False
    by (auto simp: loc_util_trim_space_def trim_loop_unseen)
qed

text \<open>
  \<open>loc_util_trim_space\<close> removes exactly the leading and trailing white space of a string that
  has a character that is not white space, and leaves a string of white space as it is.
\<close>
theorem trim_space_strips:
  "loc_util_trim_space s = (if list_all isspace s then s else strip s)"
  by (simp add: trim_space_eq list_all_iff)

text \<open>The fields of a string between delimiters, and their join.\<close>

fun fields :: "char \<Rightarrow> string \<Rightarrow> string list" where
  "fields d [] = [[]]"
| "fields d (c # cs) =
     (if c = d then [] # fields d cs
      else (case fields d cs of [] \<Rightarrow> [[c]] | f # fs \<Rightarrow> (c # f) # fs))"

fun join :: "char \<Rightarrow> string list \<Rightarrow> string" where
  "join d [] = []"
| "join d [f] = f"
| "join d (f # g # fs) = f @ d # join d (g # fs)"

lemma fields_ne [simp]: "fields d s \<noteq> []"
  by (induction s) (auto split: list.splits)

lemma join_Cons: "fs \<noteq> [] \<Longrightarrow> join d (f # fs) = f @ d # join d fs"
  by (cases fs) simp_all

lemma join_fields: "join d (fields d s) = s"
proof (induction s)
  case (Cons c s)
  then show ?case
    by (cases "fields d s"; cases "tl (fields d s)") (auto simp: join_Cons split: list.splits)
qed simp

lemma fields_no_delimiter: "f \<in> set (fields d s) \<Longrightarrow> d \<notin> set f"
proof (induction s arbitrary: f)
  case (Cons c s)
  then show ?case by (cases "fields d s") (auto split: if_splits)
qed simp

lemma split_loop_fields:
  assumes "length ss < mx"
  shows "split_loop mx d s cur ss = ss @ take (mx - length ss)
    (case fields d s of [] \<Rightarrow> [cur] | f # fs \<Rightarrow> (cur @ f) # fs)"
  using assms
proof (induction s arbitrary: cur ss)
  case Nil
  then show ?case by (cases "mx - length ss") simp_all
next
  case (Cons c s)
  obtain f fs where f: "fields d s = f # fs" by (cases "fields d s") simp_all
  obtain k where k: "mx = length ss + Suc k" using Cons.prems less_iff_Suc_add by auto
  show ?case
    using Cons.IH [of "ss @ [cur]" "[]"] Cons.IH [of ss "cur @ [c]"] Cons.prems f k
    by (cases k) auto
qed

text \<open>
  \<open>loc_util_split_string\<close> with room for at least one substring gives the first of the
  string's fields between delimiters; no field has a delimiter, and joining all fields gives the
  string back.
\<close>
theorem split_string_fields:
  assumes "0 < mx"
  shows "loc_util_split_string s mx d = take mx (fields d s)
    \<and> (\<forall>f \<in> set (loc_util_split_string s mx d). d \<notin> set f)
    \<and> (length (fields d s) \<le> mx \<longrightarrow> join d (loc_util_split_string s mx d) = s)"
proof -
  obtain f fs where f: "fields d s = f # fs" by (cases "fields d s") simp_all
  have "loc_util_split_string s mx d = take mx (fields d s)"
    using split_loop_fields [of "[]" mx d s "[]"] assms f by (simp add: loc_util_split_string_def)
  then show ?thesis
    using fields_no_delimiter join_fields by (auto dest: in_set_takeD)
qed

theorem split_string_fields_witness:
  "loc_util_split_string ''a b c'' 2 CHR '' '' = [''a'', ''b'']"
  using split_string_fields [of 2 "''a b c''" "CHR '' ''"] by simp

section \<open>What an update does\<close>

text \<open>A table whose names differ and whose pointers are of a known type.\<close>

definition table_ok :: "('m, 'f) loc_param list \<Rightarrow> bool" where
  "table_ok table \<longleftrightarrow> distinct (map param_name table) \<and>
     (\<forall>e \<in> set table. param_ptr e \<noteq> None \<and> param_ptr e \<noteq> Some PtrBad)"

lemma set_config_entry_other [simp]:
  "param_name e \<noteq> v_name v \<Longrightarrow> loc_set_config_entry e v m = (-1, m)"
  by (simp add: loc_set_config_entry_def)

lemma set_config_entry_same:
  "\<lbrakk>param_name e = v_name v; param_ptr e \<noteq> None; param_ptr e \<noteq> Some PtrBad\<rbrakk>
   \<Longrightarrow> fst (loc_set_config_entry e v m) = 0"
  by (auto simp: loc_set_config_entry_def split: option.splits param_ptr.splits)

lemma set_entries_notin:
  "v_name v \<notin> param_name ` set table \<Longrightarrow> set_entries table v n m = (n, m)"
  by (induction table arbitrary: n m) (auto simp: Let_def)

lemma set_entries_in:
  "\<lbrakk>table_ok table; e \<in> set table; param_name e = v_name v\<rbrakk>
   \<Longrightarrow> set_entries table v n m = (n + 1, snd (loc_set_config_entry e v m))"
proof (induction table arbitrary: n m)
  case (Cons a table)
  have ok: "table_ok table" using Cons.prems(1) by (simp add: table_ok_def)
  show ?case
  proof (cases "a = e")
    case True
    then have "v_name v \<notin> param_name ` set table"
      using Cons.prems by (auto simp: table_ok_def)
    moreover have "fst (loc_set_config_entry a v m) = 0"
      using Cons.prems True by (intro set_config_entry_same) (auto simp: table_ok_def)
    ultimately show ?thesis using True
      by (cases "loc_set_config_entry e v m") (simp add: set_entries_notin)
  next
    case False
    then have e: "e \<in> set table" using Cons.prems(2) by simp
    then have "param_name a \<noteq> v_name v"
      using Cons.prems(1,3) by (auto simp: table_ok_def rev_image_eqI)
    then show ?thesis using Cons.IH [OF ok e Cons.prems(3)] by simp
  qed
qed simp

definition line_matches ::
  "(string \<Rightarrow> 'f) \<Rightarrow> 'f \<Rightarrow> ('m, 'f) loc_param list \<Rightarrow> string \<Rightarrow> bool" where
  "line_matches atof zero table line \<longleftrightarrow>
     (case parse_item atof zero line of None \<Rightarrow> False | Some v \<Rightarrow> v_name v \<in> param_name ` set table)"

definition line_update ::
  "(string \<Rightarrow> 'f) \<Rightarrow> 'f \<Rightarrow> ('m, 'f) loc_param list \<Rightarrow> string \<Rightarrow> 'm \<Rightarrow> 'm" where
  "line_update atof zero table line m = snd (loc_fill_conf_item atof zero table line m)"

lemma fill_conf_item:
  assumes "table_ok table"
  shows "loc_fill_conf_item atof zero table line m =
    (if line_matches atof zero table line then 1 else 0, line_update atof zero table line m)"
proof (cases "parse_item atof zero line")
  case (Some v)
  show ?thesis
  proof (cases "v_name v \<in> param_name ` set table")
    case True
    then obtain e where "e \<in> set table" "param_name e = v_name v" by auto
    from set_entries_in [OF assms this] show ?thesis
      using Some True by (simp add: loc_fill_conf_item_def line_matches_def line_update_def)
  qed (use Some in \<open>simp add: loc_fill_conf_item_def line_matches_def line_update_def
         set_entries_notin\<close>)
qed (simp add: loc_fill_conf_item_def line_matches_def line_update_def)

text \<open>The tokens \<open>strtok_r\<close> finds one after the other are the fields that are not empty.\<close>

definition tokens :: "char \<Rightarrow> string \<Rightarrow> string list" where
  "tokens d s = filter (\<lambda>f. f \<noteq> []) (fields d s)"

lemma fields_append: "d \<notin> set t \<Longrightarrow> fields d (t @ d # r) = t # fields d r"
  by (induction t) auto

lemma fields_single: "d \<notin> set t \<Longrightarrow> fields d t = [t]"
  by (induction t) auto

lemma tokens_dropWhile: "tokens d (dropWhile (\<lambda>c. c = d) s) = tokens d s"
  by (induction s) (simp_all add: tokens_def)

lemma tokens_strtok:
  "tokens d s = (case strtok_r d s of None \<Rightarrow> [] | Some (t, r) \<Rightarrow> t # tokens d r)"
proof -
  let ?t = "dropWhile (\<lambda>c. c = d) s"
  let ?a = "takeWhile (\<lambda>c. c \<noteq> d) ?t" and ?b = "dropWhile (\<lambda>c. c \<noteq> d) ?t"
  have d: "d \<notin> set ?a" by (auto dest: set_takeWhileD)
  have ne: "?a \<noteq> []" if "?t \<noteq> []"
    using hd_dropWhile [OF that] that by (cases ?t) auto
  have tok: "tokens d ?t = ?a # tokens d (drop 1 ?b)" if t: "?t \<noteq> []"
  proof (cases ?b)
    case Nil
    have "?a @ ?b = ?t" by (rule takeWhile_dropWhile_id)
    then have a: "?a = ?t" by (simp only: Nil append_Nil2)
    have "fields d ?a = [?a]" by (rule fields_single [OF d])
    then have "tokens d ?a = [?a]" using ne [OF t] by (simp only: tokens_def) simp
    then have "tokens d ?t = [?a]" by (simp only: a)
    then show ?thesis by (simp only: Nil) (simp add: tokens_def)
  next
    case (Cons c r)
    then have "c = d" using hd_dropWhile [of "\<lambda>c. c \<noteq> d" ?t] by simp
    then have e: "?t = ?a @ d # r" using Cons by (metis takeWhile_dropWhile_id)
    have "fields d ?t = ?a # fields d r" by (subst e) (rule fields_append [OF d])
    then show ?thesis using Cons ne [OF t] by (simp add: tokens_def)
  qed
  have rec: "tokens d s = ?a # tokens d (drop 1 ?b)" if "?t \<noteq> []"
    using tok [OF that] by (simp only: tokens_dropWhile)
  show ?thesis
  proof (cases "?t = []")
    case True
    have "strtok_r d s = None" unfolding strtok_r_def Let_def True by simp
    moreover have "tokens d s = []"
      using tokens_dropWhile [of d s] unfolding True by (simp add: tokens_def)
    ultimately show ?thesis by simp
  next
    case False
    then have "strtok_r d s = Some (?a, drop 1 ?b)" by (simp only: strtok_r_def Let_def if_False)
    with rec [OF False] show ?thesis by (simp only: option.case prod.case)
  qed
qed

text \<open>The lines that are looked at before \<open>n\<close> of them have set a parameter.\<close>

fun consumed :: "(string \<Rightarrow> bool) \<Rightarrow> nat \<Rightarrow> string list \<Rightarrow> string list" where
  "consumed p 0 ls = []"
| "consumed p (Suc n) [] = []"
| "consumed p (Suc n) (l # ls) = l # consumed p (if p l then n else Suc n) ls"

lemma consumed_pos:
  "0 < n \<Longrightarrow> consumed p n (l # ls) = l # consumed p (if p l then n - 1 else n) ls"
  by (cases n) simp_all

lemma consumed_Nil [simp]: "consumed p n [] = []"
  by (cases n) simp_all

lemma consumed_all: "length (filter p ls) < n \<Longrightarrow> consumed p n ls = ls"
proof (induction ls arbitrary: n)
  case (Cons l ls)
  then show ?case by (auto simp: consumed_pos)
qed simp

lemma update_loop_lines:
  assumes "table_ok table"
  shows "update_loop atof zero table num data ret m =
    (let ls = consumed (line_matches atof zero table) (unat num) (tokens (CHR 0x0A) data)
     in (ret + length ls, fold (line_update atof zero table) ls m))"
proof (induction "length data" arbitrary: num data ret m rule: less_induct)
  case less
  show ?case
  proof (cases "num = 0 \<or> strtok_r (CHR 0x0A) data = None")
    case True
    then show ?thesis
      by (subst update_loop.simps) (auto simp: tokens_strtok [of _ data])
  next
    case False
    then obtain l r where s: "strtok_r (CHR 0x0A) data = Some (l, r)" and n: "num \<noteq> 0" by fastforce
    have "unat num \<noteq> 0" using n by (simp add: unat_eq_0)
    moreover have "unat (num - 1) = unat num - 1" by (rule unat_minus_one [OF n])
    ultimately show ?thesis
      using less [OF strtok_r_shorter [OF s]] n s
      by (subst update_loop.simps)
        (simp add: fill_conf_item [OF assms] tokens_strtok [of _ data] consumed_pos Let_def)
  qed
qed


text \<open>The configuration in the cleared memory of the process.\<close>

definition zero_gps :: gps_cfg where
  "zero_gps = \<lparr>INTERMEDIATE_POS = 0, ACCURACY_THRES = 0, SUPL_VER = 0, SUPL_MODE = 0,
     CAPABILITIES = 0, LPP_PROFILE = 0, XTRA_VERSION_CHECK = 0, XTRA_SERVER_1 = [],
     XTRA_SERVER_2 = [], XTRA_SERVER_3 = [], USE_EMERGENCY_PDN_FOR_EMERGENCY_SUPL = 0,
     NMEA_PROVIDER = 0, GPS_LOCK = 0, A_GLONASS_POS_PROTOCOL_SELECT = 0,
     AGPS_CERT_WRITABLE_MASK = 0\<rparr>"


section \<open>Numbers\<close>

text \<open>The decimal notation of a number, as a configuration file has it.\<close>

fun print_digits :: "nat \<Rightarrow> string \<Rightarrow> string" where
  "print_digits n acc =
     (let acc' = (char_of (48 + n mod 10) :: char) # acc
      in if n < 10 then acc' else print_digits (n div 10) acc')"

definition print_dec :: "nat \<Rightarrow> string" where
  "print_dec n = print_digits n []"

declare print_digits.simps [simp del]

definition dec_digit :: "char \<Rightarrow> bool" where
  "dec_digit c \<longleftrightarrow> c \<in> set ''0123456789''"

lemma char_of_digit: "d < 10 \<Longrightarrow> dec_digit (char_of (48 + d)) \<and> digit_of (char_of (48 + d :: nat)) = Some (int d)"
proof -
  assume "d < 10"
  then have "d \<in> {0, 1, 2, 3, 4, 5, 6, 7, 8, 9}" by auto
  then show ?thesis by (elim insertE emptyE; hypsubst; code_simp)
qed

lemma digits_value_print:
  "digits_value 10 a (print_digits n cs) =
     digits_value 10 (a * 10 ^ (length (print_digits n [])) + int n) cs"
proof (induction n arbitrary: a cs rule: less_induct)
  case (less n)
  have d: "digit_of (char_of (48 + n mod 10)) = Some (int (n mod 10))"
    using char_of_digit [of "n mod 10"] by simp
  have len: "length (print_digits m xs) = length (print_digits m []) + length xs" for m xs
  proof (induction m arbitrary: xs rule: less_induct)
    case (less m)
    show ?case
      using less [of "m div 10" "char_of (48 + m mod 10) # xs"]
        less [of "m div 10" "[char_of (48 + m mod 10)]"]
      by (subst (1 2) print_digits.simps) (simp add: Let_def)
  qed
  show ?case
  proof (cases "n < 10")
    case True
    then show ?thesis using d
      by (subst (1 2) print_digits.simps) (simp add: Let_def algebra_simps)
  next
    case False
    let ?c = "char_of (48 + n mod 10) :: char"
    have "digits_value 10 a (print_digits n cs) = digits_value 10 a (print_digits (n div 10) (?c # cs))"
      using False by (subst print_digits.simps) (simp add: Let_def)
    also have "\<dots> = digits_value 10 (a * 10 ^ length (print_digits (n div 10) []) + int (n div 10)) (?c # cs)"
      using False less [of "n div 10"] by simp
    also have "\<dots> = digits_value 10 ((a * 10 ^ length (print_digits (n div 10) [])
        + int (n div 10)) * 10 + int (n mod 10)) cs"
      using d by simp
    also have "(a * 10 ^ length (print_digits (n div 10) []) + int (n div 10)) * 10 + int (n mod 10)
        = a * 10 ^ length (print_digits n []) + int n"
    proof -
      have "length (print_digits n []) = length (print_digits (n div 10) []) + 1"
        using False len [of "n div 10" "[?c]"] by (subst print_digits.simps) (simp add: Let_def)
      moreover have "int (n div 10) * 10 + int (n mod 10) = int n" by presburger
      ultimately show ?thesis by (simp add: algebra_simps)
    qed
    finally show ?thesis .
  qed
qed

lemma print_digits_digits: "(\<forall>c \<in> set cs. dec_digit c) \<Longrightarrow> \<forall>c \<in> set (print_digits n cs). dec_digit c"
proof (induction n arbitrary: cs rule: less_induct)
  case (less n)
  define c :: char where "c = char_of (48 + n mod 10)"
  have all: "\<forall>c \<in> set (c # cs). dec_digit c"
    using less.prems char_of_digit [of "n mod 10"] by (simp add: c_def)
  have step: "print_digits n cs = (if n < 10 then c # cs else print_digits (n div 10) (c # cs))"
    by (subst print_digits.simps) (simp only: Let_def c_def)
  show ?case
  proof (cases "n < 10")
    case True
    then show ?thesis using all by (simp only: step if_True)
  next
    case False
    then have "n div 10 < n" by simp
    from less.IH [OF this all] False show ?thesis by (simp only: step if_False)
  qed
qed

lemma print_digits_ne: "print_digits n cs \<noteq> []"
proof (induction n arbitrary: cs rule: less_induct)
  case (less n)
  then show ?case by (subst print_digits.simps) (simp add: Let_def)
qed

lemma dec_digit_chars: "dec_digit c \<Longrightarrow>
    \<not> isspace c \<and> c \<noteq> CHR ''-'' \<and> c \<noteq> CHR ''+'' \<and> c \<noteq> CHR ''x'' \<and> c \<noteq> CHR ''X'' \<and> c \<noteq> CHR ''=''"
  by (auto simp: dec_digit_def isspace_def)

lemma atoi_print: "atoi (print_dec n) = clamp_long (int n)"
proof -
  have all: "\<forall>c \<in> set (print_dec n). dec_digit c"
    unfolding print_dec_def by (rule print_digits_digits) simp
  obtain c cs where c: "print_dec n = c # cs"
    using print_digits_ne [of n "[]"] by (cases "print_dec n") (simp_all add: print_dec_def)
  then have "dec_digit c" using all by simp
  note ch = dec_digit_chars [OF this]
  have "digits_value 10 0 (c # cs) = int n"
    using digits_value_print [of 0 n "[]"] c by (simp add: print_dec_def)
  moreover have "skip_0x 10 (c # cs) = c # cs" by (simp add: skip_0x_def split: list.split)
  ultimately show ?thesis using c ch by (simp add: atoi_def strtol_def)
qed

lemma strtok_r_two:
  assumes "d \<notin> set t" "t \<noteq> []"
  shows "strtok_r d (t @ d # r) = Some (t, r)" "strtok_r d t = Some (t, [])"
proof -
  obtain c cs where t: "t = c # cs" "c \<noteq> d" using assms by (cases t) auto
  have "takeWhile (\<lambda>c. c \<noteq> d) (cs @ d # r) = cs" "dropWhile (\<lambda>c. c \<noteq> d) (cs @ d # r) = d # r"
    using assms t by (auto simp: takeWhile_append dropWhile_append)
  then show "strtok_r d (t @ d # r) = Some (t, r)" using t by (simp add: strtok_r_def)
  have "\<forall>c \<in> set cs. c \<noteq> d" using assms t by auto
  then have "takeWhile (\<lambda>c. c \<noteq> d) cs = cs" "dropWhile (\<lambda>c. c \<noteq> d) cs = []"
    by (simp_all add: takeWhile_eq_all_conv)
  then show "strtok_r d t = Some (t, [])" using t by (simp add: strtok_r_def del: dropWhile_eq_Nil_conv)
qed

text \<open>A name or value without white space around it.\<close>

definition trimmed :: "string \<Rightarrow> bool" where
  "trimmed s \<longleftrightarrow> s \<noteq> [] \<and> \<not> isspace (hd s) \<and> \<not> isspace (last s)"

lemma trim_trimmed: "trimmed s \<Longrightarrow> loc_util_trim_space s = s"
proof -
  assume t: "trimmed s"
  then have "dropWhile isspace s = s" by (cases s) (simp_all add: trimmed_def)
  then have "strip s = s" using t rstrip_id by (simp add: strip_def trimmed_def)
  then show ?thesis by (simp add: trim_space_eq)
qed

lemma print_dec_digits: "print_dec n \<noteq> []" "c \<in> set (print_dec n) \<Longrightarrow> dec_digit c"
  using print_digits_ne print_digits_digits [of "[]"] by (auto simp: print_dec_def)

lemma print_dec_trimmed: "trimmed (print_dec n)"
  using print_dec_digits dec_digit_chars hd_in_set last_in_set
  by (metis trimmed_def)

lemma print_dec_not_hex: "\<not> is_hex (print_dec n)"
proof
  assume h: "is_hex (print_dec n)"
  then have "print_dec n ! 1 \<in> set (print_dec n)" by (auto simp: is_hex_def)
  then show False using h dec_digit_chars print_dec_digits(2) by (metis is_hex_def)
qed

text \<open>
  A line that assigns a number in decimal notation to a number parameter of the table sets
  that parameter, and nothing else, to this number, up to the largest value of the 32-bit
  \<open>long\<close>: every larger number, such as a mask with its highest bit set, becomes 0x7fffffff.
\<close>
theorem conf_number_roundtrip:
  assumes "table_ok table" "e \<in> set table" "param_ptr e = Some (PtrN w)" "param_set e = None"
    and "trimmed (param_name e)" "CHR ''='' \<notin> set (param_name e)"
  shows "loc_fill_conf_item atof zero table (param_name e @ CHR ''='' # print_dec n) m =
    (1, w (if n \<le> 0x7FFFFFFF then of_nat n else 0x7FFFFFFF) m)"
proof -
  have eq: "CHR ''='' \<notin> set (print_dec n)" using dec_digit_chars print_dec_digits(2) by blast
  have name: "param_name e \<noteq> []" using assms(5) by (simp add: trimmed_def)
  define v where "v = conf_value atof zero (param_name e) (print_dec n)"
  have "parse_item atof zero (param_name e @ CHR ''='' # print_dec n) = Some v"
    using strtok_r_two(1) [OF assms(6) name, of "print_dec n"] strtok_r_two(2) [OF eq print_dec_digits(1)]
      trim_trimmed [OF assms(5)] trim_trimmed [OF print_dec_trimmed]
    by (simp add: parse_item_def v_def)
  moreover have v: "v_name v = param_name e" "v_int_value v = clamp_long (int n)"
    using print_dec_not_hex by (simp_all add: v_def conf_value_def atoi_print)
  ultimately have "loc_fill_conf_item atof zero table (param_name e @ CHR ''='' # print_dec n) m =
      (1, snd (loc_set_config_entry e v m))"
    using set_entries_in [OF assms(1,2), of v 0 m] by (simp add: loc_fill_conf_item_def)
  moreover have "(word_of_int (clamp_long (int n)) :: uint32) =
      (if n \<le> 0x7FFFFFFF then of_nat n else 0x7FFFFFFF)"
    by (auto simp: clamp_long_def LONG_MAX_def LONG_MIN_def)
  ultimately show ?thesis
    using assms(3,4) v by (simp add: loc_set_config_entry_def mark_set_def)
qed

theorem conf_number_roundtrip_witness:
  "AGPS_CERT_WRITABLE_MASK (snd (loc_fill_conf_item (\<lambda>s. ()) () gps_conf_table
     (''AGPS_CERT_WRITABLE_MASK='' @ print_dec 4294967295) (default_gps zero_gps))) = 0x7FFFFFFF"
proof -
  let ?e = "num_param ''AGPS_CERT_WRITABLE_MASK'' (\<lambda>v c. c\<lparr>AGPS_CERT_WRITABLE_MASK := v\<rparr>)
    :: (gps_cfg, unit) loc_param"
  have t: "table_ok (gps_conf_table :: (gps_cfg, unit) loc_param list)" "?e \<in> set gps_conf_table"
    by (simp_all add: table_ok_def gps_conf_table_def num_param_def str_param_def)
  show ?thesis
    using conf_number_roundtrip [OF t, where n = 4294967295 and m = "default_gps zero_gps" and atof = "\<lambda>s. ()" and zero = "()"]
    by (simp add: num_param_def trimmed_def isspace_def)
qed

section \<open>Two surprises\<close>

text \<open>A configuration that sets every parameter of the table, the last of them to 0.\<close>

definition full_update :: string where
  "full_update = concat (map (\<lambda>n. n @ ''=1'' @ [CHR 0x0A])
     [''GPS_LOCK'', ''SUPL_VER'', ''LPP_PROFILE'', ''A_GLONASS_POS_PROTOCOL_SELECT'',
      ''AGPS_CERT_WRITABLE_MASK'', ''SUPL_MODE'', ''INTERMEDIATE_POS'', ''ACCURACY_THRES'',
      ''NMEA_PROVIDER'', ''CAPABILITIES'', ''XTRA_VERSION_CHECK'', ''XTRA_SERVER_1'',
      ''XTRA_SERVER_2'', ''XTRA_SERVER_3''])
     @ ''USE_EMERGENCY_PDN_FOR_EMERGENCY_SUPL=0''"

text \<open>
  An update that sets all parameters of \<open>gps_conf_table\<close> loses the last one: the loop starts
  with one parameter less than the table has, and stops after the fourteenth line.
\<close>
theorem update_conf_loses_last:
  "fst (loc_update_conf atof zero gps_conf_table (Some full_update) c) = 14
   \<and> GPS_LOCK (snd (loc_update_conf atof zero gps_conf_table (Some full_update) c)) = 1
   \<and> USE_EMERGENCY_PDN_FOR_EMERGENCY_SUPL
       (snd (loc_update_conf atof zero gps_conf_table (Some full_update) c))
     = USE_EMERGENCY_PDN_FOR_EMERGENCY_SUPL c"
  by (intro conjI; code_simp; simp)

text \<open>
  A line of the file with an empty value sets a string parameter to a line feed: the value is
  the end of the line, and trimming leaves a string of white space as it is.
\<close>
theorem read_conf_empty_value:
  "XTRA_SERVER_1 (snd (loc_read_conf_r atof zero gps_conf_table
     (Some (''XTRA_SERVER_1='' @ [CHR 0x0A])) c)) = [CHR 0x0A]"
  by (code_simp; simp)

end
