(* ===== verification/Loc_Xtra.thy ===== *)
theory Loc_Xtra
  imports Loc_Cfg "HOL-Library.Sublist"
begin

text \<open>
  The texts the location engine prepares for the XTRA download
  (\<open>src/gps/loc_api/libloc_api_50001/LocEngAdapter.cpp\<close>, \<open>LocEngAdapter::setXtraUserAgent\<close>, and
  \<open>loc_eng.cpp\<close>, \<open>LocEngReportXtraServer\<close>): the percent encoding of the device's properties, the
  chip's serial number, the user agent, and the list of servers.

  A C string is a \<open>string\<close> without its terminating NUL.
\<close>

section \<open>Percent encoding\<close>

definition encodings :: "(char \<times> string) list" where
  "encodings = [(CHR ''/'', ''%2F''), (CHR ''+'', ''%2B''), (CHR ''|'', ''%7C''), (CHR ''%'', ''%25'')]"

definition NUM_CHARS_IN_CODE :: nat where "NUM_CHARS_IN_CODE = 3"

text \<open>The copy of a code into the buffer, one character at a time.\<close>

fun copy_code :: "nat \<Rightarrow> string \<Rightarrow> nat \<Rightarrow> string \<Rightarrow> string" where
  "copy_code sz code 0 buffer = buffer"
| "copy_code sz [] (Suc k) buffer = buffer"
| "copy_code sz (c # code) (Suc k) buffer =
     (if length buffer < sz - 1 then copy_code sz code k (buffer @ [c]) else buffer)"

fun encode_loop :: "nat \<Rightarrow> string \<Rightarrow> string \<Rightarrow> string" where
  "encode_loop sz [] buffer = buffer"
| "encode_loop sz (c # value) buffer =
     (if length buffer < sz - 1
      then (case map_of encodings c of
              None \<Rightarrow> encode_loop sz value (buffer @ [c])
            | Some code \<Rightarrow>
                if length buffer + NUM_CHARS_IN_CODE \<ge> sz then buffer
                else encode_loop sz value (copy_code sz code NUM_CHARS_IN_CODE buffer))
      else buffer)"

definition encodeInPlace :: "string \<Rightarrow> nat \<Rightarrow> string" where
  "encodeInPlace value sz = encode_loop sz value []"

section \<open>The serial number of the chip\<close>

text \<open>
  The loop \<open>while (--len >= 0 && isspace(buf[len]))\<close>: \<open>len\<close> has the type \<open>size_t\<close>, so the first
  condition is always true.  \<open>None\<close> is the read before the buffer.
\<close>

fun strip_loop :: "nat \<Rightarrow> string \<Rightarrow> string option" where
  "strip_loop 0 buf = None"
| "strip_loop (Suc len) buf =
     (if isspace (buf ! len) then strip_loop len (take len buf) else Some buf)"

text \<open>\<open>content\<close> is what can be read of the file, \<open>None\<close> if it cannot be opened.\<close>

definition getChipsetSerialNo :: "string option \<Rightarrow> nat \<Rightarrow> string \<Rightarrow> string option" where
  "getChipsetSerialNo content buflen def =
     (case content of
        None \<Rightarrow> Some (strlcpy buflen def)
      | Some file \<Rightarrow>
          (let buf = (if take (buflen - 1) file = [] then strlcpy buflen def
                      else takeWhile (\<lambda>c. c \<noteq> CHR 0x00) (take (buflen - 1) file))
           in strip_loop (length buf) buf))"

section \<open>The user agent\<close>

definition USER_AGENT_MAX_LEN :: nat where "USER_AGENT_MAX_LEN = 512"

record device =
  release :: string
  manufacture :: string
  dev_model :: string
  board :: string
  brand :: string
  serial_file :: "string option"

definition hash_spaces :: "string \<Rightarrow> string" where
  "hash_spaces s = map (\<lambda>c. if c = CHR '' '' then CHR ''#'' else c) s"

text \<open>\<open>PROPERTY_VALUE_MAX\<close> is a parameter; \<open>izat\<close> is the identifier the modem gives.\<close>

definition xtra_user_agent :: "nat \<Rightarrow> uint32 \<Rightarrow> device \<Rightarrow> string option" where
  "xtra_user_agent PROPERTY_VALUE_MAX izat d =
     (case getChipsetSerialNo (serial_file d) 16 ''-'' of
        None \<Rightarrow> None
      | Some chipsetsn \<Rightarrow>
          (let enc = (\<lambda>v. encodeInPlace v PROPERTY_VALUE_MAX);
               text = ''A/'' @ enc (release d) @ ''/'' @ enc (manufacture d) @ ''/'' @ enc (dev_model d)
                 @ ''/'' @ enc (board d) @ ''/-/QCX3/s'' @ print_dec (unat izat) @ ''/-/'' @ chipsetsn
                 @ ''/-/'' @ enc (brand d) @ ''/-/-/-''
           in Some (hash_spaces (take (USER_AGENT_MAX_LEN - 1) text))))"

section \<open>The servers\<close>

definition XTRA1_GPSONEXTRA :: string where "XTRA1_GPSONEXTRA = ''xtra1.gpsonextra.net''"

definition to_lower :: "char \<Rightarrow> char" where
  "to_lower c = (if c \<in> set ''ABCDEFGHIJKLMNOPQRSTUVWXYZ'' then char_of (of_char c + 32 :: nat) else c)"

text \<open>\<open>strcasestr\<close>, as far as whether it finds something.\<close>

definition strcasestr :: "string \<Rightarrow> string \<Rightarrow> bool" where
  "strcasestr s t \<longleftrightarrow> sublist (map to_lower t) (map to_lower s)"

definition xtra_servers :: "gps_cfg \<Rightarrow> string \<Rightarrow> string \<Rightarrow> string \<Rightarrow> nat \<Rightarrow> string \<times> string \<times> string" where
  "xtra_servers conf url1 url2 url3 maxlen =
     (let override = (\<lambda>c u. if c \<noteq> [] then c else u);
          urls = [override (XTRA_SERVER_1 conf) url1, override (XTRA_SERVER_2 conf) url2,
                  override (XTRA_SERVER_3 conf) url3];
          kept = map (strlcpy (maxlen + 1)) (filter (\<lambda>u. \<not> strcasestr u XTRA1_GPSONEXTRA) urls);
          padded = kept @ replicate (3 - length kept) []
      in (padded ! 0, padded ! 1, padded ! 2))"

section \<open>What the encoding keeps\<close>

definition enc :: "char \<Rightarrow> string" where
  "enc c = (case map_of encodings c of None \<Rightarrow> [c] | Some code \<Rightarrow> code)"

definition separator :: "char \<Rightarrow> bool" where
  "separator c \<longleftrightarrow> c \<in> set ''/+|%''"

text \<open>The reader of the user agent: the four codes are characters again.\<close>

function percent_decode :: "string \<Rightarrow> string" where
  "percent_decode [] = []"
| "percent_decode (c # cs) =
     (case find (\<lambda>(ch, code). prefix code (c # cs)) encodings of
        None \<Rightarrow> c # percent_decode cs
      | Some (ch, code) \<Rightarrow> ch # percent_decode (drop 2 cs))"
  by pat_completeness auto
termination by (relation "measure length") auto

lemma enc_separator: "separator c \<Longrightarrow> length (enc c) = 3"
  and enc_other: "\<not> separator c \<Longrightarrow> enc c = [c]"
  by (auto simp: separator_def enc_def encodings_def)

lemma enc_length: "length (enc c) = (if separator c then 3 else 1)"
  using enc_separator enc_other by auto

lemma enc_clean: "d \<in> set (enc c) \<Longrightarrow> d \<notin> set ''/+|''"
  by (cases "separator c") (auto simp: enc_other separator_def enc_def encodings_def)

lemma decode_enc: "percent_decode (enc c @ cs) = c # percent_decode cs"
proof (cases "separator c")
  case True
  then have "c = CHR ''/'' \<or> c = CHR ''+'' \<or> c = CHR ''|'' \<or> c = CHR ''%''"
    by (simp add: separator_def)
  then show ?thesis by (elim disjE) (simp_all add: enc_def encodings_def)
next
  case False
  then show ?thesis by (auto simp: enc_other separator_def encodings_def)
qed

lemma decode_encs: "percent_decode (concat (map enc w)) = w"
  by (induction w) (simp_all add: decode_enc)

lemma copy_code_all:
  "length buffer + k < sz \<Longrightarrow> copy_code sz code k buffer = buffer @ take k code"
  by (induction sz code k buffer rule: copy_code.induct) auto

lemma encode_loop_step:
  "encode_loop sz (c # v) buffer =
     (if length buffer + length (enc c) < sz then encode_loop sz v (buffer @ enc c) else buffer)"
proof (cases "separator c")
  case True
  then have "\<exists>code. map_of encodings c = Some code \<and> length code = 3 \<and> enc c = code"
    by (auto simp: separator_def enc_def encodings_def)
  then show ?thesis by (auto simp: copy_code_all NUM_CHARS_IN_CODE_def)
next
  case False
  then have "map_of encodings c = None" by (auto simp: separator_def encodings_def)
  with False show ?thesis by (auto simp: enc_other)
qed

lemma encode_loop_prefix:
  assumes "length buffer < sz"
  obtains k where "k \<le> length v" "encode_loop sz v buffer = buffer @ concat (map enc (take k v))"
    "length (encode_loop sz v buffer) < sz"
    "length buffer + length (concat (map enc v)) < sz \<Longrightarrow> k = length v"
  using assms
proof (induction v arbitrary: buffer thesis)
  case Nil
  then show ?case by simp
next
  case (Cons c v)
  show ?case
  proof (cases "length buffer + length (enc c) < sz")
    case True
    then have l: "length (buffer @ enc c) < sz" by simp
    from Cons.IH [OF _ l] obtain k where k: "k \<le> length v"
      "encode_loop sz v (buffer @ enc c) = (buffer @ enc c) @ concat (map enc (take k v))"
      "length (encode_loop sz v (buffer @ enc c)) < sz"
      "length (buffer @ enc c) + length (concat (map enc v)) < sz \<Longrightarrow> k = length v" by blast
    show ?thesis
    proof (rule Cons.prems(1) [of "Suc k"])
      show "Suc k \<le> length (c # v)" using k(1) by simp
      show "encode_loop sz (c # v) buffer = buffer @ concat (map enc (take (Suc k) (c # v)))"
        by (simp only: encode_loop_step True if_True k(2)) simp
      show "length (encode_loop sz (c # v) buffer) < sz"
        by (simp only: encode_loop_step True if_True k(3))
      show "Suc k = length (c # v)" if "length buffer + length (concat (map enc (c # v))) < sz"
        using that k(4) by simp
    qed
  next
    case False
    show ?thesis
    proof (rule Cons.prems(1) [of 0])
      show "encode_loop sz (c # v) buffer = buffer @ concat (map enc (take 0 (c # v)))"
        by (simp only: encode_loop_step False if_False) simp
      show "length (encode_loop sz (c # v) buffer) < sz"
        using Cons.prems(2) by (simp only: encode_loop_step False if_False)
      show "0 = length (c # v)" if "length buffer + length (concat (map enc (c # v))) < sz"
        using that False by simp
    qed simp
  qed
qed

lemma length_encs: "length (concat (map enc v)) = length v + 2 * length (filter separator v)"
  by (induction v) (simp_all add: enc_length)

text \<open>
  C37: The encoding of a property fits the buffer it came from, contains none of the separators of
  the user agent, and decodes to a prefix of the property: to all of it when there is room for the
  codes.
\<close>
theorem xtra_encode_roundtrip:
  assumes "0 < sz"
  shows "length (encodeInPlace v sz) < sz \<and> set (encodeInPlace v sz) \<inter> set ''/+|'' = {} \<and>
    (\<exists>k \<le> length v. percent_decode (encodeInPlace v sz) = take k v \<and>
       (length v + 2 * length (filter separator v) < sz \<longrightarrow> k = length v))"
proof -
  obtain k where k: "k \<le> length v" "encodeInPlace v sz = concat (map enc (take k v))"
    "length (encodeInPlace v sz) < sz"
    "length (concat (map enc v)) < sz \<Longrightarrow> k = length v"
    using encode_loop_prefix [of "[]" sz v] assms unfolding encodeInPlace_def by auto
  have "set (encodeInPlace v sz) \<inter> set ''/+|'' = {}"
    using enc_clean unfolding k(2) by fastforce
  moreover have "percent_decode (encodeInPlace v sz) = take k v"
    unfolding k(2) by (rule decode_encs)
  ultimately show ?thesis using k(1,3,4) by (auto simp: length_encs)
qed

theorem xtra_encode_roundtrip_witness:
  "encodeInPlace ''4.4/a+b'' 92 = ''4.4%2Fa%2Bb'' \<and> percent_decode (encodeInPlace ''4.4/a+b'' 92) = ''4.4/a+b''"
proof
  show "encodeInPlace ''4.4/a+b'' 92 = ''4.4%2Fa%2Bb''" by code_simp
  show "percent_decode (encodeInPlace ''4.4/a+b'' 92) = ''4.4/a+b''"
    using xtra_encode_roundtrip [of 92 "''4.4/a+b''"] by (auto simp: separator_def)
qed

section \<open>The serial number\<close>

lemma strip_loop_eq:
  "strip_loop (length b) b = (if (\<forall>c \<in> set b. isspace c) then None else Some (rstrip b))"
proof (induction b rule: rev_induct)
  case (snoc c b)
  then show ?case by (auto simp: rstrip_def)
qed simp

text \<open>
  The trailing spaces of the serial number are removed, if there is anything else in it; when
  the file starts with a NUL or has nothing but white space in its first bytes, the loop reads
  before the buffer.
\<close>
theorem chipset_serial_trimmed:
  assumes "take (n - 1) file \<noteq> []"
  shows "getChipsetSerialNo (Some file) n def =
    (let text = takeWhile (\<lambda>c. c \<noteq> CHR 0x00) (take (n - 1) file)
     in if \<forall>c \<in> set text. isspace c then None else Some (rstrip text))"
  using assms by (simp add: getChipsetSerialNo_def Let_def strip_loop_eq)

theorem chipset_serial_trimmed_witness:
  "getChipsetSerialNo (Some ''12 '') 16 ''-'' = Some ''12'' \<and> getChipsetSerialNo (Some '' '') 16 ''-'' = None"
  using chipset_serial_trimmed [of 16 "''12 ''" "''-''"] chipset_serial_trimmed [of 16 "'' ''" "''-''"]
  by (simp add: isspace_def rstrip_def)

lemma hash_spaces_no_space: "CHR '' '' \<notin> set (hash_spaces s)"
  by (auto simp: hash_spaces_def)

lemma xtra_user_agent_bounded:
  "xtra_user_agent n i d = Some s \<Longrightarrow> length s < USER_AGENT_MAX_LEN \<and> CHR '' '' \<notin> set s"
  unfolding xtra_user_agent_def Let_def USER_AGENT_MAX_LEN_def
  by (auto simp: hash_spaces_no_space split: option.splits) (simp add: hash_spaces_def)

end
