(* ===== verification/Loc_Eng_State.thy ===== *)
theory Loc_Eng_State
  imports Complex_Main Loc_Ni Loc_Agps Loc_Xtra
begin

text \<open>
  The state of the location engine and its adapter
  (\<open>src/gps/loc_api/libloc_api_50001/loc_eng.h\<close>, \<open>LocEngAdapter.h\<close> and \<open>.cpp\<close>,
  \<open>src/gps/core/gps_extended.h\<close>, \<open>UlpProxyBase.h\<close>): the types, the messages of the engine's queue,
  the record of everything the engine keeps, and the adapter's operations on it.
\<close>

unbundle bit_operations_syntax

section \<open>Constants and small types\<close>

text \<open>The bits of \<open>gps_conf.CAPABILITIES\<close>, as \<open>gps.conf\<close> and \<open>getCarrierCapabilities\<close> have them.\<close>

definition GPS_CAPABILITY_MSB :: uint32 where "GPS_CAPABILITY_MSB = 0x2"
definition GPS_CAPABILITY_MSA :: uint32 where "GPS_CAPABILITY_MSA = 0x4"
definition GPS_CAPABILITY_ON_DEMAND_TIME :: uint32 where "GPS_CAPABILITY_ON_DEMAND_TIME = 0x10"

text \<open>The values of \<open>enum loc_api_adapter_err\<close> the engine looks at.\<close>

definition ERR_SUCCESS :: int where "ERR_SUCCESS = 0"
definition ERR_PHONE_OFFLINE :: int where "ERR_PHONE_OFFLINE = 7"
definition ERR_INTERNAL :: int where "ERR_INTERNAL = 10"
definition ERR_ENGINE_DOWN :: int where "ERR_ENGINE_DOWN = ERR_PHONE_OFFLINE"

datatype GpsStatusValue =
  GPS_STATUS_NONE | GPS_STATUS_SESSION_BEGIN | GPS_STATUS_SESSION_END |
  GPS_STATUS_ENGINE_ON | GPS_STATUS_ENGINE_OFF

datatype loc_sess_status = LOC_SESS_SUCCESS | LOC_SESS_INTERMEDIATE | LOC_SESS_FAILURE

text \<open>\<open>boolean\<close> is an unsigned char; the code compares one with the second value of the enumeration.\<close>

definition sess_status_value :: "loc_sess_status \<Rightarrow> uint8" where
  "sess_status_value s =
     (case s of LOC_SESS_SUCCESS \<Rightarrow> 0 | LOC_SESS_INTERMEDIATE \<Rightarrow> 1 | LOC_SESS_FAILURE \<Rightarrow> 2)"

datatype GpsPositionRecurrence = GPS_POSITION_RECURRENCE_PERIODIC | GPS_POSITION_RECURRENCE_SINGLE

text \<open>\<open>LocPosMode\<close>; the modes are the values of \<open>LocPositionMode\<close>, -1 for an invalid one.\<close>

definition LOC_POSITION_MODE_INVALID :: int where "LOC_POSITION_MODE_INVALID = -1"
definition LOC_POSITION_MODE_STANDALONE :: int where "LOC_POSITION_MODE_STANDALONE = 0"
definition MIN_POSSIBLE_FIX_INTERVAL :: uint32 where "MIN_POSSIBLE_FIX_INTERVAL = 1000"

record LocPosMode =
  pmode :: int
  recurrence :: GpsPositionRecurrence
  min_interval :: uint32
  preferred_accuracy :: uint32
  preferred_time :: uint32
  credentials :: string
  provider :: string

definition new_LocPosMode ::
  "int \<Rightarrow> GpsPositionRecurrence \<Rightarrow> uint32 \<Rightarrow> uint32 \<Rightarrow> uint32 \<Rightarrow> LocPosMode" where
  "new_LocPosMode m recr gap accu time =
     \<lparr>pmode = m, recurrence = recr,
      min_interval = (if gap < MIN_POSSIBLE_FIX_INTERVAL then MIN_POSSIBLE_FIX_INTERVAL else gap),
      preferred_accuracy = accu, preferred_time = time, credentials = [], provider = []\<rparr>"

text \<open>The adapter's mode after \<open>memset\<close> and before the first one is set.\<close>

definition no_mode :: LocPosMode where
  "no_mode = \<lparr>pmode = LOC_POSITION_MODE_INVALID, recurrence = GPS_POSITION_RECURRENCE_PERIODIC,
     min_interval = 0, preferred_accuracy = 0, preferred_time = 0, credentials = [], provider = []\<rparr>"

text \<open>The bits of \<open>LocPosTechMask\<close>.\<close>

definition LOC_POS_TECH_MASK_SATELLITE :: uint32 where "LOC_POS_TECH_MASK_SATELLITE = 0x1"
definition LOC_POS_TECH_MASK_SENSORS :: uint32 where "LOC_POS_TECH_MASK_SENSORS = 0x8"
definition LOC_POS_TECH_MASK_HYBRID :: uint32 where "LOC_POS_TECH_MASK_HYBRID = 0x80"

text \<open>
  A position, as far as the engine looks at it: whether it has an accuracy, and the accuracy in
  metres.  The \<open>float\<close> is a rational number; the threshold, an unsigned number, is converted.
\<close>

record UlpLocation =
  has_accuracy :: bool
  accuracy :: rat
  pos_id :: nat

datatype LocServerType =
  LOC_AGPS_CDMA_PDE_SERVER | LOC_AGPS_CUSTOM_PDE_SERVER | LOC_AGPS_MPC_SERVER | LOC_AGPS_SUPL_SERVER

abbreviation "AGPS_TYPE_WWAN_ANY \<equiv> (3 :: int)"
abbreviation "AGPS_TYPE_WIFI \<equiv> (4 :: int)"
abbreviation "AGPS_TYPE_SUPL_ES \<equiv> (5 :: int)"

section \<open>Calls to the modem and to the client\<close>

datatype modem_call =
    M_startFix LocPosMode | M_stopFix | M_setPositionMode LocPosMode | M_setInSession bool
  | M_deleteAidingData uint32 | M_enableData int | M_setAPN string
  | M_setServerUrl string | M_setServerIpv4 uint32 int LocServerType
  | M_setSUPLVersion uint32 | M_setLPPConfig uint32 | M_setAGLONASSProtocol uint32
  | M_setSensorControlConfig uint32 uint32 | M_setSensorProperties "(bool \<times> rat) list"
  | M_setSensorPerfControlConfig "uint32 list"
  | M_setXtraVersionCheck int | M_setGpsLock uint32 | M_gnssConstellationConfig
  | M_setTime int | M_injectPosition nat | M_installAGpsCert nat uint32
  | M_atlOpenStatus uint32 int int | M_atlCloseStatus uint32 int | M_initDataServiceClient
  | M_getZpp | M_updateRegistrationMask bool | M_setXtraData nat | M_requestXtraServer
  | M_modemPowerVote bool | M_requestUlp uint32

datatype client_call =
    C_location "UlpLocation option" | C_status GpsStatusValue | C_sv nat | C_measurement nat
  | C_capabilities uint32 | C_request_time | C_xtra_download | C_xtra_server "string \<times> string \<times> string" | C_nmea_pos bool | C_nmea_sv nat | C_nmea nat

section \<open>The proxy to the position engine (ULP)\<close>

text \<open>
  \<open>UlpProxyBase\<close> remembers the mode and whether a fix is set and takes no request over.  Another
  proxy comes from a library that is not part of the sources: \<open>ext_takes\<close> says whether it takes
  the requests over, and the requests sent to it are recorded.
\<close>

datatype ulp_call =
    U_startFix | U_stopFix | U_fixMode LocPosMode | U_capabilities uint32
  | U_position UlpLocation loc_sess_status uint32 | U_sv nat | U_status GpsStatusValue

record ulp_proxy =
  ext_takes :: "bool option"
  mPosMode :: LocPosMode
  mFixSet :: bool
  ulp_calls :: "ulp_call list"

definition new_UlpProxyBase :: ulp_proxy where
  "new_UlpProxyBase = \<lparr>ext_takes = None, mPosMode = no_mode, mFixSet = False, ulp_calls = []\<rparr>"

definition takes :: "ulp_proxy \<Rightarrow> bool" where
  "takes u = (case ext_takes u of None \<Rightarrow> False | Some b \<Rightarrow> b)"

definition log_ulp :: "ulp_call \<Rightarrow> ulp_proxy \<Rightarrow> ulp_proxy" where
  "log_ulp c u = (if ext_takes u = None then u else u\<lparr>ulp_calls := ulp_calls u @ [c]\<rparr>)"

definition sendStartFix :: "ulp_proxy \<Rightarrow> bool \<times> ulp_proxy" where
  "sendStartFix u = (takes u, log_ulp U_startFix (u\<lparr>mFixSet := True\<rparr>))"

definition sendStopFix :: "ulp_proxy \<Rightarrow> bool \<times> ulp_proxy" where
  "sendStopFix u = (takes u, log_ulp U_stopFix (u\<lparr>mFixSet := False\<rparr>))"

definition sendFixMode :: "LocPosMode \<Rightarrow> ulp_proxy \<Rightarrow> bool \<times> ulp_proxy" where
  "sendFixMode m u = (takes u, log_ulp (U_fixMode m) (u\<lparr>mPosMode := m\<rparr>))"

text \<open>The reports of the modem go through the proxy; the base class does nothing with them.\<close>

definition ulp_report :: "ulp_call \<Rightarrow> ulp_proxy \<Rightarrow> bool \<times> ulp_proxy" where
  "ulp_report c u = (takes u, log_ulp c u)"

definition ulp_setCapabilities :: "uint32 \<Rightarrow> ulp_proxy \<Rightarrow> ulp_proxy" where
  "ulp_setCapabilities c u = log_ulp (U_capabilities c) u"

section \<open>Messages and state\<close>

text \<open>The state machines of the engine, by the field of \<open>loc_eng_data\<close> that holds them.\<close>

datatype nif = Agnss | Internet | Wifi | Ds

datatype loc_msg =
    LocEngStartFix | LocEngStopFix | LocEngPositionMode LocPosMode
  | LocEngReportPosition UlpLocation loc_sess_status uint32
  | LocEngReportSv nat | LocEngReportNmea nat | LocEngReportStatus GpsStatusValue | LocEngReportGpsMeasurement nat
  | LocEngDelAidData uint32 | LocEngDown | LocEngUp
  | LocEngInit | LocEngSetCapabilities | LocEngGnssConstellationConfig
  | LocEngSuplVer uint32 | LocEngLppConfig uint32 | LocEngAGlonassProtocol uint32 | LocEngSuplMode nat
  | LocEngSensorControlConfig uint32 uint32 | LocEngSensorProperties "(bool \<times> rat) list"
  | LocEngSensorPerfControlConfig "uint32 list"
  | LocEngEnableData "string option" int | LocEngSetXtraVersionCheck uint32
  | LocEngSetServerUrl string | LocEngSetServerIpv4 uint32 int LocServerType
  | LocEngSetTime int | LocEngInjectLocation nat | LocEngInstallAGpsCert nat uint32
  | LocEngRequestNi ni_notification "addr option" | LocEngRequestTime | LocEngRequestXtra
  | LocEngRequestATL uint32 int | LocEngReleaseATL uint32 | LocEngRequestSuplEs uint32
  | LocEngAtlOpenSuccess "nif option" string int | LocEngAtlClosed "nif option"
  | LocEngAtlOpenFailed "nif option" | LocEngSuplEsOpened | LocEngSuplEsClosed
  | LocEngReqRelWifi int int "string option" "string option" bool
  | LocEngReqRelBIT int uint32 "uint8 list option" bool
  | LocEngDataClientInit
  | LocEngGetZpp | LocEngUpdateRegistrationMask bool | LocEngReportXtraServer "string \<times> string \<times> string"
  | LocEngInjectXtraData nat | LocEngRequestXtraServer | LocEngAdapterGpsLock uint32
  | LocSetUlpProxy "ulp_proxy option" | LocSetXtraUserAgent

text \<open>
  \<open>LocEngAdapter\<close> and \<open>loc_eng_data_s_type\<close>.  The adapter exists once \<open>loc_eng_init\<close> has run
  (\<open>adapter\<close>).  A callback is a flag that tells whether it is installed.
\<close>

record loc_eng =
  adapter :: bool
  mNavigating :: bool
  mFixCriteria :: LocPosMode
  mPowerVote :: uint32
  mSupportsAgpsRequests :: bool
  mSupportsPositionInjection :: bool
  mSupportsTimeInjection :: bool
  mUlp :: ulp_proxy
  ulp_ptr :: nat
  location_cb :: bool
  status_cb :: bool
  sv_status_cb :: bool
  nmea_cb :: bool
  agps_status_cb :: bool
  set_capabilities_cb :: bool
  request_utc_time_cb :: bool
  gps_measurement_cb :: bool
  download_request_cb :: bool
  report_xtra_server_cb :: bool
  intermediateFix :: uint8
  generateNmea :: bool
  ni :: ni_state
  agnss_nif :: "agps_sm option"
  internet_nif :: "agps_sm option"
  wifi_nif :: "agps_sm option"
  ds_nif :: "agps_sm option"
  engine_status :: GpsStatusValue
  fix_session_status :: GpsStatusValue
  aiding_data_for_deletion :: uint32
  supl_host :: "(string \<times> int) option"
  c2k_host :: "(string \<times> int) option"
  gps_conf :: gps_cfg
  sap_conf :: "rat sap_cfg"
  agpsStatus :: int
  loc_api_handle :: bool
  queue :: "loc_msg list"
  modem :: "modem_call list"
  client :: "client_call list"

abbreviation mute_state :: "loc_eng \<Rightarrow> loc_mute_session_e_type" where
  "mute_state e \<equiv> mute_session_state (ni e)"

definition call_modem :: "modem_call \<Rightarrow> loc_eng \<Rightarrow> loc_eng" where
  "call_modem c e = e\<lparr>modem := modem e @ [c]\<rparr>"

definition call_client :: "client_call \<Rightarrow> loc_eng \<Rightarrow> loc_eng" where
  "call_client c e = e\<lparr>client := client e @ [c]\<rparr>"

definition sendMsg :: "loc_msg \<Rightarrow> loc_eng \<Rightarrow> loc_eng" where
  "sendMsg m e = e\<lparr>queue := queue e @ [m]\<rparr>"

section \<open>The adapter\<close>

definition setInSession :: "bool \<Rightarrow> loc_eng \<Rightarrow> loc_eng" where
  "setInSession b e =
     (let e1 = call_modem (M_setInSession b) (e\<lparr>mNavigating := b\<rparr>) in
      if \<not> b then e1\<lparr>mFixCriteria := (mFixCriteria e1)\<lparr>pmode := LOC_POSITION_MODE_INVALID\<rparr>\<rparr> else e1)"

definition setPositionMode :: "LocPosMode \<Rightarrow> loc_eng \<Rightarrow> loc_eng" where
  "setPositionMode m e = call_modem (M_setPositionMode m) (e\<lparr>mFixCriteria := m\<rparr>)"

definition startFix :: "loc_eng \<Rightarrow> loc_eng" where
  "startFix e = call_modem (M_startFix (mFixCriteria e)) e"

definition stopFix :: "loc_eng \<Rightarrow> loc_eng" where
  "stopFix e = call_modem M_stopFix e"

text \<open>
  \<open>LocEngAdapter::setUlpProxy\<close> with a proxy other than the present one; \<open>None\<close> is \<open>NULL\<close>.  The old
  proxy is deleted: \<open>ulp_ptr\<close> is the address of the present one.
\<close>

definition setUlpProxy :: "ulp_proxy option \<Rightarrow> loc_eng \<Rightarrow> loc_eng" where
  "setUlpProxy p e =
     (let u = (case p of None \<Rightarrow> new_UlpProxyBase | Some u \<Rightarrow> u);
          old = mUlp e;
          u1 = (if pmode (mPosMode old) \<noteq> LOC_POSITION_MODE_INVALID
                then snd (sendFixMode (mPosMode old) u) else u);
          u2 = (if mFixSet old then snd (sendStartFix u1) else u1)
      in e\<lparr>mUlp := u2, ulp_ptr := ulp_ptr e + 1\<rparr>)"

text \<open>The power vote: one bit for the right to vote and one for the vote.\<close>

definition POWER_VOTE_RIGHT :: uint32 where "POWER_VOTE_RIGHT = 0x20"
definition POWER_VOTE_VALUE :: uint32 where "POWER_VOTE_VALUE = 0x10"

definition getPowerVoteRight :: "loc_eng \<Rightarrow> bool" where
  "getPowerVoteRight e \<longleftrightarrow> mPowerVote e AND POWER_VOTE_RIGHT \<noteq> 0"

definition getPowerVote :: "loc_eng \<Rightarrow> bool" where
  "getPowerVote e \<longleftrightarrow> mPowerVote e AND POWER_VOTE_VALUE \<noteq> 0"

definition setPowerVoteRight :: "bool \<Rightarrow> loc_eng \<Rightarrow> loc_eng" where
  "setPowerVoteRight b e = e\<lparr>mPowerVote :=
     (if b then mPowerVote e OR POWER_VOTE_RIGHT else mPowerVote e AND NOT POWER_VOTE_RIGHT)\<rparr>"

definition requestPowerVote :: "loc_eng \<Rightarrow> loc_eng" where
  "requestPowerVote e =
     (if getPowerVoteRight e
      then call_modem (M_setGpsLock (if getPowerVote e then 103 else 101)) e else e)"

definition setPowerVote :: "bool \<Rightarrow> loc_eng \<Rightarrow> loc_eng" where
  "setPowerVote b e = call_modem (M_modemPowerVote b) (requestPowerVote (e\<lparr>mPowerVote :=
     (if b then mPowerVote e OR POWER_VOTE_VALUE else mPowerVote e AND NOT POWER_VOTE_VALUE)\<rparr>))"

text \<open>\<open>setTime\<close> passes over the first injection when the adapter does not support it yet.\<close>

definition setTime :: "int \<Rightarrow> loc_eng \<Rightarrow> loc_eng" where
  "setTime t e =
     (if mSupportsTimeInjection e then call_modem (M_setTime t) e
      else e\<lparr>mSupportsTimeInjection := True\<rparr>)"

definition setXtraVersionCheck :: "uint32 \<Rightarrow> loc_eng \<Rightarrow> loc_eng" where
  "setXtraVersionCheck c e =
     call_modem (M_setXtraVersionCheck (if c = 1 then 1 else if c = 2 then 2 else if c = 3 then 3 else 0)) e"

section \<open>What the modem reports\<close>

text \<open>
  The adapter's handlers of the modem's events.  Positions, satellites and states go to the proxy
  first; if it does not take them they become messages of the engine.  The requests of the modem
  are only accepted when the adapter supports them; the result tells the modem's side whether to
  ask another adapter.
\<close>

datatype report =
    R_position UlpLocation loc_sess_status uint32 | R_sv nat | R_status GpsStatusValue | R_nmea nat
  | R_xtra_server string string string nat | R_requestATL uint32 int | R_releaseATL uint32
  | R_requestXtraData | R_requestTime | R_requestNiNotify ni_notification "addr option"
  | R_requestSuplES uint32 | R_dataCallOpened | R_dataCallClosed | R_engineDown | R_engineUp
  | R_measurement nat

definition report_to_ulp :: "ulp_call \<Rightarrow> loc_msg \<Rightarrow> loc_eng \<Rightarrow> loc_eng" where
  "report_to_ulp c m e =
     (let (t, u) = ulp_report c (mUlp e); e1 = e\<lparr>mUlp := u\<rparr> in if t then e1 else sendMsg m e1)"

definition agps_request :: "loc_msg \<Rightarrow> loc_eng \<Rightarrow> bool \<times> loc_eng" where
  "agps_request m e =
     (mSupportsAgpsRequests e, if mSupportsAgpsRequests e then sendMsg m e else e)"

fun modem_reports :: "report \<Rightarrow> loc_eng \<Rightarrow> bool \<times> loc_eng" where
  "modem_reports (R_position l st tech) e =
     (True, report_to_ulp (U_position l st tech) (LocEngReportPosition l st tech) e)"
| "modem_reports (R_sv sv) e = (True, report_to_ulp (U_sv sv) (LocEngReportSv sv) e)"
| "modem_reports (R_status st) e = (True, report_to_ulp (U_status st) (LocEngReportStatus st) e)"
| "modem_reports (R_nmea d) e = (True, sendMsg (LocEngReportNmea d) e)"
| "modem_reports (R_xtra_server u1 u2 u3 maxlen) e =
     agps_request (LocEngReportXtraServer (xtra_servers (gps_conf e) u1 u2 u3 maxlen)) e"
| "modem_reports (R_requestATL h type) e = agps_request (LocEngRequestATL h type) e"
| "modem_reports (R_releaseATL h) e = agps_request (LocEngReleaseATL h) e"
| "modem_reports R_requestXtraData e = agps_request LocEngRequestXtra e"
| "modem_reports R_requestTime e = agps_request LocEngRequestTime e"
| "modem_reports (R_requestNiNotify n p) e =
     agps_request (LocEngRequestNi (n\<lparr>timeout := LOC_NI_NO_RESPONSE_TIME\<rparr>) p) e"
| "modem_reports (R_requestSuplES h) e = agps_request (LocEngRequestSuplEs h) e"
| "modem_reports R_dataCallOpened e = agps_request LocEngSuplEsOpened e"
| "modem_reports R_dataCallClosed e = agps_request LocEngSuplEsClosed e"
| "modem_reports R_engineDown e = (True, sendMsg LocEngDown e)"
| "modem_reports R_engineUp e = (True, sendMsg LocEngUp e)"
| "modem_reports (R_measurement d) e = (True, sendMsg (LocEngReportGpsMeasurement d) e)"

text \<open>
  \<open>LocInternalAdapter\<close>: the way back from a proxy that has taken a request or a report over.  What
  it asks for becomes a message without going through the proxy again.
\<close>

datatype internal_call =
    I_position UlpLocation loc_sess_status uint32 | I_sv nat | I_status GpsStatusValue
  | I_setPositionMode LocPosMode | I_startFix | I_stopFix | I_getZpp | I_setUlpProxy "ulp_proxy option"

fun internal_msg :: "internal_call \<Rightarrow> loc_msg" where
  "internal_msg (I_position l st tech) = LocEngReportPosition l st tech"
| "internal_msg (I_sv sv) = LocEngReportSv sv"
| "internal_msg (I_status st) = LocEngReportStatus st"
| "internal_msg (I_setPositionMode m) = LocEngPositionMode m"
| "internal_msg I_startFix = LocEngStartFix"
| "internal_msg I_stopFix = LocEngStopFix"
| "internal_msg I_getZpp = LocEngGetZpp"
| "internal_msg (I_setUlpProxy p) = LocSetUlpProxy p"

text \<open>
  The requests of \<open>loc_init\<close>: a proxy to the position engine, asked of the LBS library through the
  context, and the text that names the device, which the message thread writes to a file.
\<close>

definition requestUlp :: "uint32 \<Rightarrow> loc_eng \<Rightarrow> loc_eng" where
  "requestUlp capabilities e = call_modem (M_requestUlp capabilities) e"

definition setXtraUserAgent :: "loc_eng \<Rightarrow> loc_eng" where
  "setXtraUserAgent e = sendMsg LocSetXtraUserAgent e"

definition setGpsLockMsg :: "uint32 \<Rightarrow> loc_eng \<Rightarrow> loc_eng" where
  "setGpsLockMsg m e = sendMsg (LocEngAdapterGpsLock m) e"

end
