(* ===== verification/Loc_Dmn.thy ===== *)
theory Loc_Dmn
  imports Loc_Eng_State
begin

text \<open>
  The connection to the positioning daemons: the requests for a network that arrive over a named
  pipe (\<open>src/gps/loc_api/libloc_api_50001/loc_eng_dmn_conn_handler.cpp\<close> and \<open>loc_eng_dmn_conn.cpp\<close>),
  the framing of the messages in the pipe (\<open>loc_eng_dmn_conn_glue_msg.c\<close>), and the thread that
  serves it (\<open>loc_eng_dmn_conn_thread_helper.c\<close>).
\<close>

section \<open>The requests\<close>

abbreviation "AGPS_TYPE_ANY \<equiv> (0 :: int)"

record if_request =
  if_type :: int
  sender_id :: int
  ipv4_addr :: uint32
  ipv6_addr :: "uint8 list"
  req_ssid :: string
  req_password :: string

definition if_request_type :: "int \<Rightarrow> int option" where
  "if_request_type t =
     (if t = 0 then Some AGPS_TYPE_SUPL else if t = 1 then Some AGPS_TYPE_WIFI
      else if t = 2 then Some AGPS_TYPE_ANY else None)"

text \<open>
  \<open>loc_api_handle\<close> tells whether the engine has been made known to the connection.  \<open>None\<close> is a
  call through \<open>NULL\<close>.
\<close>

definition if_request_msg :: "bool \<Rightarrow> int \<Rightarrow> if_request \<Rightarrow> loc_msg option" where
  "if_request_msg isReq type r =
     (if sender_id r = 0 \<or> sender_id r = 1 \<or> sender_id r = 2
      then Some (LocEngReqRelWifi type (sender_id r) (Some (strlcpy 33 (req_ssid r)))
                   (Some (strlcpy 33 (req_password r))) isReq)
      else if sender_id r = 3
      then Some (LocEngReqRelBIT type (ipv4_addr r) (Some (take 16 (ipv6_addr r))) isReq)
      else None)"

definition loc_eng_dmn_conn_loc_api_server_if_request_handler ::
  "if_request \<Rightarrow> loc_eng \<Rightarrow> (int \<times> loc_eng) option" where
  "loc_eng_dmn_conn_loc_api_server_if_request_handler r e =
     (if \<not> loc_api_handle e then Some (1, e)
      else case if_request_type (if_type r) of
        None \<Rightarrow> Some (-1, e)
      | Some type \<Rightarrow>
          (case if_request_msg True type r of
             None \<Rightarrow> Some (-1, e)
           | Some m \<Rightarrow> Some (0, sendMsg m e)))"

definition loc_eng_dmn_conn_loc_api_server_if_release_handler ::
  "if_request \<Rightarrow> loc_eng \<Rightarrow> (int \<times> loc_eng) option" where
  "loc_eng_dmn_conn_loc_api_server_if_release_handler r e =
     (case if_request_type (if_type r) of
        None \<Rightarrow> Some (-1, e)
      | Some type \<Rightarrow>
          (case if_request_msg False type r of
             None \<Rightarrow> Some (-1, e)
           | Some m \<Rightarrow> if loc_api_handle e then Some (0, sendMsg m e) else None))"

section \<open>The frames\<close>

text \<open>
  A message is a block of bytes whose first four hold its size.  A pipe is the list of the bytes in
  it; a read takes as many as there are, at most as many as asked for.
\<close>

definition SIZEOF_SIZE :: nat where [c_sizes]: "SIZEOF_SIZE = 4"

definition le32 :: "uint32 \<Rightarrow> uint8 list" where
  "le32 w = [ucast w, ucast (drop_bit 8 w), ucast (drop_bit 16 w), ucast (drop_bit 24 w)]"

definition of_le32 :: "uint8 list \<Rightarrow> uint32" where
  "of_le32 bs = (case bs of
     [a, b, c, d] \<Rightarrow> ucast a OR push_bit 8 (ucast b) OR push_bit 16 (ucast c) OR push_bit 24 (ucast d)
   | _ \<Rightarrow> 0)"

definition pipe_read :: "nat \<Rightarrow> uint8 list \<Rightarrow> uint8 list \<times> uint8 list" where
  "pipe_read sz pipe = (take sz pipe, drop sz pipe)"

text \<open>\<open>write\<close> accepts \<open>n\<close> bytes of the message.\<close>

definition loc_eng_dmn_conn_glue_msgsnd ::
  "nat \<Rightarrow> uint8 list \<Rightarrow> uint32 \<Rightarrow> uint8 list \<Rightarrow> int \<times> uint8 list" where
  "loc_eng_dmn_conn_glue_msgsnd n msg msgsz pipe =
     (let bytes = take (unat msgsz) (le32 msgsz @ drop SIZEOF_SIZE msg);
          written = take n bytes
      in (if int (length written) \<noteq> sint msgsz then -1 else sint msgsz, pipe @ written))"

text \<open>
  A receive fails, or asks for more bytes than the buffer can hold, or gives a message and the
  rest of the pipe.
\<close>

datatype rcv = Rcv_error "uint8 list" | Rcv_overrun | Rcv_msg "uint8 list" "uint8 list"

definition loc_eng_dmn_conn_glue_msgrcv :: "uint32 \<Rightarrow> uint8 list \<Rightarrow> rcv" where
  "loc_eng_dmn_conn_glue_msgrcv msgbufsz pipe =
     (let (head, rest) = pipe_read SIZEOF_SIZE pipe in
      if length head \<noteq> SIZEOF_SIZE then Rcv_error rest
      else
        (let msgsz = of_le32 head; want = msgsz - 4 in
         if msgbufsz < msgsz then Rcv_error rest
         else if unat want > unat msgbufsz - SIZEOF_SIZE then Rcv_overrun
         else
           (let (body, rest') = pipe_read (unat want) rest in
            if length body \<noteq> unat want then Rcv_error rest' else Rcv_msg (head @ body) rest')))"

end
