(* ===== verification/Loc_Eng.thy ===== *)
theory Loc_Eng
  imports Loc_Dmn
begin

text \<open>
  The location engine (\<open>src/gps/loc_api/libloc_api_50001/loc_eng.cpp\<close>).  The client's calls and the
  modem's reports become messages in one queue; a single thread takes them in order and calls the
  modem or the client.

  The theory has the calls, the \<open>proc\<close> of each message, and the runs that interleave them.
\<close>

section \<open>Sessions\<close>

definition loc_eng_start :: "loc_eng \<Rightarrow> int \<times> loc_eng" where
  "loc_eng_start e =
     (if \<not> adapter e then (-1, e)
      else (let (t, u) = sendStartFix (mUlp e); e1 = e\<lparr>mUlp := u\<rparr>
            in (0, if t then e1 else sendMsg LocEngStartFix e1)))"

text \<open>\<open>err\<close> is what the modem answers to \<open>startFix\<close>.\<close>

definition loc_eng_start_handler :: "int \<Rightarrow> loc_eng \<Rightarrow> loc_eng" where
  "loc_eng_start_handler err e =
     (if \<not> mNavigating e then
        (let e1 = startFix e in
         if err = ERR_SUCCESS \<or> err = ERR_ENGINE_DOWN \<or> err = ERR_PHONE_OFFLINE \<or> err = ERR_INTERNAL
         then setInSession True e1 else e1)
      else e)"

definition loc_eng_stop :: "loc_eng \<Rightarrow> int \<times> loc_eng" where
  "loc_eng_stop e =
     (if \<not> adapter e then (-1, e)
      else (let (t, u) = sendStopFix (mUlp e); e1 = e\<lparr>mUlp := u\<rparr>
            in (0, if t then e1 else sendMsg LocEngStopFix e1)))"

definition loc_eng_stop_handler :: "loc_eng \<Rightarrow> loc_eng" where
  "loc_eng_stop_handler e = (if mNavigating e then setInSession False (stopFix e) else e)"

definition loc_eng_cleanup :: "loc_eng \<Rightarrow> loc_eng" where
  "loc_eng_cleanup e =
     (if \<not> adapter e then e else if mNavigating e then snd (loc_eng_stop e) else e)"

definition loc_eng_set_position_mode :: "LocPosMode \<Rightarrow> loc_eng \<Rightarrow> int \<times> loc_eng" where
  "loc_eng_set_position_mode m e =
     (if \<not> adapter e then (-1, e)
      else (let caps = CAPABILITIES (gps_conf e);
                m1 = (if caps AND GPS_CAPABILITY_MSB = 0 \<and> caps AND GPS_CAPABILITY_MSA = 0 \<and>
                         pmode m \<noteq> LOC_POSITION_MODE_STANDALONE
                      then m\<lparr>pmode := LOC_POSITION_MODE_STANDALONE\<rparr> else m);
                (t, u) = sendFixMode m1 (mUlp e); e1 = e\<lparr>mUlp := u\<rparr>
            in (0, if t then e1 else sendMsg (LocEngPositionMode m1) e1)))"

definition loc_eng_inject_time :: "int \<Rightarrow> loc_eng \<Rightarrow> int \<times> loc_eng" where
  "loc_eng_inject_time t e =
     (if \<not> adapter e then (-1, e) else (0, sendMsg (LocEngSetTime t) e))"

definition loc_eng_inject_location :: "nat \<Rightarrow> loc_eng \<Rightarrow> int \<times> loc_eng" where
  "loc_eng_inject_location l e =
     (if \<not> adapter e then (-1, e)
      else (0, if mSupportsPositionInjection e then sendMsg (LocEngInjectLocation l) e else e))"

section \<open>Status, muting and aiding data\<close>

definition loc_eng_delete_aiding_data :: "uint32 \<Rightarrow> loc_eng \<Rightarrow> loc_eng" where
  "loc_eng_delete_aiding_data f e = (if \<not> adapter e then e else sendMsg (LocEngDelAidData f) e)"

definition update_aiding_data_for_deletion :: "loc_eng \<Rightarrow> loc_eng" where
  "update_aiding_data_for_deletion e =
     (if engine_status e \<noteq> GPS_STATUS_ENGINE_ON \<and> aiding_data_for_deletion e \<noteq> 0
      then (call_modem (M_deleteAidingData (aiding_data_for_deletion e)) e)
             \<lparr>aiding_data_for_deletion := 0\<rparr>
      else e)"

definition loc_inform_gps_status :: "GpsStatusValue \<Rightarrow> loc_eng \<Rightarrow> loc_eng" where
  "loc_inform_gps_status st e = (if status_cb e then call_client (C_status st) e else e)"

definition set_mute :: "loc_mute_session_e_type \<Rightarrow> loc_eng \<Rightarrow> loc_eng" where
  "set_mute m e = e\<lparr>ni := (ni e)\<lparr>mute_session_state := m\<rparr>\<rparr>"

definition loc_eng_report_status :: "GpsStatusValue \<Rightarrow> loc_eng \<Rightarrow> loc_eng" where
  "loc_eng_report_status st e =
     (let e1 = (if (st = GPS_STATUS_SESSION_BEGIN \<or> st = GPS_STATUS_ENGINE_ON) \<and>
                   mute_state e = LOC_MUTE_SESS_WAIT
                then set_mute LOC_MUTE_SESS_IN_SESSION e else e);
          e2 = (if mute_state e1 = LOC_MUTE_SESS_IN_SESSION \<and>
                   (st = GPS_STATUS_SESSION_END \<or> st = GPS_STATUS_ENGINE_OFF)
                then set_mute LOC_MUTE_SESS_NONE e1 else e1);
          navigating = mNavigating e2;
          e3 = (if st \<noteq> GPS_STATUS_NONE \<and>
                   \<not> (st = GPS_STATUS_SESSION_END \<and> navigating) \<and>
                   \<not> (st = GPS_STATUS_SESSION_BEGIN \<and> \<not> navigating) \<and>
                   mute_state e2 \<noteq> LOC_MUTE_SESS_IN_SESSION
                then loc_inform_gps_status st e2 else e2);
          e4 = (if st = GPS_STATUS_ENGINE_ON \<or> st = GPS_STATUS_ENGINE_OFF
                then e3\<lparr>engine_status := st\<rparr> else e3)
      in if st = GPS_STATUS_SESSION_BEGIN \<or> st = GPS_STATUS_SESSION_END
         then e4\<lparr>fix_session_status := st\<rparr> else e4)"

section \<open>Positions and measurements\<close>

text \<open>Whether a position goes to the client: the branches of \<open>LocEngReportPosition::proc\<close>.\<close>

definition report_to_client :: "UlpLocation \<Rightarrow> loc_sess_status \<Rightarrow> uint32 \<Rightarrow> loc_eng \<Rightarrow> client_call option" where
  "report_to_client loc st tech e =
     (if \<not> location_cb e then None
      else if st = LOC_SESS_FAILURE then Some (C_location None)
      else if (st = LOC_SESS_SUCCESS \<and>
               (LOC_POS_TECH_MASK_SATELLITE OR LOC_POS_TECH_MASK_SENSORS OR
                LOC_POS_TECH_MASK_HYBRID) AND tech \<noteq> 0) \<or>
              (sess_status_value LOC_SESS_INTERMEDIATE = intermediateFix e \<and>
               \<not> (has_accuracy loc \<and> ACCURACY_THRES (gps_conf e) \<noteq> 0 \<and>
                  accuracy loc > of_int (uint (ACCURACY_THRES (gps_conf e)))))
      then Some (C_location (Some loc))
      else None)"

definition report_position :: "UlpLocation \<Rightarrow> loc_sess_status \<Rightarrow> uint32 \<Rightarrow> loc_eng \<Rightarrow> loc_eng" where
  "report_position loc st tech e =
     (if mute_state e = LOC_MUTE_SESS_IN_SESSION then e
      else
        (let r = report_to_client loc st tech e;
             e1 = (case r of None \<Rightarrow> e | Some c \<Rightarrow> call_client c e);
             e2 = (if r \<noteq> None \<and> recurrence (mFixCriteria e1) = GPS_POSITION_RECURRENCE_SINGLE
                   then setInSession False (if st = LOC_SESS_INTERMEDIATE then stopFix e1 else e1)
                   else e1)
         in if generateNmea e2 \<and> mNavigating e2
            then call_client (C_nmea_pos (r \<noteq> None \<and> st \<noteq> LOC_SESS_FAILURE)) e2 else e2))"

definition report_sv :: "nat \<Rightarrow> loc_eng \<Rightarrow> loc_eng" where
  "report_sv sv e =
     (if mute_state e = LOC_MUTE_SESS_IN_SESSION then e
      else (let e1 = (if sv_status_cb e then call_client (C_sv sv) e else e)
            in if generateNmea e1 then call_client (C_nmea_sv sv) e1 else e1))"

definition report_measurement :: "nat \<Rightarrow> loc_eng \<Rightarrow> loc_eng" where
  "report_measurement d e =
     (if mute_state e = LOC_MUTE_SESS_IN_SESSION \<or> \<not> gps_measurement_cb e then e
      else call_client (C_measurement d) e)"

section \<open>Configuration and servers\<close>

definition getCarrierCapabilities :: "gps_cfg \<Rightarrow> uint32" where
  "getCarrierCapabilities c =
     (let caps = CAPABILITIES c;
          caps1 = (if SUPL_MODE c AND 0x2 \<noteq> 0x2 then caps AND NOT 0x4 else caps)
      in if SUPL_MODE c AND 0x1 \<noteq> 0x1 then caps1 AND NOT 0x2 else caps1)"

text \<open>Whether a host name is \<open>"NONE"\<close> in any case.\<close>

definition is_none_host :: "string \<Rightarrow> bool" where
  "is_none_host h \<longleftrightarrow> length h = 4 \<and> h ! 0 \<in> set ''Nn'' \<and> h ! 1 \<in> set ''Oo'' \<and>
     h ! 2 \<in> set ''Nn'' \<and> h ! 3 \<in> set ''Ee''"

text \<open>
  \<open>loc_eng_set_server\<close>; \<open>resolve\<close> stands for the name service.  \<open>snprintf\<close> returns the length of
  the whole text, and a text that does not fit is not sent.
\<close>

definition server_url :: "string option \<Rightarrow> int \<Rightarrow> string" where
  "server_url host port =
     (case host of
        None \<Rightarrow> []
      | Some h \<Rightarrow> if is_none_host h then []
                  else h @ '':'' @ print_dec (nat (port mod 2 ^ 32)))"

definition loc_eng_set_server ::
  "(string \<Rightarrow> uint32 option) \<Rightarrow> LocServerType \<Rightarrow> string option \<Rightarrow> int \<Rightarrow> loc_eng \<Rightarrow> int \<times> loc_eng" where
  "loc_eng_set_server resolve type host port e =
     (if type = LOC_AGPS_SUPL_SERVER then
        (0, if length (server_url host port) < 256
            then sendMsg (LocEngSetServerUrl (server_url host port)) e else e)
      else (case resolve (case host of None \<Rightarrow> [] | Some h \<Rightarrow> h) of
              None \<Rightarrow> (-2, e)
            | Some ip \<Rightarrow> (0, sendMsg (LocEngSetServerIpv4 ip port type) e)))"

definition loc_eng_set_server_proxy ::
  "(string \<Rightarrow> uint32 option) \<Rightarrow> LocServerType \<Rightarrow> string \<Rightarrow> int \<Rightarrow> loc_eng \<Rightarrow> int \<times> loc_eng" where
  "loc_eng_set_server_proxy resolve type host port e =
     (let e1 = (case type of
                  LOC_AGPS_SUPL_SERVER \<Rightarrow> e\<lparr>supl_host := Some (strlcpy 101 host, port)\<rparr>
                | LOC_AGPS_CDMA_PDE_SERVER \<Rightarrow> e\<lparr>c2k_host := Some (strlcpy 101 host, port)\<rparr>
                | _ \<Rightarrow> e)
      in if adapter e1 then loc_eng_set_server resolve type (Some host) port e1 else (0, e1))"

text \<open>
  \<open>loc_eng_configuration_update\<close>: the table is applied to the global configuration, the changed
  values are sent to the modem, and then all values but four are put back.
\<close>

definition send_all :: "loc_msg list \<Rightarrow> loc_eng \<Rightarrow> loc_eng" where
  "send_all ms e = fold sendMsg ms e"

definition config_msgs :: "gps_cfg \<Rightarrow> gps_cfg \<Rightarrow> nat \<Rightarrow> loc_msg list" where
  "config_msgs old new ptr =
     (if SUPL_VER old \<noteq> SUPL_VER new then [LocEngSuplVer (SUPL_VER new)] else [])
     @ (if LPP_PROFILE old \<noteq> LPP_PROFILE new then [LocEngLppConfig (LPP_PROFILE new)] else [])
     @ (if A_GLONASS_POS_PROTOCOL_SELECT old \<noteq> A_GLONASS_POS_PROTOCOL_SELECT new
        then [LocEngAGlonassProtocol (A_GLONASS_POS_PROTOCOL_SELECT new)] else [])
     @ (if SUPL_MODE old \<noteq> SUPL_MODE new then [LocEngSuplMode ptr] else [])"

definition loc_eng_configuration_update :: "string \<Rightarrow> loc_eng \<Rightarrow> loc_eng" where
  "loc_eng_configuration_update data e =
     (if data = [] then e
      else
        (let old = gps_conf e;
             new = snd (loc_update_conf (\<lambda>s. ()) () gps_conf_table (Some data) old);
             e1 = e\<lparr>gps_conf := new\<rparr>;
             e2 = (if adapter e1 then send_all (config_msgs old new (ulp_ptr e1)) e1 else e1)
         in e2\<lparr>gps_conf := old\<lparr>SUPL_VER := SUPL_VER new, LPP_PROFILE := LPP_PROFILE new,
                 A_GLONASS_POS_PROTOCOL_SELECT := A_GLONASS_POS_PROTOCOL_SELECT new,
                 GPS_LOCK := GPS_LOCK new\<rparr>\<rparr>))"

text \<open>
  \<open>loc_eng_agps_install_certificates\<close>: the slots are counted by clearing the lowest bit of the
  mask until none is left.
\<close>

lemma and_minus_one_less: "x \<noteq> 0 \<Longrightarrow> unat (x AND (x - 1) :: uint32) < unat x"
proof -
  assume x: "x \<noteq> 0"
  have "x AND (x - 1) \<le> x - 1" by (rule word_and_le1)
  then have "unat (x AND (x - 1)) \<le> unat (x - 1)" by (simp add: word_le_nat_alt)
  also have "unat (x - 1) < unat x" using x by (simp add: unat_minus_one unat_gt_0)
  finally show ?thesis .
qed

function count_slots :: "uint32 \<Rightarrow> uint32 \<Rightarrow> uint32" where
  "count_slots counter n = (if counter = 0 then n else count_slots (counter AND (counter - 1)) (n + 1))"
  by pat_completeness auto
termination
  by (relation "measure (\<lambda>(c, n). unat c)") (simp_all add: and_minus_one_less)

declare count_slots.simps [simp del]

definition AGPS_CERTIFICATE_MAX_LENGTH :: nat where "AGPS_CERTIFICATE_MAX_LENGTH = 2000"

datatype cert_result =
  AGPS_CERTIFICATE_OPERATION_SUCCESS | AGPS_CERTIFICATE_ERROR_GENERIC |
  AGPS_CERTIFICATE_ERROR_TOO_MANY_CERTIFICATES

definition loc_eng_agps_install_certificates :: "nat list \<Rightarrow> loc_eng \<Rightarrow> cert_result \<times> loc_eng" where
  "loc_eng_agps_install_certificates lengths e =
     (let mask = AGPS_CERT_WRITABLE_MASK (gps_conf e);
          slots = count_slots mask 0;
          k = length lengths
      in if k = 0 then (AGPS_CERTIFICATE_OPERATION_SUCCESS, e)
         else if \<not> adapter e then (AGPS_CERTIFICATE_ERROR_GENERIC, e)
         else if unat slots < k then (AGPS_CERTIFICATE_ERROR_TOO_MANY_CERTIFICATES, e)
         else if \<exists>l \<in> set lengths. l > AGPS_CERTIFICATE_MAX_LENGTH
         then (AGPS_CERTIFICATE_ERROR_GENERIC, e)
         else (AGPS_CERTIFICATE_OPERATION_SUCCESS, sendMsg (LocEngInstallAGpsCert k mask) e))"

section \<open>Starting up\<close>

text \<open>The callbacks the client gives: a record of the flags \<open>loc_eng_init\<close> saves.\<close>

record callbacks =
  cb_location :: bool
  cb_status :: bool
  cb_sv_status :: bool
  cb_nmea :: bool
  cb_set_capabilities :: bool
  cb_request_utc_time :: bool

definition BIT_NMEA_1HZ :: uint32 where "BIT_NMEA_1HZ = 0x4"

text \<open>\<open>memset\<close> of \<open>loc_eng_data\<close> and a new adapter; the configuration and the history stay.\<close>

definition cleared_eng :: "loc_eng \<Rightarrow> loc_eng" where
  "cleared_eng e = e\<lparr>adapter := True, mNavigating := False, mFixCriteria := no_mode, mPowerVote := 0,
     mSupportsAgpsRequests := False, mSupportsPositionInjection := False,
     mSupportsTimeInjection := False, mUlp := new_UlpProxyBase, ulp_ptr := ulp_ptr e + 1, agps_status_cb := False,
     gps_measurement_cb := False, download_request_cb := False, report_xtra_server_cb := False, ni := ni_zero (now (ni e)),
     agnss_nif := None, internet_nif := None, wifi_nif := None, ds_nif := None,
     engine_status := GPS_STATUS_NONE, fix_session_status := GPS_STATUS_NONE,
     aiding_data_for_deletion := 0, supl_host := None, c2k_host := None\<rparr>"

definition loc_eng_init :: "callbacks option \<Rightarrow> uint32 \<Rightarrow> loc_eng \<Rightarrow> int \<times> loc_eng" where
  "loc_eng_init cb event e =
     (case cb of
        None \<Rightarrow> (-1, e)
      | Some c \<Rightarrow>
          if event = 0 then (-1, e)
          else if adapter e then (0, e)
          else (0, sendMsg LocEngInit ((cleared_eng e)
                 \<lparr>location_cb := cb_location c, status_cb := cb_status c, sv_status_cb := cb_sv_status c,
                  nmea_cb := cb_nmea c,
                  set_capabilities_cb := cb_set_capabilities c,
                  request_utc_time_cb := cb_request_utc_time c,
                  intermediateFix := ucast (INTERMEDIATE_POS (gps_conf e)),
                  generateNmea := (event AND BIT_NMEA_1HZ \<noteq> 0 \<and> NMEA_PROVIDER (gps_conf e) = 0)\<rparr>)))"

text \<open>The floating-point settings are rational numbers.\<close>

definition sensor_properties :: "rat sap_cfg \<Rightarrow> (bool \<times> rat) list" where
  "sensor_properties c =
     [(GYRO_BIAS_RANDOM_WALK_VALID c, GYRO_BIAS_RANDOM_WALK c),
      (ACCEL_RANDOM_WALK_SPECTRAL_DENSITY_VALID c, ACCEL_RANDOM_WALK_SPECTRAL_DENSITY c),
      (ANGLE_RANDOM_WALK_SPECTRAL_DENSITY_VALID c, ANGLE_RANDOM_WALK_SPECTRAL_DENSITY c),
      (RATE_RANDOM_WALK_SPECTRAL_DENSITY_VALID c, RATE_RANDOM_WALK_SPECTRAL_DENSITY c),
      (VELOCITY_RANDOM_WALK_SPECTRAL_DENSITY_VALID c, VELOCITY_RANDOM_WALK_SPECTRAL_DENSITY c)]"

definition sensor_perf :: "rat sap_cfg \<Rightarrow> uint32 list" where
  "sensor_perf c =
     [SENSOR_CONTROL_MODE c, SENSOR_ACCEL_SAMPLES_PER_BATCH c, SENSOR_ACCEL_BATCHES_PER_SEC c,
      SENSOR_GYRO_SAMPLES_PER_BATCH c, SENSOR_GYRO_BATCHES_PER_SEC c,
      SENSOR_ACCEL_SAMPLES_PER_BATCH_HIGH c, SENSOR_ACCEL_BATCHES_PER_SEC_HIGH c,
      SENSOR_GYRO_SAMPLES_PER_BATCH_HIGH c, SENSOR_GYRO_BATCHES_PER_SEC_HIGH c,
      SENSOR_ALGORITHM_CONFIG_MASK c]"

definition reinit_msgs :: "loc_eng \<Rightarrow> loc_msg list" where
  "reinit_msgs e =
     [LocEngGnssConstellationConfig, LocEngSuplVer (SUPL_VER (gps_conf e)),
      LocEngLppConfig (LPP_PROFILE (gps_conf e)),
      LocEngSensorControlConfig (SENSOR_USAGE (sap_conf e)) (SENSOR_PROVIDER (sap_conf e)),
      LocEngAGlonassProtocol (A_GLONASS_POS_PROTOCOL_SELECT (gps_conf e))]
     @ (if \<exists>p \<in> set (sensor_properties (sap_conf e)). fst p
        then [LocEngSensorProperties (sensor_properties (sap_conf e))] else [])
     @ [LocEngSensorPerfControlConfig (sensor_perf (sap_conf e)),
        LocEngEnableData None (if agpsStatus e \<noteq> 0 then 1 else 0),
        LocEngSetXtraVersionCheck (XTRA_VERSION_CHECK (gps_conf e))]"

definition loc_eng_reinit :: "loc_eng \<Rightarrow> loc_eng" where
  "loc_eng_reinit e = send_all (reinit_msgs e) e"

definition loc_eng_agps_reinit :: "(string \<Rightarrow> uint32 option) \<Rightarrow> loc_eng \<Rightarrow> loc_eng" where
  "loc_eng_agps_reinit resolve e =
     (let e1 = (case supl_host e of
                  None \<Rightarrow> e
                | Some (h, p) \<Rightarrow> snd (loc_eng_set_server resolve LOC_AGPS_SUPL_SERVER (Some h) p e))
      in case c2k_host e1 of
           None \<Rightarrow> e1
         | Some (h, p) \<Rightarrow> snd (loc_eng_set_server resolve LOC_AGPS_CDMA_PDE_SERVER (Some h) p e1))"

text \<open>\<open>loc_eng_agps_init\<close>; the launch of the daemon connection makes the engine known to it.\<close>

definition loc_eng_agps_init :: "(string \<Rightarrow> uint32 option) \<Rightarrow> bool \<Rightarrow> loc_eng \<Rightarrow> loc_eng" where
  "loc_eng_agps_init resolve cb e =
     (if \<not> adapter e \<or> agps_status_cb e \<or> \<not> cb then e
      else
        (let e1 = e\<lparr>agps_status_cb := True,
               internet_nif := Some (new_AgpsStateMachine servicerTypeAgps AGPS_TYPE_WWAN_ANY False),
               wifi_nif := Some (new_AgpsStateMachine servicerTypeAgps AGPS_TYPE_WIFI True)\<rparr>;
             caps = CAPABILITIES (gps_conf e1)
         in if caps AND GPS_CAPABILITY_MSA \<noteq> 0 \<or> caps AND GPS_CAPABILITY_MSB \<noteq> 0 then
              (let e2 = e1\<lparr>agnss_nif := Some (new_AgpsStateMachine servicerTypeAgps AGPS_TYPE_SUPL False)\<rparr>;
                   e3 = (if mSupportsAgpsRequests e2 \<and>
                            USE_EMERGENCY_PDN_FOR_EMERGENCY_SUPL (gps_conf e2) \<noteq> 0
                         then sendMsg LocEngDataClientInit e2 else e2);
                   e4 = (if mSupportsAgpsRequests e3 then e3\<lparr>loc_api_handle := True\<rparr> else e3)
               in loc_eng_agps_reinit resolve e4)
            else e1))"

section \<open>The AGPS machines\<close>

fun nif_of :: "nif \<Rightarrow> loc_eng \<Rightarrow> agps_sm option" where
  "nif_of Agnss e = agnss_nif e"
| "nif_of Internet e = internet_nif e"
| "nif_of Wifi e = wifi_nif e"
| "nif_of Ds e = ds_nif e"

fun put_nif :: "nif \<Rightarrow> agps_sm \<Rightarrow> loc_eng \<Rightarrow> loc_eng" where
  "put_nif Agnss m e = e\<lparr>agnss_nif := Some m\<rparr>"
| "put_nif Internet m e = e\<lparr>internet_nif := Some m\<rparr>"
| "put_nif Wifi m e = e\<lparr>wifi_nif := Some m\<rparr>"
| "put_nif Ds m e = e\<lparr>ds_nif := Some m\<rparr>"

text \<open>\<open>getAgpsStateMachine\<close>: the field it takes the pointer from, \<open>None\<close> for a \<open>NULL\<close> pointer.\<close>

definition getAgpsStateMachine :: "int \<Rightarrow> loc_eng \<Rightarrow> nif option" where
  "getAgpsStateMachine type e =
     (let n = (if type = AGPS_TYPE_WIFI then Wifi
               else if type = AGPS_TYPE_INVALID \<or> type = AGPS_TYPE_SUPL then Agnss
               else if type = AGPS_TYPE_SUPL_ES then (if ds_nif e \<noteq> None then Ds else Agnss)
               else Internet)
      in if nif_of n e = None then None else Some n)"

text \<open>An operation on the machine a pointer points to; \<open>None\<close> is a fault.\<close>

definition on_nif :: "nif option \<Rightarrow> (agps_sm \<Rightarrow> agps_sm) \<Rightarrow> loc_eng \<Rightarrow> loc_eng option" where
  "on_nif p f e =
     (case p of
        None \<Rightarrow> None
      | Some n \<Rightarrow> (case nif_of n e of None \<Rightarrow> None | Some m \<Rightarrow> Some (put_nif n (f m) e)))"

definition MAX_APN_LEN :: nat where "MAX_APN_LEN = 100"

definition loc_eng_agps_open :: "int \<Rightarrow> string option \<Rightarrow> int \<Rightarrow> loc_eng \<Rightarrow> int \<times> loc_eng" where
  "loc_eng_agps_open type apn bearer e =
     (if \<not> (adapter e \<and> agps_status_cb e) then (-1, e)
      else (case apn of
              None \<Rightarrow> (0, e)
            | Some a \<Rightarrow>
                (0, sendMsg (LocEngAtlOpenSuccess (getAgpsStateMachine type e)
                      (take MAX_APN_LEN a) bearer) e)))"

definition loc_eng_agps_closed :: "int \<Rightarrow> loc_eng \<Rightarrow> int \<times> loc_eng" where
  "loc_eng_agps_closed type e =
     (if \<not> (adapter e \<and> agps_status_cb e) then (-1, e)
      else (0, sendMsg (LocEngAtlClosed (getAgpsStateMachine type e)) e))"

definition loc_eng_agps_open_failed :: "int \<Rightarrow> loc_eng \<Rightarrow> int \<times> loc_eng" where
  "loc_eng_agps_open_failed type e =
     (if \<not> (adapter e \<and> agps_status_cb e) then (-1, e)
      else (0, sendMsg (LocEngAtlOpenFailed (getAgpsStateMachine type e)) e))"

definition loc_eng_agps_ril_update_network_availability ::
  "int \<Rightarrow> string option \<Rightarrow> loc_eng \<Rightarrow> loc_eng" where
  "loc_eng_agps_ril_update_network_availability available apn e =
     (let e1 = e\<lparr>agpsStatus := available\<rparr>
      in if \<not> adapter e1 then e1
         else (case apn of
                 None \<Rightarrow> e1
               | Some a \<Rightarrow> sendMsg (LocEngEnableData (Some (take MAX_APN_LEN a)) available) e1))"

text \<open>The \<open>proc\<close> of the requests that come from the modem; \<open>ret\<close> is the answer to a data call.\<close>

definition request_atl :: "int \<Rightarrow> uint32 \<Rightarrow> int \<Rightarrow> loc_eng \<Rightarrow> loc_eng option" where
  "request_atl ret i type e =
     (case getAgpsStateMachine type e of
        None \<Rightarrow> Some (call_modem (M_atlOpenStatus i 0 type) e)
      | Some n \<Rightarrow>
          on_nif (Some n) (subscribeRsrc ret (ATLSubscriber i (type = AGPS_TYPE_INVALID))) e)"

definition request_supl_es :: "int \<Rightarrow> uint32 \<Rightarrow> loc_eng \<Rightarrow> loc_eng option" where
  "request_supl_es ret i e =
     (if ds_nif e \<noteq> None then on_nif (Some Ds) (subscribeRsrc ret (DSSubscriber i False)) e
      else if agnss_nif e \<noteq> None then on_nif (Some Agnss) (subscribeRsrc ret (ATLSubscriber i False)) e
      else Some (call_modem (M_atlOpenStatus i 0 (-1)) e))"

text \<open>One attempt of \<open>LocEngReleaseATL\<close> to unsubscribe.\<close>

definition try_release :: "int \<Rightarrow> nif \<Rightarrow> subscriber \<Rightarrow> loc_eng \<Rightarrow> bool \<times> loc_eng" where
  "try_release ret n s e =
     (case nif_of n e of
        None \<Rightarrow> (False, e)
      | Some m \<Rightarrow> (let (b, m') = unsubscribeRsrc ret s m in (b, put_nif n m' e)))"

definition release_atl :: "int \<Rightarrow> uint32 \<Rightarrow> loc_eng \<Rightarrow> loc_eng" where
  "release_atl ret i e =
     (let (b1, e1) = try_release ret Agnss (ATLSubscriber i False) e in
      if b1 then e1 else
      (let (b2, e2) = try_release ret Internet (ATLSubscriber i False) e1 in
       if b2 then e2 else
       (let (b3, e3) = try_release ret Ds (DSSubscriber i False) e2 in
        if b3 then e3 else call_modem (M_atlCloseStatus i 0) e3)))"

definition req_rel_wifi ::
  "int \<Rightarrow> int \<Rightarrow> int \<Rightarrow> string option \<Rightarrow> string option \<Rightarrow> bool \<Rightarrow> loc_eng \<Rightarrow> loc_eng option" where
  "req_rel_wifi ret type sender ssid pw isReq e =
     (if wifi_nif e = None then Some (call_modem (M_atlOpenStatus (word_of_int sender) 0 type) e)
      else (let s = new_WIFISubscriber (map_option (take 32) ssid) (map_option (take 32) pw) sender
            in on_nif (Some Wifi)
                 (if isReq then subscribeRsrc ret s else (\<lambda>m. snd (unsubscribeRsrc ret s m))) e))"

definition req_rel_bit ::
  "int \<Rightarrow> int \<Rightarrow> uint32 \<Rightarrow> uint8 list option \<Rightarrow> bool \<Rightarrow> loc_eng \<Rightarrow> loc_eng option" where
  "req_rel_bit ret type ipv4 ipv6 isReq e =
     (let s = new_BITSubscriber ipv4 ipv6
      in on_nif (getAgpsStateMachine type e)
           (if isReq then subscribeRsrc ret s else (\<lambda>m. snd (unsubscribeRsrc ret s m))) e)"

section \<open>Restarts of the modem\<close>

definition loc_eng_handle_engine_down :: "loc_eng \<Rightarrow> loc_eng" where
  "loc_eng_handle_engine_down e =
     loc_eng_report_status GPS_STATUS_ENGINE_OFF
       (e\<lparr>ni := loc_eng_ni_reset_on_engine_restart (ni e)\<rparr>)"

definition loc_eng_handle_engine_up :: "(string \<Rightarrow> uint32 option) \<Rightarrow> loc_eng \<Rightarrow> loc_eng" where
  "loc_eng_handle_engine_up resolve e =
     (let e1 = requestPowerVote (loc_eng_reinit e);
          e2 = (if agps_status_cb e1
                then loc_eng_agps_reinit resolve
                       (e1\<lparr>agnss_nif := map_option dropAllSubscribers (agnss_nif e1),
                           internet_nif := map_option dropAllSubscribers (internet_nif e1)\<rparr>)
                else e1)
      in if mNavigating e2 then sendMsg LocEngStartFix (setInSession False e2) else e2)"

section \<open>Measurements and XTRA\<close>

datatype measurement_result =
  GPS_MEASUREMENT_OPERATION_SUCCESS | GPS_MEASUREMENT_ERROR_ALREADY_INIT | GPS_MEASUREMENT_ERROR_GENERIC

text \<open>\<open>cb\<close>: the client's callback, if it gives its structure at all.\<close>

definition loc_eng_gps_measurement_init :: "bool option \<Rightarrow> loc_eng \<Rightarrow> measurement_result \<times> loc_eng" where
  "loc_eng_gps_measurement_init cb e =
     (if gps_measurement_cb e then (GPS_MEASUREMENT_ERROR_ALREADY_INIT, e)
      else case cb of
        None \<Rightarrow> (GPS_MEASUREMENT_ERROR_GENERIC, e)
      | Some b \<Rightarrow>
          if \<not> adapter e then (GPS_MEASUREMENT_ERROR_GENERIC, e)
          else (GPS_MEASUREMENT_OPERATION_SUCCESS,
                (sendMsg (LocEngUpdateRegistrationMask True) e)\<lparr>gps_measurement_cb := b\<rparr>))"

definition loc_eng_gps_measurement_close :: "loc_eng \<Rightarrow> loc_eng" where
  "loc_eng_gps_measurement_close e =
     (if \<not> adapter e then e
      else (sendMsg (LocEngUpdateRegistrationMask False) e)\<lparr>gps_measurement_cb := False\<rparr>)"

definition loc_eng_xtra_init :: "(bool \<times> bool) option \<Rightarrow> loc_eng \<Rightarrow> int \<times> loc_eng" where
  "loc_eng_xtra_init cb e =
     (case cb of
        None \<Rightarrow> (-1, e)
      | Some (d, r) \<Rightarrow> (0, e\<lparr>download_request_cb := d, report_xtra_server_cb := r\<rparr>))"

text \<open>The two calls use the adapter without looking whether there is one.\<close>

definition loc_eng_xtra_inject_data :: "nat \<Rightarrow> loc_eng \<Rightarrow> (int \<times> loc_eng) option" where
  "loc_eng_xtra_inject_data d e =
     (if adapter e then Some (0, sendMsg (LocEngInjectXtraData d) e) else None)"

definition loc_eng_xtra_request_server :: "loc_eng \<Rightarrow> (int \<times> loc_eng) option" where
  "loc_eng_xtra_request_server e =
     (if adapter e then Some (0, sendMsg LocEngRequestXtraServer e) else None)"

definition loc_eng_xtra_version_check :: "uint32 \<Rightarrow> loc_eng \<Rightarrow> loc_eng" where
  "loc_eng_xtra_version_check c e = sendMsg (LocEngSetXtraVersionCheck c) e"

text \<open>What \<open>loc_init\<close> tells the new adapter about the context's extended capabilities.\<close>

definition set_features :: "bool \<Rightarrow> bool \<Rightarrow> loc_eng \<Rightarrow> loc_eng" where
  "set_features agps cpi e = e\<lparr>mSupportsAgpsRequests := \<not> agps, mSupportsPositionInjection := \<not> cpi,
     mSupportsTimeInjection := \<not> cpi\<rparr>"

section \<open>The messages\<close>

text \<open>
  What the modem and the libraries answer: the result of \<open>startFix\<close>, of a data call, of
  \<open>gnssConstellationConfig\<close> and of \<open>initDataServiceClient\<close>, the name service, the bit
  \<open>GPS_CAPABILITY_MEASUREMENTS\<close> of the client's header, and the best available fix.
\<close>

record answers =
  start_err :: int
  call_ret :: int
  constellation :: bool
  data_client :: int
  dns :: "string \<Rightarrow> uint32 option"
  CAPABILITY_MEASUREMENTS :: uint32
  zpp :: "UlpLocation \<times> uint32"

text \<open>The \<open>proc\<close> of the messages that are not the handlers above.\<close>

definition proc_ReportNmea :: "nat \<Rightarrow> loc_eng \<Rightarrow> loc_eng" where
  "proc_ReportNmea d e = (if nmea_cb e then call_client (C_nmea d) e else e)"

definition proc_ReportStatus :: "GpsStatusValue \<Rightarrow> loc_eng \<Rightarrow> loc_eng" where
  "proc_ReportStatus st e = update_aiding_data_for_deletion (loc_eng_report_status st e)"

definition proc_DelAidData :: "uint32 \<Rightarrow> loc_eng \<Rightarrow> loc_eng" where
  "proc_DelAidData f e = update_aiding_data_for_deletion (e\<lparr>aiding_data_for_deletion := f\<rparr>)"

definition proc_Init :: "loc_eng \<Rightarrow> loc_eng" where
  "proc_Init e = sendMsg LocEngSetCapabilities (loc_eng_reinit e)"

definition proc_SetCapabilities :: "loc_eng \<Rightarrow> loc_eng" where
  "proc_SetCapabilities e =
     (if set_capabilities_cb e then call_client (C_capabilities (CAPABILITIES (gps_conf e))) e else e)"

definition proc_GnssConstellationConfig :: "answers \<Rightarrow> loc_eng \<Rightarrow> loc_eng" where
  "proc_GnssConstellationConfig a e =
     (let e1 = call_modem M_gnssConstellationConfig e
      in if constellation a
         then e1\<lparr>gps_conf := (gps_conf e1)\<lparr>CAPABILITIES :=
                CAPABILITIES (gps_conf e1) OR CAPABILITY_MEASUREMENTS a\<rparr>\<rparr> else e1)"

definition proc_RequestNi :: "ni_notification \<Rightarrow> addr option \<Rightarrow> loc_eng \<Rightarrow> loc_eng" where
  "proc_RequestNi n p e = e\<lparr>ni := loc_eng_ni_request_handler n p (ni e)\<rparr>"

definition proc_SuplVer :: "uint32 \<Rightarrow> loc_eng \<Rightarrow> loc_eng" where
  "proc_SuplVer v e = call_modem (M_setSUPLVersion v) e"

definition proc_LppConfig :: "uint32 \<Rightarrow> loc_eng \<Rightarrow> loc_eng" where
  "proc_LppConfig v e = call_modem (M_setLPPConfig v) e"

definition proc_AGlonassProtocol :: "uint32 \<Rightarrow> loc_eng \<Rightarrow> loc_eng" where
  "proc_AGlonassProtocol v e = call_modem (M_setAGLONASSProtocol v) e"

definition proc_SensorControlConfig :: "uint32 \<Rightarrow> uint32 \<Rightarrow> loc_eng \<Rightarrow> loc_eng" where
  "proc_SensorControlConfig u p e = call_modem (M_setSensorControlConfig u p) e"

definition proc_SensorProperties :: "(bool \<times> rat) list \<Rightarrow> loc_eng \<Rightarrow> loc_eng" where
  "proc_SensorProperties ps e = call_modem (M_setSensorProperties ps) e"

definition proc_SensorPerfControlConfig :: "uint32 list \<Rightarrow> loc_eng \<Rightarrow> loc_eng" where
  "proc_SensorPerfControlConfig ns e = call_modem (M_setSensorPerfControlConfig ns) e"

definition proc_SetServerUrl :: "string \<Rightarrow> loc_eng \<Rightarrow> loc_eng" where
  "proc_SetServerUrl u e = call_modem (M_setServerUrl u) e"

definition proc_SetServerIpv4 :: "uint32 \<Rightarrow> int \<Rightarrow> LocServerType \<Rightarrow> loc_eng \<Rightarrow> loc_eng" where
  "proc_SetServerIpv4 ip port type e = call_modem (M_setServerIpv4 ip port type) e"

definition proc_InjectLocation :: "nat \<Rightarrow> loc_eng \<Rightarrow> loc_eng" where
  "proc_InjectLocation l e = call_modem (M_injectPosition l) e"

definition proc_InstallAGpsCert :: "nat \<Rightarrow> uint32 \<Rightarrow> loc_eng \<Rightarrow> loc_eng" where
  "proc_InstallAGpsCert n slots e = call_modem (M_installAGpsCert n slots) e"

definition proc_UpdateRegistrationMask :: "bool \<Rightarrow> loc_eng \<Rightarrow> loc_eng" where
  "proc_UpdateRegistrationMask b e = call_modem (M_updateRegistrationMask b) e"

definition proc_InjectXtraData :: "nat \<Rightarrow> loc_eng \<Rightarrow> loc_eng" where
  "proc_InjectXtraData d e = call_modem (M_setXtraData d) e"

definition proc_RequestXtraServer :: "loc_eng \<Rightarrow> loc_eng" where
  "proc_RequestXtraServer e = call_modem M_requestXtraServer e"

definition proc_GpsLock :: "uint32 \<Rightarrow> loc_eng \<Rightarrow> loc_eng" where
  "proc_GpsLock m e = call_modem (M_setGpsLock m) e"

text \<open>The message keeps the address of the proxy; a call on a deleted one is a fault.\<close>

definition proc_SuplMode :: "nat \<Rightarrow> loc_eng \<Rightarrow> loc_eng option" where
  "proc_SuplMode ptr e =
     (if ptr = ulp_ptr e
      then Some (e\<lparr>mUlp := ulp_setCapabilities (getCarrierCapabilities (gps_conf e)) (mUlp e)\<rparr>)
      else None)"

definition proc_EnableData :: "string option \<Rightarrow> int \<Rightarrow> loc_eng \<Rightarrow> loc_eng" where
  "proc_EnableData apn enable e =
     (let e1 = call_modem (M_enableData enable) e
      in case apn of None \<Rightarrow> e1 | Some n \<Rightarrow> call_modem (M_setAPN n) e1)"

definition proc_RequestTime :: "loc_eng \<Rightarrow> loc_eng" where
  "proc_RequestTime e =
     (if CAPABILITIES (gps_conf e) AND GPS_CAPABILITY_ON_DEMAND_TIME \<noteq> 0 \<and> request_utc_time_cb e
      then call_client C_request_time e else e)"

definition proc_RequestXtra :: "loc_eng \<Rightarrow> loc_eng" where
  "proc_RequestXtra e = (if download_request_cb e then call_client C_xtra_download e else e)"

definition proc_ReportXtraServer :: "string \<times> string \<times> string \<Rightarrow> loc_eng \<Rightarrow> loc_eng" where
  "proc_ReportXtraServer urls e =
     (if report_xtra_server_cb e then call_client (C_xtra_server urls) e else e)"

definition proc_AtlOpenSuccess ::
  "int \<Rightarrow> nif option \<Rightarrow> string \<Rightarrow> int \<Rightarrow> loc_eng \<Rightarrow> loc_eng option" where
  "proc_AtlOpenSuccess ret n apn bearer e =
     on_nif n (\<lambda>m. onRsrcEvent ret RSRC_GRANTED (setAPN (Some apn) (length apn) (setBearer bearer m))) e"

definition proc_AtlClosed :: "int \<Rightarrow> nif option \<Rightarrow> loc_eng \<Rightarrow> loc_eng option" where
  "proc_AtlClosed ret n e = on_nif n (onRsrcEvent ret RSRC_RELEASED) e"

definition proc_AtlOpenFailed :: "int \<Rightarrow> nif option \<Rightarrow> loc_eng \<Rightarrow> loc_eng option" where
  "proc_AtlOpenFailed ret n e = on_nif n (onRsrcEvent ret RSRC_DENIED) e"

definition proc_SuplEsOpened :: "int \<Rightarrow> loc_eng \<Rightarrow> loc_eng option" where
  "proc_SuplEsOpened ret e =
     (if ds_nif e = None then Some e else on_nif (Some Ds) (onRsrcEvent ret RSRC_GRANTED) e)"

definition proc_SuplEsClosed :: "int \<Rightarrow> loc_eng \<Rightarrow> loc_eng option" where
  "proc_SuplEsClosed ret e =
     (if ds_nif e = None then Some e else on_nif (Some Ds) (onRsrcEvent ret RSRC_RELEASED) e)"

definition proc_DataClientInit :: "answers \<Rightarrow> loc_eng \<Rightarrow> loc_eng" where
  "proc_DataClientInit a e =
     (let e1 = call_modem M_initDataServiceClient e
      in if data_client a = 0 then e1\<lparr>ds_nif := Some (new_DSStateMachine servicerTypeExt)\<rparr> else e1)"

text \<open>The best available fix of the modem goes to the proxy as a final fix, and only there.\<close>

definition loc_eng_get_zpp_handler :: "answers \<Rightarrow> loc_eng \<Rightarrow> loc_eng" where
  "loc_eng_get_zpp_handler a e =
     (let (l, tech) = zpp a; e1 = call_modem M_getZpp e
      in e1\<lparr>mUlp := snd (ulp_report (U_position l LOC_SESS_SUCCESS tech) (mUlp e1))\<rparr>)"

lemmas proc_defs [simp] = proc_ReportNmea_def proc_ReportStatus_def proc_DelAidData_def
  proc_Init_def proc_SetCapabilities_def proc_GnssConstellationConfig_def proc_SuplMode_def
  proc_EnableData_def proc_RequestTime_def proc_RequestXtra_def proc_ReportXtraServer_def
  proc_AtlOpenSuccess_def proc_AtlClosed_def proc_AtlOpenFailed_def proc_SuplEsOpened_def
  proc_SuplEsClosed_def proc_DataClientInit_def proc_RequestNi_def proc_SuplVer_def
  proc_LppConfig_def proc_AGlonassProtocol_def proc_SensorControlConfig_def
  proc_SensorProperties_def proc_SensorPerfControlConfig_def proc_SetServerUrl_def
  proc_SetServerIpv4_def proc_InjectLocation_def proc_InstallAGpsCert_def
  proc_UpdateRegistrationMask_def proc_InjectXtraData_def proc_RequestXtraServer_def
  proc_GpsLock_def

text \<open>
  \<open>LocSetXtraUserAgent::proc\<close> writes the text of \<open>xtra_user_agent\<close> to a file and leaves the engine
  as it is.
\<close>

fun proc :: "answers \<Rightarrow> loc_msg \<Rightarrow> loc_eng \<Rightarrow> loc_eng option" where
  "proc a LocEngStartFix e = Some (loc_eng_start_handler (start_err a) e)"
| "proc a LocEngStopFix e = Some (loc_eng_stop_handler e)"
| "proc a (LocEngPositionMode m) e = Some (setPositionMode m e)"
| "proc a (LocEngReportPosition l st tech) e = Some (report_position l st tech e)"
| "proc a (LocEngReportSv sv) e = Some (report_sv sv e)"
| "proc a (LocEngReportNmea d) e = Some (proc_ReportNmea d e)"
| "proc a (LocEngReportStatus st) e = Some (proc_ReportStatus st e)"
| "proc a (LocEngReportGpsMeasurement d) e = Some (report_measurement d e)"
| "proc a (LocEngDelAidData f) e = Some (proc_DelAidData f e)"
| "proc a LocEngDown e = Some (loc_eng_handle_engine_down e)"
| "proc a LocEngUp e = Some (loc_eng_handle_engine_up (dns a) e)"
| "proc a LocEngInit e = Some (proc_Init e)"
| "proc a LocEngSetCapabilities e = Some (proc_SetCapabilities e)"
| "proc a LocEngGnssConstellationConfig e = Some (proc_GnssConstellationConfig a e)"
| "proc a (LocEngSuplVer v) e = Some (proc_SuplVer v e)"
| "proc a (LocEngLppConfig v) e = Some (proc_LppConfig v e)"
| "proc a (LocEngAGlonassProtocol v) e = Some (proc_AGlonassProtocol v e)"
| "proc a (LocEngSuplMode ptr) e = proc_SuplMode ptr e"
| "proc a (LocEngSensorControlConfig u p) e = Some (proc_SensorControlConfig u p e)"
| "proc a (LocEngSensorProperties ps) e = Some (proc_SensorProperties ps e)"
| "proc a (LocEngSensorPerfControlConfig ns) e = Some (proc_SensorPerfControlConfig ns e)"
| "proc a (LocEngEnableData apn enable) e = Some (proc_EnableData apn enable e)"
| "proc a (LocEngSetXtraVersionCheck c) e = Some (setXtraVersionCheck c e)"
| "proc a (LocEngSetServerUrl u) e = Some (proc_SetServerUrl u e)"
| "proc a (LocEngSetServerIpv4 ip port type) e = Some (proc_SetServerIpv4 ip port type e)"
| "proc a (LocEngSetTime t) e = Some (setTime t e)"
| "proc a (LocEngInjectLocation l) e = Some (proc_InjectLocation l e)"
| "proc a (LocEngInstallAGpsCert n slots) e = Some (proc_InstallAGpsCert n slots e)"
| "proc a (LocEngRequestNi n p) e = Some (proc_RequestNi n p e)"
| "proc a LocEngRequestTime e = Some (proc_RequestTime e)"
| "proc a LocEngRequestXtra e = Some (proc_RequestXtra e)"
| "proc a (LocEngRequestATL i type) e = request_atl (call_ret a) i type e"
| "proc a (LocEngReleaseATL i) e = Some (release_atl (call_ret a) i e)"
| "proc a (LocEngRequestSuplEs i) e = request_supl_es (call_ret a) i e"
| "proc a (LocEngAtlOpenSuccess n apn bearer) e = proc_AtlOpenSuccess (call_ret a) n apn bearer e"
| "proc a (LocEngAtlClosed n) e = proc_AtlClosed (call_ret a) n e"
| "proc a (LocEngAtlOpenFailed n) e = proc_AtlOpenFailed (call_ret a) n e"
| "proc a LocEngSuplEsOpened e = proc_SuplEsOpened (call_ret a) e"
| "proc a LocEngSuplEsClosed e = proc_SuplEsClosed (call_ret a) e"
| "proc a (LocEngReqRelWifi type sender ssid pw isReq) e =
     req_rel_wifi (call_ret a) type sender ssid pw isReq e"
| "proc a (LocEngReqRelBIT type ipv4 ipv6 isReq) e = req_rel_bit (call_ret a) type ipv4 ipv6 isReq e"
| "proc a LocEngDataClientInit e = Some (proc_DataClientInit a e)"
| "proc a LocEngGetZpp e = Some (loc_eng_get_zpp_handler a e)"
| "proc a (LocEngUpdateRegistrationMask b) e = Some (proc_UpdateRegistrationMask b e)"
| "proc a (LocEngReportXtraServer urls) e = Some (proc_ReportXtraServer urls e)"
| "proc a (LocEngInjectXtraData d) e = Some (proc_InjectXtraData d e)"
| "proc a LocEngRequestXtraServer e = Some (proc_RequestXtraServer e)"
| "proc a (LocEngAdapterGpsLock m) e = Some (proc_GpsLock m e)"
| "proc a (LocSetUlpProxy p) e = Some (setUlpProxy p e)"
| "proc a LocSetXtraUserAgent e = Some e"

text \<open>The message thread takes the oldest message; \<open>drain\<close> runs it until a number of messages is done.\<close>

definition handle :: "answers \<Rightarrow> loc_eng \<Rightarrow> loc_eng option" where
  "handle a e = (case queue e of [] \<Rightarrow> Some e | m # ms \<Rightarrow> proc a m (e\<lparr>queue := ms\<rparr>))"

fun drain :: "answers list \<Rightarrow> loc_eng \<Rightarrow> loc_eng option" where
  "drain [] e = Some e"
| "drain (a # as) e = (case handle a e of None \<Rightarrow> None | Some e' \<Rightarrow> drain as e')"

section \<open>Runs of the engine\<close>

text \<open>
  What can happen to the engine: the calls of the client, the messages the modem's side sends
  (through the adapter's report functions), a new ULP proxy, and the message thread.
\<close>

datatype eng_op =
    Op_init "callbacks option" uint32 | Op_start | Op_stop | Op_cleanup | Op_mode LocPosMode
  | Op_inject_time int | Op_inject_location nat | Op_delete_aiding uint32
  | Op_set_server "string \<Rightarrow> uint32 option" LocServerType string int
  | Op_config string | Op_certs "nat list" | Op_agps_init "string \<Rightarrow> uint32 option" bool
  | Op_agps_open int "string option" int | Op_agps_closed int | Op_agps_failed int
  | Op_network int "string option" | Op_vote_right bool | Op_vote bool
  | Op_ulp "ulp_proxy option" | Op_report report | Op_internal internal_call
  | Op_if_request if_request | Op_if_release if_request | Op_ni_init bool | Op_ni ni_event
  | Op_measurement_init "bool option" | Op_measurement_close | Op_xtra_init "(bool \<times> bool) option"
  | Op_xtra_inject nat | Op_xtra_request | Op_gps_lock uint32 | Op_features bool bool
  | Op_handle answers

fun eng_apply :: "eng_op \<Rightarrow> loc_eng \<Rightarrow> loc_eng option" where
  "eng_apply (Op_init cb ev) e = Some (snd (loc_eng_init cb ev e))"
| "eng_apply Op_start e = Some (snd (loc_eng_start e))"
| "eng_apply Op_stop e = Some (snd (loc_eng_stop e))"
| "eng_apply Op_cleanup e = Some (loc_eng_cleanup e)"
| "eng_apply (Op_mode m) e = Some (snd (loc_eng_set_position_mode m e))"
| "eng_apply (Op_inject_time t) e = Some (snd (loc_eng_inject_time t e))"
| "eng_apply (Op_inject_location l) e = Some (snd (loc_eng_inject_location l e))"
| "eng_apply (Op_delete_aiding f) e = Some (loc_eng_delete_aiding_data f e)"
| "eng_apply (Op_set_server r t h p) e = Some (snd (loc_eng_set_server_proxy r t h p e))"
| "eng_apply (Op_config d) e = Some (loc_eng_configuration_update d e)"
| "eng_apply (Op_certs ls) e = Some (snd (loc_eng_agps_install_certificates ls e))"
| "eng_apply (Op_agps_init r cb) e = Some (loc_eng_agps_init r cb e)"
| "eng_apply (Op_agps_open t apn b) e = Some (snd (loc_eng_agps_open t apn b e))"
| "eng_apply (Op_agps_closed t) e = Some (snd (loc_eng_agps_closed t e))"
| "eng_apply (Op_agps_failed t) e = Some (snd (loc_eng_agps_open_failed t e))"
| "eng_apply (Op_network av apn) e = Some (loc_eng_agps_ril_update_network_availability av apn e)"
| "eng_apply (Op_vote_right b) e = Some (setPowerVoteRight b e)"
| "eng_apply (Op_vote b) e = Some (setPowerVote b e)"
| "eng_apply (Op_ulp p) e = Some (setUlpProxy p e)"
| "eng_apply (Op_report r) e = Some (snd (modem_reports r e))"
| "eng_apply (Op_internal c) e = Some (sendMsg (internal_msg c) e)"
| "eng_apply (Op_if_request r) e =
     map_option snd (loc_eng_dmn_conn_loc_api_server_if_request_handler r e)"
| "eng_apply (Op_if_release r) e =
     map_option snd (loc_eng_dmn_conn_loc_api_server_if_release_handler r e)"
| "eng_apply (Op_ni_init b) e = Some (e\<lparr>ni := loc_eng_ni_init b (ni e)\<rparr>)"
| "eng_apply (Op_ni v) e = Some (e\<lparr>ni := ni_apply v (ni e)\<rparr>)"
| "eng_apply (Op_measurement_init cb) e = Some (snd (loc_eng_gps_measurement_init cb e))"
| "eng_apply Op_measurement_close e = Some (loc_eng_gps_measurement_close e)"
| "eng_apply (Op_xtra_init cb) e = Some (snd (loc_eng_xtra_init cb e))"
| "eng_apply (Op_xtra_inject d) e = map_option snd (loc_eng_xtra_inject_data d e)"
| "eng_apply Op_xtra_request e = map_option snd (loc_eng_xtra_request_server e)"
| "eng_apply (Op_gps_lock m) e = Some (setGpsLockMsg m e)"
| "eng_apply (Op_features agps cpi) e = Some (set_features agps cpi e)"
| "eng_apply (Op_handle a) e = handle a e"

inductive eng_run :: "loc_eng \<Rightarrow> eng_op list \<Rightarrow> loc_eng \<Rightarrow> bool" where
  eng_run_Nil: "eng_run e [] e"
| eng_run_Cons: "\<lbrakk>eng_apply x e = Some e1; eng_run e1 xs e'\<rbrakk> \<Longrightarrow> eng_run e (x # xs) e'"

inductive_simps eng_run_Nil_iff [simp]: "eng_run e [] e'"
inductive_simps eng_run_Cons_iff [simp]: "eng_run e (x # xs) e'"

section \<open>The engine of the process\<close>

text \<open>
  \<open>loc_afw_data\<close>, the static instance that \<open>loc.cpp\<close> hands to every call, as the program is
  loaded, with the default configuration.
\<close>

definition loc_afw_data :: loc_eng where
  "loc_afw_data = \<lparr>adapter = False, mNavigating = False, mFixCriteria = no_mode, mPowerVote = 0,
     mSupportsAgpsRequests = False, mSupportsPositionInjection = False,
     mSupportsTimeInjection = False, mUlp = new_UlpProxyBase, ulp_ptr = 0, location_cb = False,
     status_cb = False, sv_status_cb = False, nmea_cb = False, agps_status_cb = False, set_capabilities_cb = False,
     request_utc_time_cb = False, gps_measurement_cb = False, download_request_cb = False, report_xtra_server_cb = False,
     intermediateFix = 0, generateNmea = False, ni = ni_zero 0, agnss_nif = None,
     internet_nif = None, wifi_nif = None, ds_nif = None, engine_status = GPS_STATUS_NONE,
     fix_session_status = GPS_STATUS_NONE, aiding_data_for_deletion = 0, supl_host = None,
     c2k_host = None, gps_conf = default_gps zero_gps, sap_conf = default_sap 0,
     agpsStatus = 0, loc_api_handle = False, queue = [], modem = [], client = []\<rparr>"

text \<open>The answers of a modem that does what it is asked, and all callbacks.\<close>

definition good_answers :: answers where
  "good_answers = \<lparr>start_err = 0, call_ret = 0, constellation = False, data_client = 0,
     dns = (\<lambda>h. None), CAPABILITY_MEASUREMENTS = 0,
     zpp = (\<lparr>has_accuracy = False, accuracy = 0, pos_id = 0\<rparr>, 0)\<rparr>"

definition all_callbacks :: callbacks where
  "all_callbacks = \<lparr>cb_location = True, cb_status = True, cb_sv_status = True, cb_nmea = True,
     cb_set_capabilities = True, cb_request_utc_time = True\<rparr>"

end
