(* ===== verification/Loc_Eng_Session.thy ===== *)
theory Loc_Eng_Session
  imports Loc_Eng
begin

text \<open>
  The sessions of the location engine: how the session flag of the adapter and the sessions of
  the modem go together in every run of the engine, and what becomes of a session when the modem
  restarts.
\<close>

section \<open>The session flag and the modem\<close>

text \<open>
  The sessions in the modem's log: \<open>startFix\<close> may only come outside a session, and
  \<open>setInSession\<close> opens and closes one.  The result is the session flag at the end.
\<close>

fun session_after :: "bool \<Rightarrow> modem_call list \<Rightarrow> bool option" where
  "session_after s [] = Some s"
| "session_after s (M_startFix m # cs) = (if s then None else session_after s cs)"
| "session_after s (M_setInSession b # cs) = session_after b cs"
| "session_after s (c # cs) = session_after s cs"

lemma session_after_append:
  "session_after s (xs @ ys) =
     (case session_after s xs of None \<Rightarrow> None | Some t \<Rightarrow> session_after t ys)"
  by (induction s xs rule: session_after.induct) simp_all

definition session_inv :: "loc_eng \<Rightarrow> bool" where
  "session_inv e \<longleftrightarrow> adapter e \<and> session_after False (modem e) = Some (mNavigating e)"

fun neutral :: "modem_call \<Rightarrow> bool" where
  "neutral (M_startFix m) = False"
| "neutral (M_setInSession b) = False"
| "neutral c = True"

lemma session_after_neutral: "(\<forall>c \<in> set cs. neutral c) \<Longrightarrow> session_after s cs = Some s"
  by (induction s cs rule: session_after.induct) auto

text \<open>Steps that do not touch the session: neither the flag nor the modem's.\<close>

definition quiet :: "loc_eng \<Rightarrow> loc_eng \<Rightarrow> bool" where
  "quiet e e' \<longleftrightarrow> adapter e' = adapter e \<and> mNavigating e' = mNavigating e \<and>
     (\<exists>cs. modem e' = modem e @ cs \<and> (\<forall>c \<in> set cs. neutral c))"

lemma quiet_refl [simp, intro]: "quiet e e"
  by (simp add: quiet_def)

lemma quiet_trans [trans]: "\<lbrakk>quiet e e1; quiet e1 e2\<rbrakk> \<Longrightarrow> quiet e e2"
  by (fastforce simp: quiet_def)

lemma quiet_same:
  "\<lbrakk>adapter e' = adapter e; mNavigating e' = mNavigating e; modem e' = modem e\<rbrakk> \<Longrightarrow> quiet e e'"
  by (simp add: quiet_def)

lemma quiet_modem: "neutral c \<Longrightarrow> quiet e (call_modem c e)"
  by (simp add: quiet_def call_modem_def)

lemma quiet_session_inv: "\<lbrakk>quiet e e'; session_inv e\<rbrakk> \<Longrightarrow> session_inv e'"
  by (auto simp: quiet_def session_inv_def session_after_append session_after_neutral)

lemma eng_simps [simp]:
  "adapter (call_modem c e) = adapter e" "adapter (call_client k e) = adapter e"
  "adapter (sendMsg m e) = adapter e"
  "mNavigating (call_modem c e) = mNavigating e" "modem (call_modem c e) = modem e @ [c]"
  "mNavigating (call_client k e) = mNavigating e" "modem (call_client k e) = modem e"
  "mNavigating (sendMsg m e) = mNavigating e" "modem (sendMsg m e) = modem e"
  "client (call_modem c e) = client e" "client (call_client k e) = client e @ [k]"
  "client (sendMsg m e) = client e" "queue (sendMsg m e) = queue e @ [m]"
  "queue (call_modem c e) = queue e" "queue (call_client k e) = queue e"
  "ni (call_modem c e) = ni e" "ni (call_client k e) = ni e" "ni (sendMsg m e) = ni e"
  "mFixCriteria (call_modem c e) = mFixCriteria e" "mFixCriteria (call_client k e) = mFixCriteria e"
  "mFixCriteria (sendMsg m e) = mFixCriteria e"
  "gps_conf (call_modem c e) = gps_conf e" "gps_conf (call_client k e) = gps_conf e"
  "gps_conf (sendMsg m e) = gps_conf e"
  "engine_status (call_modem c e) = engine_status e"
  "engine_status (call_client k e) = engine_status e" "engine_status (sendMsg m e) = engine_status e"
  "agps_status_cb (call_modem c e) = agps_status_cb e"
  "agps_status_cb (call_client c' e) = agps_status_cb e" "agps_status_cb (sendMsg m e) = agps_status_cb e"
  by (simp_all add: call_modem_def call_client_def sendMsg_def)

lemma setInSession_facts [simp]:
  "adapter (setInSession b e) = adapter e"
  "mNavigating (setInSession b e) = b" "modem (setInSession b e) = modem e @ [M_setInSession b]"
  "client (setInSession b e) = client e" "queue (setInSession b e) = queue e"
  "ni (setInSession b e) = ni e" "engine_status (setInSession b e) = engine_status e"
  "generateNmea (setInSession b e) = generateNmea e" "gps_conf (setInSession b e) = gps_conf e"
  by (simp_all add: setInSession_def Let_def call_modem_def)

lemma setInSession_inv: "session_inv e \<Longrightarrow> session_inv (setInSession b e)"
  by (simp add: session_inv_def session_after_append)

lemma quiet_client [loc_inv]: "quiet e (call_client k e)" and quiet_send [loc_inv]: "quiet e (sendMsg m e)"
  by (simp_all add: quiet_same)

lemma send_all_facts [simp]:
  "adapter (send_all ms e) = adapter e"
  "mNavigating (send_all ms e) = mNavigating e" "modem (send_all ms e) = modem e"
  "queue (send_all ms e) = queue e @ ms" "mFixCriteria (send_all ms e) = mFixCriteria e"
  "agps_status_cb (send_all ms e) = agps_status_cb e" "client (send_all ms e) = client e"
  "mPowerVote (send_all ms e) = mPowerVote e" "ni (send_all ms e) = ni e"
  unfolding send_all_def
  by (induction ms arbitrary: e) (simp_all add: sendMsg_def)

lemma quiet_reinit [loc_inv]: "quiet e (loc_eng_reinit e)"
  by (simp add: quiet_same loc_eng_reinit_def)

lemma quiet_aiding [loc_inv]: "quiet e (update_aiding_data_for_deletion e)"
  by (auto simp: update_aiding_data_for_deletion_def quiet_def)

lemma report_status_facts [simp]:
  "adapter (loc_eng_report_status st e) = adapter e"
  "mNavigating (loc_eng_report_status st e) = mNavigating e"
  "modem (loc_eng_report_status st e) = modem e"
  "queue (loc_eng_report_status st e) = queue e"
  by (simp_all add: loc_eng_report_status_def Let_def set_mute_def loc_inform_gps_status_def
      call_client_def)

lemma quiet_power [loc_inv]: "quiet e (requestPowerVote e)"
  by (simp add: requestPowerVote_def quiet_modem)

lemma quiet_set_server [loc_inv]: "quiet e (snd (loc_eng_set_server r t h p e))"
  by (auto simp: loc_eng_set_server_def quiet_send split: option.splits)

lemma quiet_agps_reinit [loc_inv]: "quiet e (loc_eng_agps_reinit r e)"
proof -
  let ?e1 = "case supl_host e of None \<Rightarrow> e
    | Some (h, p) \<Rightarrow> snd (loc_eng_set_server r LOC_AGPS_SUPL_SERVER (Some h) p e)"
  have "quiet e ?e1" by (auto simp: quiet_set_server split: option.splits)
  also have "quiet ?e1 (loc_eng_agps_reinit r e)"
    by (auto simp: loc_eng_agps_reinit_def Let_def quiet_set_server split: option.splits prod.splits)
  finally show ?thesis .
qed

lemma put_nif_facts [simp]:
  "adapter (put_nif n m e) = adapter e"
  "mNavigating (put_nif n m e) = mNavigating e" "modem (put_nif n m e) = modem e"
  by (cases n; simp)+

lemma quiet_on_nif: "on_nif n f e = Some e' \<Longrightarrow> quiet e e'"
  by (auto simp: on_nif_def quiet_same split: option.splits)

lemma try_release_facts: "try_release r n s e = (b, e') \<Longrightarrow> quiet e e'"
  by (auto simp: try_release_def quiet_same split: option.splits prod.splits)

lemma quiet_release [loc_inv]: "quiet e (release_atl r i e)"
proof -
  obtain b1 e1 where 1: "try_release r Agnss (ATLSubscriber i False) e = (b1, e1)" by fastforce
  obtain b2 e2 where 2: "try_release r Internet (ATLSubscriber i False) e1 = (b2, e2)" by fastforce
  obtain b3 e3 where 3: "try_release r Ds (DSSubscriber i False) e2 = (b3, e3)" by fastforce
  have q: "quiet e e1" "quiet e e2" "quiet e e3"
    using try_release_facts [OF 1] try_release_facts [OF 2] try_release_facts [OF 3] quiet_trans
    by blast+
  have "quiet e (call_modem (M_atlCloseStatus i 0) e3)"
    by (rule quiet_trans [OF q(3)]) (simp add: quiet_modem)
  with q 1 2 3 show ?thesis by (simp add: release_atl_def)
qed

lemma start_handler_inv: "session_inv e \<Longrightarrow> session_inv (loc_eng_start_handler err e)"
  by (simp add: loc_eng_start_handler_def session_inv_def startFix_def Let_def session_after_append)

lemma stop_handler_inv: "session_inv e \<Longrightarrow> session_inv (loc_eng_stop_handler e)"
  by (simp add: loc_eng_stop_handler_def session_inv_def stopFix_def session_after_append)

lemma session_inv_client [simp]: "session_inv (call_client k e) = session_inv e"
  by (simp add: session_inv_def)

lemma session_inv_send [simp]: "session_inv (sendMsg m e) = session_inv e"
  by (simp add: session_inv_def)

lemma session_inv_stopFix: "session_inv e \<Longrightarrow> session_inv (stopFix e)"
  by (rule quiet_session_inv) (simp_all add: stopFix_def quiet_modem)

lemma report_position_inv: "session_inv e \<Longrightarrow> session_inv (report_position l st tech e)"
  by (auto simp: report_position_def Let_def setInSession_inv session_inv_stopFix split: option.splits)

lemma engine_up_inv: "session_inv e \<Longrightarrow> session_inv (loc_eng_handle_engine_up r e)"
proof -
  assume inv: "session_inv e"
  let ?e1 = "requestPowerVote (loc_eng_reinit e)"
  have 1: "quiet e ?e1" using quiet_trans [OF quiet_reinit quiet_power] .
  let ?d = "?e1\<lparr>agnss_nif := map_option dropAllSubscribers (agnss_nif ?e1),
      internet_nif := map_option dropAllSubscribers (internet_nif ?e1)\<rparr>"
  have "quiet ?e1 (loc_eng_agps_reinit r ?d)"
    by (rule quiet_trans [OF _ quiet_agps_reinit]) (simp add: quiet_same)
  then have "quiet e (if agps_status_cb ?e1 then loc_eng_agps_reinit r ?d else ?e1)"
    using 1 quiet_trans by auto
  from quiet_session_inv [OF this inv] show ?thesis
    by (auto simp: loc_eng_handle_engine_up_def Let_def setInSession_inv)
qed

lemma quiet_request_atl: "request_atl r i t e = Some e' \<Longrightarrow> quiet e e'"
  by (auto simp: request_atl_def quiet_modem split: option.splits dest: quiet_on_nif)

lemma quiet_request_supl_es: "request_supl_es r i e = Some e' \<Longrightarrow> quiet e e'"
  by (auto simp: request_supl_es_def quiet_modem split: if_splits dest: quiet_on_nif)

lemma quiet_req_rel:
  "req_rel_wifi r t s ss pw b e = Some e' \<Longrightarrow> quiet e e'"
  "req_rel_bit r t v4 v6 b e = Some e' \<Longrightarrow> quiet e e'"
  by (auto simp: req_rel_wifi_def req_rel_bit_def Let_def quiet_modem split: if_splits dest: quiet_on_nif)

lemma quiet_zpp [loc_inv]: "quiet e (loc_eng_get_zpp_handler a e)"
  by (simp add: loc_eng_get_zpp_handler_def Let_def split_beta quiet_def)

lemma quiet_setUlpProxy [loc_inv]: "quiet e (setUlpProxy p e)"
  by (simp add: setUlpProxy_def quiet_same Let_def)

text \<open>The messages that can open or close a session.\<close>

fun session_msg :: "loc_msg \<Rightarrow> bool" where
  "session_msg LocEngStartFix = True"
| "session_msg LocEngStopFix = True"
| "session_msg (LocEngReportPosition l st tech) = True"
| "session_msg LocEngUp = True"
| "session_msg m = False"

lemma quiet_proc: "\<lbrakk>proc a m e = Some e'; \<not> session_msg m\<rbrakk> \<Longrightarrow> quiet e e'"
proof (cases m)
  case (LocEngReportStatus st)
  assume "proc a m e = Some e'"
  then show ?thesis using LocEngReportStatus quiet_aiding [of "loc_eng_report_status st e"]
    by (simp add: quiet_def)
next
  case (LocEngDelAidData f)
  assume "proc a m e = Some e'"
  then show ?thesis using LocEngDelAidData quiet_aiding [of "e\<lparr>aiding_data_for_deletion := f\<rparr>"]
    by (simp add: quiet_def)
next
  case LocEngDown
  assume "proc a m e = Some e'"
  then show ?thesis using LocEngDown by (auto simp: loc_eng_handle_engine_down_def quiet_same)
next
  case (LocEngReleaseATL i)
  assume "proc a m e = Some e'"
  then show ?thesis using LocEngReleaseATL quiet_release by auto
next
  case LocEngGetZpp
  assume "proc a m e = Some e'"
  then show ?thesis using LocEngGetZpp quiet_zpp by auto
next
  case (LocSetUlpProxy p)
  assume "proc a m e = Some e'"
  then show ?thesis using LocSetUlpProxy quiet_setUlpProxy by auto
next
  case LocEngInit
  assume "proc a m e = Some e'"
  then show ?thesis using LocEngInit quiet_trans [OF quiet_reinit quiet_send] by auto
qed (auto simp: quiet_modem loc_inv setPositionMode_def setTime_def
    setXtraVersionCheck_def report_sv_def report_measurement_def Let_def quiet_def
    split: if_splits option.splits
    dest!: quiet_on_nif quiet_request_atl quiet_request_supl_es quiet_req_rel)


lemma proc_session_inv: "\<lbrakk>proc a m e = Some e'; session_inv e\<rbrakk> \<Longrightarrow> session_inv e'"
proof (cases "session_msg m")
  case True
  assume "proc a m e = Some e'" "session_inv e"
  then show ?thesis using True
    by (cases m) (auto simp: start_handler_inv stop_handler_inv report_position_inv engine_up_inv)
qed (auto dest: quiet_proc quiet_session_inv)

lemma handle_session_inv: "\<lbrakk>handle a e = Some e'; session_inv e\<rbrakk> \<Longrightarrow> session_inv e'"
proof -
  assume h: "handle a e = Some e'" "session_inv e"
  have "session_inv (e\<lparr>queue := ms\<rparr>)" for ms using h(2) by (simp add: session_inv_def)
  with h show ?thesis by (auto simp: handle_def split: list.splits dest: proc_session_inv)
qed

section \<open>Every run\<close>

lemma quiet_calls [loc_inv]:
  "quiet e (snd (loc_eng_start e))" "quiet e (snd (loc_eng_stop e))" "quiet e (loc_eng_cleanup e)"
  "quiet e (snd (loc_eng_set_position_mode m e))" "quiet e (snd (loc_eng_inject_time t e))"
  "quiet e (snd (loc_eng_inject_location l e))" "quiet e (loc_eng_delete_aiding_data f e)"
  by (auto simp: loc_eng_start_def loc_eng_stop_def loc_eng_cleanup_def loc_eng_set_position_mode_def
      loc_eng_inject_time_def loc_eng_inject_location_def loc_eng_delete_aiding_data_def quiet_same
      Let_def split: prod.splits)

lemma quiet_set_server_proxy [loc_inv]: "quiet e (snd (loc_eng_set_server_proxy r t h p e))"
  unfolding loc_eng_set_server_proxy_def Let_def
  using quiet_trans [OF _ quiet_set_server] by (auto simp: quiet_same split: LocServerType.split)

lemma quiet_agps_init [loc_inv]: "quiet e (loc_eng_agps_init r cb e)"
  unfolding loc_eng_agps_init_def Let_def
  by (auto simp: quiet_same intro!: quiet_trans [OF _ quiet_agps_reinit])

lemma quiet_others [loc_inv]:
  "quiet e (loc_eng_configuration_update d e)" "quiet e (snd (loc_eng_agps_install_certificates ls e))"
  "quiet e (snd (loc_eng_agps_open ty apn b e))" "quiet e (snd (loc_eng_agps_closed ty e))"
  "quiet e (snd (loc_eng_agps_open_failed ty e))"
  "quiet e (loc_eng_agps_ril_update_network_availability av apn e)"
  "quiet e (setPowerVoteRight v e)" "quiet e (sendMsg m e)" "quiet e (setGpsLockMsg g e)"
  "quiet e (set_features agps cpi e)" "quiet e (snd (loc_eng_gps_measurement_init mcb e))"
  "quiet e (loc_eng_gps_measurement_close e)" "quiet e (snd (loc_eng_xtra_init xcb e))"
  by (auto simp: loc_eng_configuration_update_def loc_eng_agps_install_certificates_def
      loc_eng_agps_open_def loc_eng_agps_closed_def loc_eng_agps_open_failed_def
      loc_eng_agps_ril_update_network_availability_def setPowerVoteRight_def setGpsLockMsg_def
      set_features_def loc_eng_gps_measurement_init_def loc_eng_gps_measurement_close_def
      loc_eng_xtra_init_def quiet_same Let_def split: option.splits)

lemma quiet_setPowerVote [loc_inv]: "quiet e (setPowerVote v e)"
  unfolding setPowerVote_def
  by (rule quiet_trans [OF quiet_trans [OF _ quiet_power] quiet_modem]) (simp_all add: quiet_same)

lemma quiet_reports [loc_inv]: "quiet e (snd (modem_reports r e))"
  by (cases r) (simp_all add: report_to_ulp_def agps_request_def Let_def split_beta quiet_same)

text \<open>Everything but a new start and the message thread leaves the sessions alone.\<close>

lemma quiet_apply:
  assumes "eng_apply x e = Some e'" "\<nexists>cb ev. x = Op_init cb ev" "\<nexists>a. x = Op_handle a"
  shows "quiet e e'"
proof (cases x)
  case (Op_if_request r)
  with assms(1) show ?thesis
    by (auto simp: loc_eng_dmn_conn_loc_api_server_if_request_handler_def quiet_same
        split: if_splits option.splits)
next
  case (Op_if_release r)
  with assms(1) show ?thesis
    by (auto simp: loc_eng_dmn_conn_loc_api_server_if_release_handler_def quiet_same
        split: if_splits option.splits)
next
  case (Op_xtra_inject d)
  with assms(1) show ?thesis
    by (auto simp: loc_eng_xtra_inject_data_def quiet_same split: if_splits)
next
  case Op_xtra_request
  with assms(1) show ?thesis
    by (auto simp: loc_eng_xtra_request_server_def quiet_same split: if_splits)
next
  case (Op_ni_init b)
  with assms(1) show ?thesis by (auto simp: quiet_same)
next
  case (Op_ni v)
  with assms(1) show ?thesis by (auto simp: quiet_same)
qed (use assms in \<open>auto simp: loc_inv\<close>)

lemma init_session_inv: "session_inv e \<Longrightarrow> session_inv (snd (loc_eng_init cb ev e))"
  by (auto simp: loc_eng_init_def session_inv_def split: option.splits)

lemma apply_session_inv: "\<lbrakk>eng_apply x e = Some e'; session_inv e\<rbrakk> \<Longrightarrow> session_inv e'"
  using quiet_apply [of x e e'] quiet_session_inv [of e e'] handle_session_inv init_session_inv
  by (cases "(\<exists>cb ev. x = Op_init cb ev) \<or> (\<exists>a. x = Op_handle a)") auto

lemma run_session_inv: "\<lbrakk>eng_run e xs e'; session_inv e\<rbrakk> \<Longrightarrow> session_inv e'"
  by (induction rule: eng_run.induct) (auto dest: apply_session_inv)

text \<open>An engine that has just been initialised, with nothing in its history.\<close>

definition fresh :: "loc_eng \<Rightarrow> bool" where
  "fresh e \<longleftrightarrow> \<not> adapter e \<and> modem e = [] \<and> client e = [] \<and> queue e = []"

definition started :: "callbacks \<Rightarrow> uint32 \<Rightarrow> loc_eng \<Rightarrow> loc_eng" where
  "started cb ev e = snd (loc_eng_init (Some cb) ev e)"

lemma started_inv: "\<lbrakk>fresh e; ev \<noteq> 0\<rbrakk> \<Longrightarrow> session_inv (started cb ev e)"
  by (simp add: fresh_def started_def loc_eng_init_def session_inv_def cleared_eng_def)



end
