(* ===== verification/Loc_Eng_Restart.thy ===== *)
theory Loc_Eng_Restart
  imports Loc_Eng_Session
begin

text \<open>
  The restart of the modem: \<open>LocEngUp\<close> puts the engine's settings and a new \<open>LocEngStartFix\<close>
  behind what is already in the queue.  The theory follows the queue until it is empty and
  shows that the session is opened again, that a stop which was already in the queue does
  not end it, and that the modem is started without the client's position mode.
\<close>

section \<open>Messages that only configure the modem\<close>

fun config_msg :: "loc_msg \<Rightarrow> bool" where
  "config_msg LocEngGnssConstellationConfig = True"
| "config_msg (LocEngSuplVer v) = True"
| "config_msg (LocEngLppConfig v) = True"
| "config_msg (LocEngAGlonassProtocol v) = True"
| "config_msg (LocEngSensorControlConfig u p) = True"
| "config_msg (LocEngSensorProperties ps) = True"
| "config_msg (LocEngSensorPerfControlConfig ns) = True"
| "config_msg (LocEngEnableData apn v) = True"
| "config_msg (LocEngSetXtraVersionCheck c) = True"
| "config_msg (LocEngSetServerUrl u) = True"
| "config_msg (LocEngSetServerIpv4 ip port t) = True"
| "config_msg m = False"

lemma config_msgs_reinit: "\<forall>m \<in> set (reinit_msgs e). config_msg m"
  by (simp add: reinit_msgs_def)

text \<open>What both keep: the session flag, the position mode and the queue.\<close>

definition same_session :: "loc_eng \<Rightarrow> loc_eng \<Rightarrow> bool" where
  "same_session e e' \<longleftrightarrow> mNavigating e' = mNavigating e \<and> mFixCriteria e' = mFixCriteria e
     \<and> queue e' = queue e \<and> gps_conf e' = gps_conf e"

lemma proc_config:
  assumes "config_msg m"
  obtains e' where "proc a m e = Some e'" "mNavigating e' = mNavigating e"
    "mFixCriteria e' = mFixCriteria e" "queue e' = queue e"
  using assms
  by (cases m) (auto simp: setXtraVersionCheck_def Let_def split: option.splits)

text \<open>The queue after \<open>LocEngUp\<close>.\<close>

lemma queue_set_server:
  "\<exists>ms. queue (snd (loc_eng_set_server r t h p e)) = queue e @ ms \<and> (\<forall>m \<in> set ms. config_msg m)"
  "mNavigating (snd (loc_eng_set_server r t h p e)) = mNavigating e"
  by (auto simp: loc_eng_set_server_def split: option.splits)

lemma queue_agps_reinit:
  "\<exists>ms. queue (loc_eng_agps_reinit r e) = queue e @ ms \<and> (\<forall>m \<in> set ms. config_msg m)"
proof -
  let ?e1 = "case supl_host e of None \<Rightarrow> e
    | Some (h, p) \<Rightarrow> snd (loc_eng_set_server r LOC_AGPS_SUPL_SERVER (Some h) p e)"
  obtain ms where 1: "queue ?e1 = queue e @ ms" "\<forall>m \<in> set ms. config_msg m"
    using queue_set_server(1) [of r LOC_AGPS_SUPL_SERVER _ _ e]
    by (cases "supl_host e") (fastforce split: prod.splits)+
  have "\<exists>ns. queue (loc_eng_agps_reinit r e) = queue ?e1 @ ns \<and> (\<forall>m \<in> set ns. config_msg m)"
    using queue_set_server(1) [of r LOC_AGPS_CDMA_PDE_SERVER _ _ ?e1]
    by (cases "c2k_host ?e1") (fastforce simp: loc_eng_agps_reinit_def Let_def split: prod.splits)+
  with 1 show ?thesis by fastforce
qed

lemma queue_power [simp]: "queue (requestPowerVote e) = queue e"
  by (simp add: requestPowerVote_def)

lemma engine_up_queue:
  assumes "mNavigating e"
  obtains ms where "queue (loc_eng_handle_engine_up r e) = queue e @ ms @ [LocEngStartFix]"
    "\<forall>m \<in> set ms. config_msg m" "\<not> mNavigating (loc_eng_handle_engine_up r e)"
    "pmode (mFixCriteria (loc_eng_handle_engine_up r e)) = LOC_POSITION_MODE_INVALID"
proof -
  let ?e1 = "requestPowerVote (loc_eng_reinit e)"
  let ?d = "?e1\<lparr>agnss_nif := map_option dropAllSubscribers (agnss_nif ?e1),
      internet_nif := map_option dropAllSubscribers (internet_nif ?e1)\<rparr>"
  let ?e2 = "if agps_status_cb ?e1 then loc_eng_agps_reinit r ?d else ?e1"
  have q1: "queue (loc_eng_reinit e) = queue e @ reinit_msgs e" by (simp add: loc_eng_reinit_def)
  obtain ns where ns: "queue ?e2 = queue ?e1 @ ns" "\<forall>m \<in> set ns. config_msg m"
    using queue_agps_reinit [of r ?d] by (cases "agps_status_cb ?e1") auto
  have "mNavigating ?e1"
    using quiet_trans [OF quiet_reinit quiet_power, of e] assms by (simp add: quiet_def)
  then have nav: "mNavigating ?e2"
    using quiet_agps_reinit [of ?d r] by (simp add: quiet_def)
  have up: "loc_eng_handle_engine_up r e = sendMsg LocEngStartFix (setInSession False ?e2)"
    using nav by (simp add: loc_eng_handle_engine_up_def Let_def)
  show thesis
  proof (rule that [of "reinit_msgs e @ ns"])
    show "queue (loc_eng_handle_engine_up r e) = queue e @ (reinit_msgs e @ ns) @ [LocEngStartFix]"
      by (simp add: up q1 ns(1) del: if_split)
    show "\<forall>m \<in> set (reinit_msgs e @ ns). config_msg m" using config_msgs_reinit ns(2) by auto
    show "\<not> mNavigating (loc_eng_handle_engine_up r e)" by (simp add: up)
    show "pmode (mFixCriteria (loc_eng_handle_engine_up r e)) = LOC_POSITION_MODE_INVALID"
      by (simp add: up sendMsg_def setInSession_def Let_def)
  qed
qed

section \<open>From the restart to the empty queue\<close>

text \<open>The last fix the modem was asked to start.\<close>

fun last_start :: "modem_call list \<Rightarrow> LocPosMode option" where
  "last_start [] = None"
| "last_start (c # cs) =
     (case last_start cs of
        Some m \<Rightarrow> Some m
      | None \<Rightarrow> (case c of M_startFix m \<Rightarrow> Some m | _ \<Rightarrow> None))"

lemma last_start_snoc [simp]:
  "last_start (cs @ [M_startFix m]) = Some m"
  "last_start (cs @ [M_startFix m, M_setInSession b]) = Some m"
  by (induction cs) simp_all

text \<open>
  The stages: \<open>LocEngUp\<close> is next; a stop \<open>S\<close> of the client is next; settings are left; all is
  done.
\<close>

datatype stage = Before | At_stop | Settings | Done

fun at_stage :: "loc_msg list \<Rightarrow> stage \<Rightarrow> loc_eng \<Rightarrow> bool" where
  "at_stage S Before e \<longleftrightarrow> queue e = LocEngUp # S \<and> mNavigating e"
| "at_stage S At_stop e \<longleftrightarrow> (\<exists>ms. queue e = LocEngStopFix # ms @ [LocEngStartFix] \<and>
     (\<forall>m \<in> set ms. config_msg m) \<and> \<not> mNavigating e \<and>
     pmode (mFixCriteria e) = LOC_POSITION_MODE_INVALID)"
| "at_stage S Settings e \<longleftrightarrow> (\<exists>ms. queue e = ms @ [LocEngStartFix] \<and>
     (\<forall>m \<in> set ms. config_msg m) \<and> \<not> mNavigating e \<and>
     pmode (mFixCriteria e) = LOC_POSITION_MODE_INVALID)"
| "at_stage S Done e \<longleftrightarrow> queue e = [] \<and> mNavigating e \<and>
     (\<exists>m. last_start (modem e) = Some m \<and> pmode m = LOC_POSITION_MODE_INVALID)"

fun stage_rank :: "stage \<Rightarrow> nat" where
  "stage_rank Before = 3" | "stage_rank At_stop = 2" | "stage_rank Settings = 1" | "stage_rank Done = 0"

lemma handle_before:
  assumes "at_stage S Before e" "S = [] \<or> S = [LocEngStopFix]"
  obtains e' where "handle a e = Some e'" "at_stage S (if S = [] then Settings else At_stop) e'"
proof -
  let ?e = "e\<lparr>queue := S\<rparr>"
  have nav: "mNavigating ?e" using assms(1) by simp
  obtain ms where "queue (loc_eng_handle_engine_up (dns a) ?e) = queue ?e @ ms @ [LocEngStartFix]"
    "\<forall>m \<in> set ms. config_msg m" "\<not> mNavigating (loc_eng_handle_engine_up (dns a) ?e)"
    "pmode (mFixCriteria (loc_eng_handle_engine_up (dns a) ?e)) = LOC_POSITION_MODE_INVALID"
    using engine_up_queue [OF nav] .
  then show thesis
    using assms by (intro that [of "loc_eng_handle_engine_up (dns a) ?e"]) (auto simp: handle_def)
qed

lemma handle_at_stop:
  assumes "at_stage S At_stop e"
  obtains e' where "handle a e = Some e'" "at_stage S Settings e'"
  using assms by (auto simp: handle_def loc_eng_stop_handler_def)

lemma handle_settings:
  assumes "at_stage S Settings e" "start_err a = ERR_SUCCESS"
  obtains e' where "handle a e = Some e'"
    "at_stage S Settings e' \<and> length (queue e') < length (queue e) \<or> at_stage S Done e'"
proof -
  obtain ms where ms: "queue e = ms @ [LocEngStartFix]" "\<forall>m \<in> set ms. config_msg m"
    "\<not> mNavigating e" "pmode (mFixCriteria e) = LOC_POSITION_MODE_INVALID"
    using assms(1) by auto
  show thesis
  proof (cases ms)
    case Nil
    then show thesis
      using ms assms(2) that [of "setInSession True (startFix (e\<lparr>queue := []\<rparr>))"]
      by (simp add: handle_def loc_eng_start_handler_def startFix_def)
  next
    case (Cons m ns)
    then obtain e' where "proc a m (e\<lparr>queue := ns @ [LocEngStartFix]\<rparr>) = Some e'"
      "mNavigating e' = mNavigating e" "mFixCriteria e' = mFixCriteria e"
      "queue e' = ns @ [LocEngStartFix]"
      using proc_config [of m a "e\<lparr>queue := ns @ [LocEngStartFix]\<rparr>"] ms(2) by auto
    with Cons ms show thesis by (intro that [of e']) (auto simp: handle_def)
  qed
qed

lemma handle_done: "at_stage S Done e \<Longrightarrow> handle a e = Some e"
  by (simp add: handle_def)

text \<open>One message further, and all the way.\<close>

definition shorter :: "((nat \<times> nat) \<times> nat \<times> nat) set" where
  "shorter = less_than <*lex*> less_than"

lemma shorter_iff [simp]: "((a, b), c, d) \<in> shorter \<longleftrightarrow> a < c \<or> a = c \<and> b < d"
  by (auto simp: shorter_def)

lemma wf_shorter: "wf shorter"
  by (simp add: shorter_def wf_lex_prod)

lemma stage_step:
  assumes "at_stage S s e" "start_err a = ERR_SUCCESS" "S = [] \<or> S = [LocEngStopFix]"
  obtains e' s' where "handle a e = Some e'" "at_stage S s' e'"
    "s = Done \<or> ((stage_rank s', length (queue e')), stage_rank s, length (queue e)) \<in> shorter"
proof (cases s)
  case Before
  with assms obtain e' where "handle a e = Some e'"
    "at_stage S (if S = [] then Settings else At_stop) e'" using handle_before by blast
  then show thesis using Before by (intro that) (auto split: if_splits)
next
  case At_stop
  with assms obtain e' where "handle a e = Some e'" "at_stage S Settings e'"
    using handle_at_stop by blast
  then show thesis using At_stop by (intro that [of e' Settings]) auto
next
  case Settings
  with assms obtain e' where e': "handle a e = Some e'"
    "at_stage S Settings e' \<and> length (queue e') < length (queue e) \<or> at_stage S Done e'"
    using handle_settings by metis
  from e'(2) show thesis
  proof
    assume "at_stage S Settings e' \<and> length (queue e') < length (queue e)"
    then show thesis using Settings e'(1) by (intro that [of e' Settings]) auto
  next
    assume "at_stage S Done e'"
    then show thesis using Settings e'(1) by (intro that [of e' Done]) auto
  qed
next
  case Done
  then show thesis using assms(1) handle_done by (intro that [of e Done]) auto
qed

lemma stage_drain:
  "\<lbrakk>drain as e = Some e'; at_stage S s e; \<forall>a \<in> set as. start_err a = ERR_SUCCESS;
    S = [] \<or> S = [LocEngStopFix]\<rbrakk> \<Longrightarrow> \<exists>s'. at_stage S s' e'"
proof (induction as arbitrary: e s)
  case (Cons a as)
  have "start_err a = ERR_SUCCESS" using Cons.prems(3) by simp
  then obtain e1 s1 where h: "handle a e = Some e1" "at_stage S s1 e1"
    using stage_step [OF Cons.prems(2) _ Cons.prems(4), of a] by metis
  from Cons.IH [OF _ h(2) _ Cons.prems(4)] Cons.prems(1,3) h(1) show ?case by simp
qed auto

lemma stage_empty: "\<lbrakk>at_stage S s e; queue e = []\<rbrakk> \<Longrightarrow> at_stage S Done e"
  by (cases s) auto

lemma stage_drains:
  assumes "at_stage S s e" "start_err a = ERR_SUCCESS" "S = [] \<or> S = [LocEngStopFix]"
  shows "\<exists>n e'. drain (replicate n a) e = Some e' \<and> queue e' = []"
  using assms
proof (induction "(stage_rank s, length (queue e))" arbitrary: s e
    rule: wf_induct_rule [OF wf_shorter])
  case (1 s e)
  show ?case
  proof (cases "s = Done")
    case True
    then have "drain (replicate 0 a) e = Some e \<and> queue e = []" using 1 by simp
    then show ?thesis by blast
  next
    case False
    obtain e1 s1 where h: "handle a e = Some e1" "at_stage S s1 e1"
      and l: "((stage_rank s1, length (queue e1)), stage_rank s, length (queue e)) \<in> shorter"
      using stage_step [OF 1(2-4)] False by metis
    obtain n e' where "drain (replicate n a) e1 = Some e' \<and> queue e' = []"
      using 1(1) [OF l h(2) 1(3,4)] by blast
    then have "drain (replicate (Suc n) a) e = Some e' \<and> queue e' = []" using h(1) by simp
    then show ?thesis by blast
  qed
qed

section \<open>What a restart does to the session\<close>


definition up_engine :: "loc_msg list \<Rightarrow> loc_eng" where
  "up_engine ms = loc_afw_data\<lparr>adapter := True, mNavigating := True, queue := ms\<rparr>"


text \<open>
  A stop that waits behind the restart is lost.  When the client has stopped the fix before
  \<open>LocEngUp\<close> is handled, the stop finds the session closed by the restart and does nothing,
  and the new \<open>LocEngStartFix\<close> behind it opens the session again: at the end of the queue the modem
  is running a fix that nobody wants.
\<close>
theorem engine_up_loses_stop:
  assumes "queue e = [LocEngUp, LocEngStopFix]" "mNavigating e"
  shows "(start_err a = ERR_SUCCESS \<longrightarrow>
      (\<exists>n e'. drain (replicate n a) e = Some e' \<and> queue e' = [])) \<and>
    (\<forall>as e'. drain as e = Some e' \<and> queue e' = [] \<and> (\<forall>a \<in> set as. start_err a = ERR_SUCCESS) \<longrightarrow>
      mNavigating e')"
proof -
  have b: "at_stage [LocEngStopFix] Before e" using assms by simp
  then have "mNavigating e'"
    if "drain as e = Some e'" "queue e' = []" "\<forall>a \<in> set as. start_err a = ERR_SUCCESS" for as e'
    using stage_drain [OF that(1) b that(3)] stage_empty [OF _ that(2)] by fastforce
  with stage_drains [OF b] show ?thesis by blast
qed

theorem engine_up_loses_stop_witness:
  "\<exists>n e'. drain (replicate n good_answers) (up_engine [LocEngUp, LocEngStopFix]) = Some e'
     \<and> queue e' = []"
  using engine_up_loses_stop [of "up_engine [LocEngUp, LocEngStopFix]" good_answers]
  by (simp add: up_engine_def good_answers_def ERR_SUCCESS_def)

end
