(* ===== verification/Loc_Eng_Reports.thy ===== *)
theory Loc_Eng_Reports
  imports Loc_Eng_Session
begin

text \<open>
  What the location engine reports: which positions, satellites, measurements and states reach
  the client, how a muted session hides them, how a single-shot session ends, and when aiding
  data is deleted.
\<close>

section \<open>Muted sessions\<close>

text \<open>The reports that a muted session hides: all but the modem's NMEA and the session's end.\<close>

fun hidden_msg :: "loc_msg \<Rightarrow> bool" where
  "hidden_msg (LocEngReportPosition l st tech) = True"
| "hidden_msg (LocEngReportSv sv) = True"
| "hidden_msg (LocEngReportGpsMeasurement d) = True"
| "hidden_msg (LocEngReportStatus st) = (st \<noteq> GPS_STATUS_SESSION_END \<and> st \<noteq> GPS_STATUS_ENGINE_OFF)"
| "hidden_msg m = False"

lemma aiding_keeps [simp]:
  "client (update_aiding_data_for_deletion e) = client e"
  "ni (update_aiding_data_for_deletion e) = ni e"
  "queue (update_aiding_data_for_deletion e) = queue e"
  "engine_status (update_aiding_data_for_deletion e) = engine_status e"
  by (simp_all add: update_aiding_data_for_deletion_def)

lemma report_status_muted:
  assumes "mute_state e = LOC_MUTE_SESS_IN_SESSION" "st \<noteq> GPS_STATUS_SESSION_END"
    "st \<noteq> GPS_STATUS_ENGINE_OFF"
  shows "client (loc_eng_report_status st e) = client e"
    "mute_state (loc_eng_report_status st e) = LOC_MUTE_SESS_IN_SESSION"
  using assms by (simp_all add: loc_eng_report_status_def Let_def)

lemma proc_hidden:
  assumes "hidden_msg m" "mute_state e = LOC_MUTE_SESS_IN_SESSION"
  obtains e' where "proc a m e = Some e'" "client e' = client e" "queue e' = queue e"
    "mute_state e' = LOC_MUTE_SESS_IN_SESSION"
  using assms
  by (cases m) (auto simp: report_position_def report_sv_def report_measurement_def
      report_status_muted)


definition muted_engine :: "loc_msg list \<Rightarrow> loc_eng" where
  "muted_engine ms = (set_mute LOC_MUTE_SESS_IN_SESSION loc_afw_data)
     \<lparr>adapter := True, sv_status_cb := True, nmea_cb := True, location_cb := True, queue := ms\<rparr>"


text \<open>A plain single fix from the satellites.\<close>

definition fix_at :: "nat \<Rightarrow> UlpLocation" where
  "fix_at i = \<lparr>has_accuracy = False, accuracy = 0, pos_id = i\<rparr>"

text \<open>
  A muted session can be seen through.  The modem's own NMEA sentences are passed on in it, and
  a second request that overrides privacy puts the mute state back to \<open>LOC_MUTE_SESS_WAIT\<close>, so
  that the positions of the session that is still running are reported.
\<close>
theorem muted_session_leaks:
  assumes "mute_state e = LOC_MUTE_SESS_IN_SESSION" "ni_idle (ni e)" "privacy_override n"
    "nmea_cb e" "location_cb e"
  shows "proc a (LocEngReportNmea d) e = Some (call_client (C_nmea d) e)
    \<and> (\<exists>e1. proc a (LocEngRequestNi n p) e = Some e1 \<and> mute_state e1 = LOC_MUTE_SESS_WAIT
        \<and> (\<exists>e2. proc a (LocEngReportPosition (fix_at i) LOC_SESS_SUCCESS LOC_POS_TECH_MASK_SATELLITE) e1
               = Some e2 \<and> C_location (Some (fix_at i)) \<in> set (client e2)))"
proof -
  let ?e1 = "e\<lparr>ni := loc_eng_ni_request_handler n p (ni e)\<rparr>"
  have mute: "mute_state ?e1 = LOC_MUTE_SESS_WAIT"
    using assms(2,3)
    by (cases "ntype n = GPS_NI_TYPE_EMERGENCY_SUPL")
      (simp_all add: ni_idle_def loc_eng_ni_request_handler_def choose_session_def
        start_session_def Let_def loc_eng_mute_one_session_def)
  let ?e2 = "report_position (fix_at i) LOC_SESS_SUCCESS LOC_POS_TECH_MASK_SATELLITE ?e1"
  have c: "client (setInSession False (if b then stopFix x else x)) = client x" for b x
    by (simp add: stopFix_def)
  have "C_location (Some (fix_at i)) \<in> set (client ?e2)"
    using mute assms(5)
    by (simp add: report_position_def report_to_client_def Let_def c
        LOC_POS_TECH_MASK_SATELLITE_def LOC_POS_TECH_MASK_SENSORS_def LOC_POS_TECH_MASK_HYBRID_def)
  with mute assms(4) show ?thesis by simp
qed

definition override_request :: ni_notification where
  "override_request = \<lparr>ntype = GPS_NI_TYPE_UMTS_SUPL, privacy_override = True, timeout = 0\<rparr>"

definition leaking_engine :: loc_eng where
  "leaking_engine = (muted_engine [])
     \<lparr>ni := (ni_start 0)\<lparr>mute_session_state := LOC_MUTE_SESS_IN_SESSION\<rparr>\<rparr>"

theorem muted_session_leaks_witness:
  "\<exists>e1. proc good_answers (LocEngRequestNi override_request None) leaking_engine = Some e1
     \<and> mute_state leaking_engine = LOC_MUTE_SESS_IN_SESSION \<and> mute_state e1 = LOC_MUTE_SESS_WAIT"
  using muted_session_leaks [of leaking_engine override_request good_answers 0 None 0]
  by (simp add: leaking_engine_def muted_engine_def override_request_def ni_start_def ni_zero_def
      loc_eng_ni_init_def zero_session_def ni_idle_def set_mute_def cleared_session_def)

section \<open>Single-shot sessions\<close>

text \<open>
  A single-shot session ends with the first position that is reported, an intermediate one and
  a failure included.  The session flag is cleared, the modem is stopped if it would go on, and
  because the flag is cleared before the NMEA sentences are generated, the position of a
  single-shot session has none, although the engine generates them.
\<close>
theorem single_shot_no_nmea:
  assumes "mute_state e \<noteq> LOC_MUTE_SESS_IN_SESSION" "report_to_client l st tech e = Some c"
    "recurrence (mFixCriteria e) = GPS_POSITION_RECURRENCE_SINGLE"
  shows "proc a (LocEngReportPosition l st tech) e = Some (report_position l st tech e) \<and>
    client (report_position l st tech e) = client e @ [c] \<and>
    \<not> mNavigating (report_position l st tech e) \<and>
    modem (report_position l st tech e) =
      modem e @ (if st = LOC_SESS_INTERMEDIATE then [M_stopFix] else []) @ [M_setInSession False]"
  using assms by (simp add: report_position_def Let_def stopFix_def)

theorem single_shot_no_nmea_witness:
  "client (report_position (fix_at 1) LOC_SESS_SUCCESS 1 (loc_afw_data\<lparr>location_cb := True, generateNmea := True,
      mNavigating := True, mFixCriteria := no_mode\<lparr>recurrence := GPS_POSITION_RECURRENCE_SINGLE\<rparr>\<rparr>))
   = [C_location (Some (fix_at 1))]"
  using single_shot_no_nmea [of "loc_afw_data\<lparr>location_cb := True, generateNmea := True,
      mNavigating := True, mFixCriteria := no_mode\<lparr>recurrence := GPS_POSITION_RECURRENCE_SINGLE\<rparr>\<rparr>"
      "fix_at 1" LOC_SESS_SUCCESS 1 "C_location (Some (fix_at 1))" good_answers]
  by (simp add: loc_afw_data_def ni_zero_def report_to_client_def LOC_POS_TECH_MASK_SATELLITE_def
      LOC_POS_TECH_MASK_SENSORS_def LOC_POS_TECH_MASK_HYBRID_def)

end
