(* ===== verification/Loc_Eng_Safe.thy ===== *)
theory Loc_Eng_Safe
  imports Loc_Eng_Session
begin

text \<open>
  The pointers of the location engine: no message of the queue and no request of the daemons finds
  a state machine or a proxy missing once the AGPS module has been initialised on a modem that
  supports assisted positioning; and what happens on one that does not.
\<close>

section \<open>Well-formed engines\<close>

definition agps_machines :: "loc_eng \<Rightarrow> bool" where
  "agps_machines e \<longleftrightarrow> agnss_nif e \<noteq> None \<and> internet_nif e \<noteq> None \<and> wifi_nif e \<noteq> None"

definition points_to :: "nif option \<Rightarrow> loc_eng \<Rightarrow> bool" where
  "points_to n e \<longleftrightarrow> (\<exists>k. n = Some k \<and> nif_of k e \<noteq> None)"

text \<open>A message whose pointers are good; a new proxy would make the pointers of others bad.\<close>

fun msg_ok :: "loc_eng \<Rightarrow> loc_msg \<Rightarrow> bool" where
  "msg_ok e (LocEngAtlOpenSuccess n apn b) = points_to n e"
| "msg_ok e (LocEngAtlClosed n) = points_to n e"
| "msg_ok e (LocEngAtlOpenFailed n) = points_to n e"
| "msg_ok e (LocEngReqRelBIT t v4 v6 b) = agps_machines e"
| "msg_ok e (LocEngSuplMode ptr) = (ptr = ulp_ptr e)"
| "msg_ok e (LocSetUlpProxy p) = False"
| "msg_ok e m = True"

definition eng_wf :: "loc_eng \<Rightarrow> bool" where
  "eng_wf e \<longleftrightarrow> adapter e \<and> loc_api_handle e \<and> agps_machines e \<and> (\<forall>m \<in> set (queue e). msg_ok e m)"

text \<open>Steps that keep the pointers: machines are only added, and so are good messages.\<close>

definition holds_ptrs :: "loc_eng \<Rightarrow> loc_eng \<Rightarrow> bool" where
  "holds_ptrs e e' \<longleftrightarrow> adapter e' = adapter e \<and> loc_api_handle e' = loc_api_handle e \<and>
     ulp_ptr e' = ulp_ptr e \<and> (\<forall>k. nif_of k e \<noteq> None \<longrightarrow> nif_of k e' \<noteq> None)"

definition keeps :: "loc_eng \<Rightarrow> loc_eng \<Rightarrow> bool" where
  "keeps e e' \<longleftrightarrow> holds_ptrs e e' \<and>
     (\<exists>ms. queue e' = queue e @ ms \<and> (\<forall>m \<in> set ms. msg_ok e' m))"

lemma holds_machines: "\<lbrakk>holds_ptrs e e'; agps_machines e\<rbrakk> \<Longrightarrow> agps_machines e'"
  unfolding holds_ptrs_def agps_machines_def
  by (metis nif_of.simps(1) nif_of.simps(2) nif_of.simps(3))

lemma holds_points: "\<lbrakk>holds_ptrs e e'; points_to n e\<rbrakk> \<Longrightarrow> points_to n e'"
  unfolding holds_ptrs_def points_to_def by blast

lemma holds_msg_ok: "\<lbrakk>holds_ptrs e e'; msg_ok e m\<rbrakk> \<Longrightarrow> msg_ok e' m"
  using holds_machines holds_points by (cases m) (auto simp: holds_ptrs_def)

lemma keeps_refl [simp, intro]: "keeps e e"
  by (simp add: keeps_def holds_ptrs_def)

lemma keeps_trans [trans]: "\<lbrakk>keeps e e1; keeps e1 e2\<rbrakk> \<Longrightarrow> keeps e e2"
proof -
  assume 1: "keeps e e1" "keeps e1 e2"
  obtain ms ns where q: "queue e1 = queue e @ ms" "\<forall>m \<in> set ms. msg_ok e1 m"
    "queue e2 = queue e1 @ ns" "\<forall>m \<in> set ns. msg_ok e2 m"
    using 1 unfolding keeps_def by blast
  have h: "holds_ptrs e e1" "holds_ptrs e1 e2" using 1 by (simp_all add: keeps_def)
  have "holds_ptrs e e2" using h by (simp add: holds_ptrs_def)
  moreover have "\<forall>m \<in> set (ms @ ns). msg_ok e2 m"
    using q(2,4) holds_msg_ok [OF h(2)] by auto
  moreover have "queue e2 = queue e @ ms @ ns" using q(1,3) by simp
  ultimately show ?thesis unfolding keeps_def by blast
qed

lemma keeps_wf:
  assumes "keeps e e'" "eng_wf e" shows "eng_wf e'"
proof -
  obtain ms where ms: "queue e' = queue e @ ms" "\<forall>m \<in> set ms. msg_ok e' m" and h: "holds_ptrs e e'"
    using assms(1) unfolding keeps_def by blast
  have "\<forall>m \<in> set (queue e'). msg_ok e' m"
    using ms holds_msg_ok [OF h] assms(2) by (auto simp: eng_wf_def)
  moreover have "agps_machines e'" using holds_machines [OF h] assms(2) by (simp add: eng_wf_def)
  ultimately show ?thesis using h assms(2) by (simp add: eng_wf_def holds_ptrs_def)
qed

text \<open>The fields the pointers live in.\<close>

definition ptrs :: "loc_eng \<Rightarrow>
    bool \<times> bool \<times> nat \<times> agps_sm option \<times> agps_sm option \<times> agps_sm option \<times> agps_sm option" where
  "ptrs e = (adapter e, loc_api_handle e, ulp_ptr e, agnss_nif e, internet_nif e, wifi_nif e, ds_nif e)"

lemma holds_same:
  assumes "ptrs e' = ptrs e" shows "holds_ptrs e e'"
proof -
  have "nif_of k e' = nif_of k e" for k using assms by (cases k) (simp_all add: ptrs_def)
  with assms show ?thesis by (simp add: holds_ptrs_def ptrs_def)
qed

lemma keeps_same: "\<lbrakk>ptrs e' = ptrs e; queue e' = queue e\<rbrakk> \<Longrightarrow> keeps e e'"
  by (simp add: keeps_def holds_same)

lemma keeps_send: "msg_ok e m \<Longrightarrow> keeps e (sendMsg m e)"
proof -
  assume m: "msg_ok e m"
  have h: "holds_ptrs e (sendMsg m e)" by (rule holds_same) (simp add: ptrs_def sendMsg_def)
  with holds_msg_ok [OF h m] show ?thesis by (simp add: keeps_def)
qed

lemma ptrs_simps [simp]:
  "ptrs (call_modem c e) = ptrs e" "ptrs (call_client k e) = ptrs e" "ptrs (sendMsg m e) = ptrs e"
  "ptrs (setInSession b e) = ptrs e" "ptrs (set_mute w e) = ptrs e"
  by (simp_all add: ptrs_def call_modem_def call_client_def sendMsg_def setInSession_def Let_def
      set_mute_def)

lemma queue_set_mute [simp]: "queue (set_mute w e) = queue e"
  by (simp add: set_mute_def)

lemma ptrs_updates [simp]:
  "ptrs (e\<lparr>queue := q\<rparr>) = ptrs e" "ptrs (e\<lparr>mUlp := u\<rparr>) = ptrs e" "ptrs (e\<lparr>ni := n\<rparr>) = ptrs e"
  "ptrs (e\<lparr>gps_conf := c\<rparr>) = ptrs e" "ptrs (e\<lparr>mPowerVote := v\<rparr>) = ptrs e"
  "ptrs (e\<lparr>engine_status := st\<rparr>) = ptrs e" "ptrs (e\<lparr>fix_session_status := st\<rparr>) = ptrs e"
  "ptrs (e\<lparr>aiding_data_for_deletion := f\<rparr>) = ptrs e" "ptrs (e\<lparr>mFixCriteria := m\<rparr>) = ptrs e"
  "ptrs (e\<lparr>mSupportsTimeInjection := t\<rparr>) = ptrs e" "ptrs (e\<lparr>agpsStatus := g\<rparr>) = ptrs e"
  "ptrs (e\<lparr>supl_host := h\<rparr>) = ptrs e" "ptrs (e\<lparr>c2k_host := h\<rparr>) = ptrs e"
  "ptrs (e\<lparr>gps_measurement_cb := b\<rparr>) = ptrs e"
  by (simp_all add: ptrs_def)

section \<open>The messages\<close>

lemma put_nif_keeps [loc_inv]: "keeps e (put_nif n m e)"
proof -
  have "nif_of k (put_nif n m e) \<noteq> None" if "nif_of k e \<noteq> None" for k
    using that by (cases k; cases n) simp_all
  moreover have "adapter (put_nif n m e) = adapter e" "loc_api_handle (put_nif n m e) = loc_api_handle e"
    "ulp_ptr (put_nif n m e) = ulp_ptr e" "queue (put_nif n m e) = queue e"
    by (cases n; simp)+
  ultimately show ?thesis by (simp add: keeps_def holds_ptrs_def)
qed

lemma on_nif_keeps: "points_to n e \<Longrightarrow> \<exists>e'. on_nif n f e = Some e' \<and> keeps e e'"
  by (auto simp: points_to_def on_nif_def put_nif_keeps)

lemma get_machine_points:
  "getAgpsStateMachine t e = Some n \<Longrightarrow> points_to (Some n) e"
  "agps_machines e \<Longrightarrow> points_to (getAgpsStateMachine t e) e"
  by (auto simp: getAgpsStateMachine_def points_to_def agps_machines_def Let_def split: if_splits)

lemma request_atl_keeps [loc_inv]: "\<exists>e'. request_atl r i t e = Some e' \<and> keeps e e'"
  using on_nif_keeps get_machine_points(1)
  by (auto simp: request_atl_def keeps_same split: option.split)

lemma request_supl_es_keeps [loc_inv]: "\<exists>e'. request_supl_es r i e = Some e' \<and> keeps e e'"
proof -
  have "ds_nif e \<noteq> None \<Longrightarrow> points_to (Some Ds) e" "agnss_nif e \<noteq> None \<Longrightarrow> points_to (Some Agnss) e"
    by (simp_all add: points_to_def)
  then show ?thesis using on_nif_keeps by (auto simp: request_supl_es_def keeps_same)
qed

lemma req_rel_wifi_keeps [loc_inv]: "\<exists>e'. req_rel_wifi r t s ss pw b e = Some e' \<and> keeps e e'"
proof -
  have "wifi_nif e \<noteq> None \<Longrightarrow> points_to (Some Wifi) e" by (simp add: points_to_def)
  then show ?thesis using on_nif_keeps by (auto simp: req_rel_wifi_def Let_def keeps_same)
qed

lemma req_rel_bit_keeps: "agps_machines e \<Longrightarrow> \<exists>e'. req_rel_bit r t v4 v6 b e = Some e' \<and> keeps e e'"
  using on_nif_keeps get_machine_points(2) by (simp add: req_rel_bit_def Let_def)

lemma ds_event_keeps:
  "\<exists>e'. (if ds_nif e = None then Some e else on_nif (Some Ds) f e) = Some e' \<and> keeps e e'"
  using on_nif_keeps [of "Some Ds" e f] by (auto simp: points_to_def)

lemma try_release_keeps: "try_release r n s e = (b, e') \<Longrightarrow> keeps e e'"
  by (auto simp: try_release_def put_nif_keeps split: option.splits prod.splits)

lemma release_keeps [loc_inv]: "keeps e (release_atl r i e)"
proof -
  obtain b1 e1 where 1: "try_release r Agnss (ATLSubscriber i False) e = (b1, e1)" by fastforce
  obtain b2 e2 where 2: "try_release r Internet (ATLSubscriber i False) e1 = (b2, e2)" by fastforce
  obtain b3 e3 where 3: "try_release r Ds (DSSubscriber i False) e2 = (b3, e3)" by fastforce
  have k: "keeps e e1" "keeps e e2" "keeps e e3"
    using try_release_keeps [OF 1] try_release_keeps [OF 2] try_release_keeps [OF 3] keeps_trans
    by blast+
  have "keeps e (call_modem (M_atlCloseStatus i 0) e3)"
    by (rule keeps_trans [OF k(3)]) (simp add: keeps_same)
  with k 1 2 3 show ?thesis by (simp add: release_atl_def)
qed

lemma keeps_send_all: "\<forall>m \<in> set ms. msg_ok e m \<Longrightarrow> keeps e (send_all ms e)"
proof (induction ms arbitrary: e)
  case Nil
  then show ?case by (simp add: send_all_def)
next
  case (Cons m ms)
  have k: "keeps e (sendMsg m e)" using Cons.prems by (simp add: keeps_send)
  then have "holds_ptrs e (sendMsg m e)" by (simp add: keeps_def)
  then have "keeps (sendMsg m e) (send_all ms (sendMsg m e))"
    using Cons.IH Cons.prems holds_msg_ok by auto
  with k keeps_trans show ?case by (auto simp: send_all_def)
qed

lemma reinit_keeps [loc_inv]: "keeps e (loc_eng_reinit e)"
  unfolding loc_eng_reinit_def by (rule keeps_send_all) (simp add: reinit_msgs_def)

lemma power_keeps [loc_inv]: "keeps e (requestPowerVote e)"
  by (simp add: requestPowerVote_def keeps_same)

lemma set_server_keeps [loc_inv]: "keeps e (snd (loc_eng_set_server r t h p e))"
  by (auto simp: loc_eng_set_server_def keeps_send split: option.split)

lemma agps_reinit_keeps [loc_inv]: "keeps e (loc_eng_agps_reinit r e)"
proof -
  let ?e1 = "case supl_host e of None \<Rightarrow> e
    | Some (h, p) \<Rightarrow> snd (loc_eng_set_server r LOC_AGPS_SUPL_SERVER (Some h) p e)"
  have "keeps e ?e1" by (auto simp: set_server_keeps split: option.splits)
  also have "keeps ?e1 (loc_eng_agps_reinit r e)"
    by (auto simp: loc_eng_agps_reinit_def Let_def set_server_keeps split: option.splits prod.splits)
  finally show ?thesis .
qed

lemma drop_subscribers_keeps:
  "keeps e (e\<lparr>agnss_nif := map_option f (agnss_nif e), internet_nif := map_option g (internet_nif e)\<rparr>)"
proof -
  let ?e = "e\<lparr>agnss_nif := map_option f (agnss_nif e), internet_nif := map_option g (internet_nif e)\<rparr>"
  have "nif_of k e \<noteq> None \<longrightarrow> nif_of k ?e \<noteq> None" for k by (cases k) simp_all
  then show ?thesis by (simp add: keeps_def holds_ptrs_def)
qed

lemma setInSession_keeps [loc_inv]: "keeps e (setInSession b e)"
  by (simp add: keeps_same)

lemma engine_up_keeps [loc_inv]: "keeps e (loc_eng_handle_engine_up r e)"
proof -
  let ?e1 = "requestPowerVote (loc_eng_reinit e)"
  let ?d = "?e1\<lparr>agnss_nif := map_option dropAllSubscribers (agnss_nif ?e1),
      internet_nif := map_option dropAllSubscribers (internet_nif ?e1)\<rparr>"
  let ?e2 = "if agps_status_cb ?e1 then loc_eng_agps_reinit r ?d else ?e1"
  have "keeps e ?e1" using keeps_trans [OF reinit_keeps power_keeps] .
  also have "keeps ?e1 ?e2"
    using keeps_trans [OF drop_subscribers_keeps agps_reinit_keeps] by simp
  also have "keeps ?e2 (loc_eng_handle_engine_up r e)"
    using keeps_trans [OF setInSession_keeps keeps_send]
    by (simp add: loc_eng_handle_engine_up_def Let_def)
  finally show ?thesis .
qed

lemma report_status_keeps [loc_inv]: "keeps e (loc_eng_report_status st e)"
  by (rule keeps_same) (simp_all add: loc_eng_report_status_def Let_def loc_inform_gps_status_def)

lemma aiding_keeps_ptrs [loc_inv]: "keeps e (update_aiding_data_for_deletion e)"
  by (simp add: update_aiding_data_for_deletion_def keeps_same)

lemma report_position_keeps [loc_inv]: "keeps e (report_position l st tech e)"
  by (rule keeps_same)
    (auto simp: report_position_def Let_def stopFix_def split: option.split)

lemma proc_keeps: "msg_ok e m \<Longrightarrow> \<exists>e'. proc a m e = Some e' \<and> keeps e e'"
proof (cases m)
  case (LocEngReportStatus st)
  then show ?thesis using keeps_trans [OF report_status_keeps aiding_keeps_ptrs] by simp
next
  case (LocEngDelAidData f)
  then show ?thesis
    using keeps_trans [OF keeps_same [of "e\<lparr>aiding_data_for_deletion := f\<rparr>" e] aiding_keeps_ptrs]
    by simp
next
  case LocEngDown
  then show ?thesis
    using keeps_trans [OF keeps_same report_status_keeps]
    by (simp add: loc_eng_handle_engine_down_def)
next
  case LocEngInit
  then show ?thesis using keeps_trans [OF reinit_keeps keeps_send] by simp
next
  case LocEngDataClientInit
  have "nif_of k e \<noteq> None \<longrightarrow> nif_of k ((call_modem c e)\<lparr>ds_nif := Some d\<rparr>) \<noteq> None" for k c d
    by (cases k) (simp_all add: call_modem_def)
  then have "keeps e ((call_modem c e)\<lparr>ds_nif := Some d\<rparr>)" for c d
    by (simp add: keeps_def holds_ptrs_def call_modem_def)
  then show ?thesis using LocEngDataClientInit by (simp add: keeps_same Let_def)
qed (auto simp: loc_inv req_rel_bit_keeps ds_event_keeps on_nif_keeps
    loc_eng_start_handler_def loc_eng_stop_handler_def startFix_def stopFix_def setPositionMode_def
    report_sv_def report_measurement_def setXtraVersionCheck_def setTime_def
    loc_eng_get_zpp_handler_def keeps_same Let_def split_beta split: option.split)

section \<open>The calls\<close>

text \<open>Everything but the exchange of the proxy.\<close>

fun op_ok :: "eng_op \<Rightarrow> bool" where
  "op_ok (Op_ulp p) = False"
| "op_ok (Op_internal (I_setUlpProxy p)) = False"
| "op_ok x = True"

lemma calls_keep:
  "keeps e (snd (loc_eng_start e))" "keeps e (snd (loc_eng_stop e))" "keeps e (loc_eng_cleanup e)"
  "keeps e (snd (loc_eng_set_position_mode m e))" "keeps e (snd (loc_eng_inject_time t e))"
  "keeps e (snd (loc_eng_inject_location l e))" "keeps e (loc_eng_delete_aiding_data f e)"
  "keeps e (loc_eng_agps_ril_update_network_availability av apn e)"
  "keeps e (snd (loc_eng_agps_install_certificates ls e))" "keeps e (setGpsLockMsg g e)"
  by (auto simp: loc_eng_start_def loc_eng_stop_def loc_eng_cleanup_def loc_eng_set_position_mode_def
      loc_eng_inject_time_def loc_eng_inject_location_def loc_eng_delete_aiding_data_def
      loc_eng_agps_ril_update_network_availability_def loc_eng_agps_install_certificates_def
      setGpsLockMsg_def Let_def split_beta keeps_same split: option.split
      intro!: keeps_send keeps_trans [OF keeps_same keeps_send])

lemma setPowerVote_keeps [loc_inv]: "keeps e (setPowerVote v e)" "keeps e (setPowerVoteRight v e)"
proof -
  have k: "keeps e (e\<lparr>mPowerVote := w\<rparr>)" for w by (simp add: keeps_same)
  have "keeps x (call_modem c x)" for c x by (simp add: keeps_same)
  then show "keeps e (setPowerVote v e)"
    unfolding setPowerVote_def using keeps_trans [OF keeps_trans [OF k power_keeps]] by blast
  show "keeps e (setPowerVoteRight v e)" unfolding setPowerVoteRight_def by (rule k)
qed

lemma features_keep: "keeps e (set_features agps cpi e)" "keeps e (snd (loc_eng_xtra_init xcb e))"
  by (auto simp: set_features_def loc_eng_xtra_init_def intro!: keeps_same simp: ptrs_def
      split: option.split)

lemma measurement_keeps:
  "keeps e (snd (loc_eng_gps_measurement_init mcb e))" "keeps e (loc_eng_gps_measurement_close e)"
proof -
  have "keeps e ((sendMsg (LocEngUpdateRegistrationMask b) e)\<lparr>gps_measurement_cb := c\<rparr>)" for b c
    by (rule keeps_trans [OF keeps_send keeps_same]) simp_all
  then show "keeps e (snd (loc_eng_gps_measurement_init mcb e))"
    "keeps e (loc_eng_gps_measurement_close e)"
    by (auto simp: loc_eng_gps_measurement_init_def loc_eng_gps_measurement_close_def split: option.split)
qed

lemma reports_keep: "keeps e (snd (modem_reports r e))"
proof -
  have "keeps e (snd (agps_request m e))" if "msg_ok e m" for m
    using that by (simp add: agps_request_def keeps_send)
  moreover have "keeps e (report_to_ulp c m e)" if "\<And>x. msg_ok x m" for c m
    using that keeps_trans [OF keeps_same keeps_send]
    by (simp add: report_to_ulp_def Let_def split_beta keeps_same)
  ultimately show ?thesis by (cases r) (auto simp: keeps_send)
qed

lemma set_server_proxy_keeps [loc_inv]: "keeps e (snd (loc_eng_set_server_proxy r t h p e))"
proof -
  have "keeps e (e\<lparr>supl_host := a\<rparr>)" "keeps e (e\<lparr>c2k_host := a\<rparr>)" for a
    by (simp_all add: keeps_same)
  then show ?thesis
    using keeps_trans [OF _ set_server_keeps]
    by (auto simp: loc_eng_set_server_proxy_def Let_def set_server_keeps split: LocServerType.split)
qed

lemma config_keeps [loc_inv]: "keeps e (loc_eng_configuration_update d e)"
proof -
  define old new where "old = gps_conf e" and "new = snd (loc_update_conf (\<lambda>s. ()) () gps_conf_table (Some d) old)"
  define e1 where "e1 = e\<lparr>gps_conf := new\<rparr>"
  define e2 where "e2 = (if adapter e1 then send_all (config_msgs old new (ulp_ptr e1)) e1 else e1)"
  have "\<forall>m \<in> set (config_msgs old new (ulp_ptr e1)). msg_ok e1 m"
    by (auto simp: config_msgs_def)
  then have 2: "keeps e1 e2" by (simp add: e2_def keeps_send_all)
  have "keeps e e1" by (simp add: e1_def keeps_same)
  from this 2 have "keeps e e2" by (rule keeps_trans)
  then have k: "keeps e (e2\<lparr>gps_conf := y\<rparr>)" for y by (rule keeps_trans [OF _ keeps_same]) simp_all
  have eq: "loc_eng_configuration_update d e = (if d = [] then e
    else e2\<lparr>gps_conf := old\<lparr>SUPL_VER := SUPL_VER new, LPP_PROFILE := LPP_PROFILE new,
      A_GLONASS_POS_PROTOCOL_SELECT := A_GLONASS_POS_PROTOCOL_SELECT new, GPS_LOCK := GPS_LOCK new\<rparr>\<rparr>)"
    by (simp only: loc_eng_configuration_update_def Let_def e2_def e1_def old_def new_def)
  show ?thesis unfolding eq using k by simp
qed

lemma new_machines_keep:
  "keeps e (e\<lparr>agps_status_cb := b, internet_nif := Some i, wifi_nif := Some w\<rparr>)"
  "keeps e (e\<lparr>agnss_nif := Some n\<rparr>)"
proof -
  let ?e = "e\<lparr>agps_status_cb := b, internet_nif := Some i, wifi_nif := Some w\<rparr>"
  have "nif_of k e \<noteq> None \<longrightarrow> nif_of k ?e \<noteq> None" for k by (cases k) simp_all
  then show "keeps e ?e" by (simp add: keeps_def holds_ptrs_def)
next
  let ?e = "e\<lparr>agnss_nif := Some n\<rparr>"
  have "nif_of k e \<noteq> None \<longrightarrow> nif_of k ?e \<noteq> None" for k by (cases k) simp_all
  then show "keeps e ?e" by (simp add: keeps_def holds_ptrs_def)
qed

text \<open>The start of the AGPS module: the first part is a step like the others.\<close>

lemma agps_init_keeps:
  assumes "loc_api_handle e" shows "keeps e (loc_eng_agps_init r cb e)"
proof (cases "\<not> adapter e \<or> agps_status_cb e \<or> \<not> cb")
  case False
  define e1 where "e1 = e\<lparr>agps_status_cb := True,
    internet_nif := Some (new_AgpsStateMachine servicerTypeAgps AGPS_TYPE_WWAN_ANY False),
    wifi_nif := Some (new_AgpsStateMachine servicerTypeAgps AGPS_TYPE_WIFI True)\<rparr>"
  define e2 where "e2 = e1\<lparr>agnss_nif := Some (new_AgpsStateMachine servicerTypeAgps AGPS_TYPE_SUPL False)\<rparr>"
  define e3 where "e3 = (if mSupportsAgpsRequests e2 \<and> USE_EMERGENCY_PDN_FOR_EMERGENCY_SUPL (gps_conf e2) \<noteq> 0
    then sendMsg LocEngDataClientInit e2 else e2)"
  define e4 where "e4 = (if mSupportsAgpsRequests e3 then e3\<lparr>loc_api_handle := True\<rparr> else e3)"
  have 1: "keeps e e1" unfolding e1_def by (rule new_machines_keep)
  also have "keeps e1 e2" unfolding e2_def by (rule new_machines_keep)
  also have "keeps e2 e3" unfolding e3_def by (simp add: keeps_send)
  finally have 3: "keeps e e3" .
  then have "loc_api_handle e3" using assms by (simp add: keeps_def holds_ptrs_def)
  then have "keeps e3 e4" unfolding e4_def by (simp add: keeps_same ptrs_def)
  with 3 have 4: "keeps e (loc_eng_agps_reinit r e4)"
    using keeps_trans [OF keeps_trans agps_reinit_keeps] by blast
  have eq: "loc_eng_agps_init r cb e =
    (if CAPABILITIES (gps_conf e1) AND GPS_CAPABILITY_MSA \<noteq> 0 \<or> CAPABILITIES (gps_conf e1) AND GPS_CAPABILITY_MSB \<noteq> 0
     then loc_eng_agps_reinit r e4 else e1)"
    by (simp only: loc_eng_agps_init_def Let_def e4_def e3_def e2_def e1_def False if_False)
  show ?thesis unfolding eq using 1 4 by simp
qed (simp add: loc_eng_agps_init_def)

text \<open>One operation, and every run.\<close>

lemma if_request_msg_ok: "\<lbrakk>if_request_msg b t r = Some m; agps_machines e\<rbrakk> \<Longrightarrow> msg_ok e m"
  by (auto simp: if_request_msg_def split: if_splits)

lemma handle_wf:
  assumes "eng_wf e" shows "\<exists>e'. handle a e = Some e' \<and> eng_wf e'"
proof (cases "queue e")
  case Nil
  then show ?thesis using assms by (simp add: handle_def)
next
  case (Cons m ms)
  let ?e = "e\<lparr>queue := ms\<rparr>"
  have h: "holds_ptrs e ?e" by (simp add: holds_same)
  have ok: "\<forall>x \<in> set (queue e). msg_ok ?e x"
    using assms holds_msg_ok [OF h] by (auto simp: eng_wf_def)
  then have "eng_wf ?e"
    using assms Cons holds_machines [OF h] by (simp add: eng_wf_def)
  moreover obtain e' where "proc a m ?e = Some e'" "keeps ?e e'"
    using proc_keeps [of ?e m a] ok Cons by auto
  ultimately show ?thesis using Cons keeps_wf by (auto simp: handle_def)
qed

lemma apply_wf:
  assumes "eng_wf e" "op_ok x" shows "\<exists>e'. eng_apply x e = Some e' \<and> eng_wf e'"
proof -
  have k: "eng_wf e'" if "keeps e e'" for e' using keeps_wf [OF that assms(1)] .
  have wf: "adapter e" "loc_api_handle e" "agps_machines e" using assms(1) by (simp_all add: eng_wf_def)
  note p = get_machine_points(2) [OF wf(3)]
  have c: "keeps e (e\<lparr>ni := n\<rparr>)" for n by (simp add: keeps_same)
  show ?thesis
  proof (cases x)
    case (Op_init cb ev)
    with wf(1) assms(1) show ?thesis by (auto simp: loc_eng_init_def split: option.split)
  next
    case (Op_handle a)
    with handle_wf [OF assms(1)] show ?thesis by simp
  next
    case (Op_internal i)
    with assms(2) have "keeps e (sendMsg (internal_msg i) e)" by (cases i) (auto intro!: keeps_send)
    with Op_internal k show ?thesis by simp
  next
    case (Op_if_request r)
    with wf k assms(1) show ?thesis
      by (auto simp: loc_eng_dmn_conn_loc_api_server_if_request_handler_def
          intro!: k keeps_send if_request_msg_ok split: option.split)
  next
    case (Op_if_release r)
    with wf k assms(1) show ?thesis
      by (auto simp: loc_eng_dmn_conn_loc_api_server_if_release_handler_def
          intro!: k keeps_send if_request_msg_ok split: option.split)
  next
    case (Op_agps_open t apn b)
    with p k show ?thesis by (auto simp: loc_eng_agps_open_def keeps_send split: option.split)
  next
    case (Op_agps_closed t)
    with p k show ?thesis by (auto simp: loc_eng_agps_closed_def keeps_send)
  next
    case (Op_agps_failed t)
    with p k show ?thesis by (auto simp: loc_eng_agps_open_failed_def keeps_send)
  qed (use assms(2) wf k in \<open>auto simp: loc_inv calls_keep features_keep measurement_keeps
      reports_keep agps_init_keeps c keeps_send
      loc_eng_xtra_inject_data_def loc_eng_xtra_request_server_def\<close>)
qed

lemma run_wf: "\<lbrakk>eng_wf e; \<forall>x \<in> set xs. op_ok x\<rbrakk> \<Longrightarrow> \<exists>e'. eng_run e xs e' \<and> eng_wf e'"
proof (induction xs arbitrary: e)
  case (Cons x xs)
  obtain e1 where e1: "eng_apply x e = Some e1" "eng_wf e1" using apply_wf [of e x] Cons.prems by auto
  obtain e' where "eng_run e1 xs e'" "eng_wf e'" using Cons.IH [OF e1(2)] Cons.prems(2) by auto
  with e1 show ?case by auto
qed simp

section \<open>The engine in service\<close>

text \<open>
  The start as \<open>loc_init\<close> and the AGPS interface do it: the engine, the features of the modem (here
  without the extended AGPS capabilities, so that its requests come to this adapter), and the AGPS
  module.
\<close>

definition in_service ::
  "(string \<Rightarrow> uint32 option) \<Rightarrow> bool \<Rightarrow> callbacks \<Rightarrow> uint32 \<Rightarrow> loc_eng \<Rightarrow> loc_eng" where
  "in_service r cpi cb ev e = loc_eng_agps_init r True (set_features False cpi (started cb ev e))"

definition supports_agnss :: "loc_eng \<Rightarrow> bool" where
  "supports_agnss e \<longleftrightarrow>
     CAPABILITIES (gps_conf e) AND (GPS_CAPABILITY_MSA OR GPS_CAPABILITY_MSB) \<noteq> 0"

lemma supports_agnss_iff:
  "supports_agnss e \<longleftrightarrow> CAPABILITIES (gps_conf e) AND GPS_CAPABILITY_MSA \<noteq> 0 \<or>
     CAPABILITIES (gps_conf e) AND GPS_CAPABILITY_MSB \<noteq> 0"
  by (simp add: supports_agnss_def bit.conj_disj_distrib word_bw_lcs or_eq_0_iff)

text \<open>The state \<open>loc_init\<close> leaves, and the first steps of the AGPS module on it.\<close>

definition initialised :: "bool \<Rightarrow> callbacks \<Rightarrow> uint32 \<Rightarrow> loc_eng \<Rightarrow> loc_eng" where
  "initialised cpi cb ev e = set_features False cpi (started cb ev e)"

lemma initialised_facts:
  assumes "fresh e" "ev \<noteq> 0"
  shows "adapter (initialised cpi cb ev e)" "\<not> agps_status_cb (initialised cpi cb ev e)"
    "queue (initialised cpi cb ev e) = [LocEngInit]" "gps_conf (initialised cpi cb ev e) = gps_conf e"
    "mSupportsAgpsRequests (initialised cpi cb ev e)" "agnss_nif (initialised cpi cb ev e) = None"
  using assms
  by (simp_all add: initialised_def started_def fresh_def loc_eng_init_def cleared_eng_def
      set_features_def sendMsg_def)

lemma in_service_initialised: "in_service r cpi cb ev e = loc_eng_agps_init r True (initialised cpi cb ev e)"
  by (simp add: in_service_def initialised_def)

lemma in_service_wf:
  assumes "fresh e" "ev \<noteq> 0" "supports_agnss e"
  shows "eng_wf (in_service r cpi cb ev e)"
proof -
  define e0 where "e0 = initialised cpi cb ev e"
  note f = initialised_facts [OF assms(1,2), of cpi cb, folded e0_def]
  define e1 where "e1 = e0\<lparr>agps_status_cb := True,
    internet_nif := Some (new_AgpsStateMachine servicerTypeAgps AGPS_TYPE_WWAN_ANY False),
    wifi_nif := Some (new_AgpsStateMachine servicerTypeAgps AGPS_TYPE_WIFI True)\<rparr>"
  define e2 where "e2 = e1\<lparr>agnss_nif := Some (new_AgpsStateMachine servicerTypeAgps AGPS_TYPE_SUPL False)\<rparr>"
  define e3 where "e3 = (if mSupportsAgpsRequests e2 \<and> USE_EMERGENCY_PDN_FOR_EMERGENCY_SUPL (gps_conf e2) \<noteq> 0
    then sendMsg LocEngDataClientInit e2 else e2)"
  define e4 where "e4 = (if mSupportsAgpsRequests e3 then e3\<lparr>loc_api_handle := True\<rparr> else e3)"
  have no: "\<not> (\<not> adapter e0 \<or> agps_status_cb e0 \<or> \<not> True)" using f by simp
  have caps: "CAPABILITIES (gps_conf e1) AND GPS_CAPABILITY_MSA \<noteq> 0 \<or>
    CAPABILITIES (gps_conf e1) AND GPS_CAPABILITY_MSB \<noteq> 0"
    using assms(3) f(4) by (simp add: supports_agnss_iff e1_def)
  have eq: "loc_eng_agps_init r True e0 =
    (if CAPABILITIES (gps_conf e1) AND GPS_CAPABILITY_MSA \<noteq> 0 \<or> CAPABILITIES (gps_conf e1) AND GPS_CAPABILITY_MSB \<noteq> 0
     then loc_eng_agps_reinit r e4 else e1)"
    by (simp only: loc_eng_agps_init_def Let_def e4_def e3_def e2_def e1_def no if_False)
  have 2: "adapter e2" "agps_machines e2" "queue e2 = [LocEngInit]" "mSupportsAgpsRequests e2"
    using f by (simp_all add: e2_def e1_def agps_machines_def)
  have 3: "adapter e3" "agps_machines e3" "\<forall>m \<in> set (queue e3). msg_ok x m" "mSupportsAgpsRequests e3" for x
    using 2 by (auto simp: e3_def agps_machines_def sendMsg_def)
  have "eng_wf e4" using 3 by (simp add: e4_def eng_wf_def agps_machines_def)
  then have "eng_wf (loc_eng_agps_reinit r e4)" by (rule keeps_wf [OF agps_reinit_keeps])
  then show ?thesis unfolding in_service_initialised e0_def [symmetric] eq using caps by (simp only: if_True)
qed



text \<open>
  On a modem without MSA and MSB, as this device's \<open>gps.conf\<close> describes it, the AGPS module has no
  machine for SUPL.  The answer of the client that a data connection is open (or that it is closed
  or could not be opened) becomes a message with a \<open>NULL\<close> machine, and the message thread faults
  on it.
\<close>
theorem agps_answer_faults:
  assumes "fresh e" "ev \<noteq> 0" "\<not> supports_agnss e"
    "x \<in> {Op_agps_open AGPS_TYPE_SUPL (Some apn) b, Op_agps_closed AGPS_TYPE_SUPL, Op_agps_failed AGPS_TYPE_SUPL}"
  shows "\<exists>e'. eng_run (in_service r cpi cb ev e) [x, Op_handle a] e' \<and>
    \<not> (\<exists>e''. eng_run e' [Op_handle a'] e'')"
proof -
  define e0 where "e0 = initialised cpi cb ev e"
  define S where "S = in_service r cpi cb ev e"
  note f = initialised_facts [OF assms(1,2), of cpi cb, folded e0_def]
  have S: "adapter S" "agps_status_cb S" "queue S = [LocEngInit]" "agnss_nif S = None"
    using f assms(3)
    by (simp_all add: S_def in_service_initialised e0_def [symmetric] loc_eng_agps_init_def Let_def
        supports_agnss_iff)
  have g: "getAgpsStateMachine AGPS_TYPE_SUPL S = None"
    using S(4) by (simp add: getAgpsStateMachine_def)
  obtain m where m: "eng_apply x S = Some (sendMsg m S)" "\<And>e. proc a' m e = None"
    using assms(4) S(1,2) g
    by (auto simp: loc_eng_agps_open_def loc_eng_agps_closed_def loc_eng_agps_open_failed_def on_nif_def)
  have "handle a (sendMsg m S) = Some (proc_Init (S\<lparr>queue := [m]\<rparr>))"
    using S(3) by (simp add: handle_def sendMsg_def)
  moreover have "\<exists>ms. queue (proc_Init (S\<lparr>queue := [m]\<rparr>)) = m # ms"
    by (simp add: loc_eng_reinit_def)
  then have "handle a' (proc_Init (S\<lparr>queue := [m]\<rparr>)) = None"
    using m(2) by (auto simp: handle_def simp del: proc_Init_def)
  ultimately show ?thesis using m(1) unfolding S_def [symmetric] by (simp del: proc_Init_def)
qed

definition this_device :: loc_eng where
  "this_device = loc_afw_data\<lparr>gps_conf := (gps_conf loc_afw_data)\<lparr>CAPABILITIES := 0x31\<rparr>\<rparr>"

theorem agps_answer_faults_witness:
  "\<exists>e'. eng_run (in_service (\<lambda>h. None) False all_callbacks 4 this_device)
     [Op_agps_open 1 (Some ''internet'') 0, Op_handle good_answers] e' \<and>
     \<not> (\<exists>e''. eng_run e' [Op_handle good_answers] e'')"
  by (rule agps_answer_faults [where apn = "''internet''" and b = 0])
    (simp_all add: fresh_def this_device_def loc_afw_data_def supports_agnss_def
      GPS_CAPABILITY_MSA_def GPS_CAPABILITY_MSB_def)

end
