(* ===== verification/Loc_Eng_Config.thy ===== *)
theory Loc_Eng_Config
  imports Loc_Eng_Safe
begin

text \<open>
  The settings of the location engine: the certificates it accepts, what a configuration update
  reaches, what becomes of the servers and of a request to delete aiding data, and how a proxy is
  exchanged.
\<close>

section \<open>Certificates\<close>

text \<open>Subtracting one from a word clears its lowest bit and sets the bits below.\<close>

lemma minus_one_bits:
  fixes x :: "'a::len word"
  assumes "bit x k" "\<forall>i < k. \<not> bit x i"
  shows "x - 1 = unset_bit k x OR mask k"
proof -
  have k: "k < LENGTH('a)" using assms(1) by (rule bit_imp_le_length)
  have "unset_bit k x + mask k = unset_bit k x OR mask k"
    by (rule disjunctive_add_eq_or) (use assms(2) in \<open>auto simp: bit_eq_iff bit_simps\<close>)
  moreover have "unset_bit k x + 2 ^ k = unset_bit k x OR 2 ^ k"
    by (rule disjunctive_add_eq_or) (auto simp: bit_eq_iff bit_simps)
  moreover have "unset_bit k x OR 2 ^ k = x"
  proof (rule bit_word_eqI)
    fix i show "bit (unset_bit k x OR 2 ^ k) i = bit x i" if "i < LENGTH('a)"
      using assms(1) k that by (cases "i = k") (simp_all add: bit_simps)
  qed
  ultimately show ?thesis by (simp add: mask_eq_exp_minus_1 algebra_simps)
qed

lemma clear_lowest:
  fixes x :: "'a::len word"
  assumes "bit x k" "\<forall>i < k. \<not> bit x i"
  shows "x AND (x - 1) = unset_bit k x"
  unfolding minus_one_bits [OF assms] using assms(2) by (auto simp: bit_eq_iff bit_simps)

definition slots :: "uint32 \<Rightarrow> nat set" where
  "slots x = {i. i < 32 \<and> bit x i}"

lemma finite_slots [simp]: "finite (slots x)" "card (slots x) \<le> 32"
proof -
  have "slots x \<subseteq> {..<32}" by (auto simp: slots_def)
  then show "finite (slots x)" "card (slots x) \<le> 32"
    using finite_subset card_mono [of "{..<32}"] by fastforce+
qed

lemma count_slots_card: "count_slots x n = n + of_nat (card (slots x))"
proof (induction x n rule: count_slots.induct)
  case (1 x n)
  show ?case
  proof (cases "x = 0")
    case True
    then show ?thesis by (simp add: count_slots.simps [of 0 n] slots_def)
  next
    case False
    then have ex: "\<exists>i. bit x i" by (auto simp: bit_eq_iff)
    define k where "k = (LEAST i. bit x i)"
    have k: "bit x k" "\<forall>i < k. \<not> bit x i"
      using LeastI_ex [OF ex] not_less_Least unfolding k_def by blast+
    have lt: "k < 32" using bit_imp_le_length [OF k(1)] by simp
    have "slots (x AND (x - 1)) = slots x - {k}"
      unfolding clear_lowest [OF k] by (auto simp: slots_def bit_simps)
    moreover have "k \<in> slots x" using k(1) lt by (simp add: slots_def)
    ultimately have "card (slots x) = Suc (card (slots (x AND (x - 1))))"
      using card_Suc_Diff1 [of "slots x" k] by simp
    then show ?thesis using 1 False by (simp add: count_slots.simps [of x n])
  qed
qed


section \<open>Configuration updates\<close>

text \<open>The messages of an update are handled one after the other, whatever the modem answers.\<close>

definition is_carrier_caps :: "uint32 \<Rightarrow> ulp_call list \<Rightarrow> bool" where
  "is_carrier_caps c us \<longleftrightarrow> (\<exists>n. us = replicate n (U_capabilities c))"

lemma drain_config:
  assumes "queue e = ms" "\<forall>m \<in> set ms. (\<exists>v. m = LocEngSuplVer v \<or> m = LocEngLppConfig v \<or>
      m = LocEngAGlonassProtocol v) \<or> m = LocEngSuplMode (ulp_ptr e)" "length as = length ms"
    "ext_takes (mUlp e) = Some t"
  shows "\<exists>e'. drain as e = Some e' \<and> queue e' = [] \<and> gps_conf e' = gps_conf e \<and>
    (\<exists>us. ulp_calls (mUlp e') = ulp_calls (mUlp e) @ us \<and>
       is_carrier_caps (getCarrierCapabilities (gps_conf e)) us \<and>
       (us \<noteq> [] \<longleftrightarrow> LocEngSuplMode (ulp_ptr e) \<in> set ms))"
  using assms
proof (induction as arbitrary: e ms)
  case Nil
  then show ?case by (auto simp: is_carrier_caps_def)
next
  case (Cons a as)
  from Cons.prems(1,3) obtain m ns where ms: "ms = m # ns" "length as = length ns"
    by (cases ms) auto
  let ?e = "e\<lparr>queue := ns\<rparr>"
  show ?case
  proof (cases "m = LocEngSuplMode (ulp_ptr e)")
    case True
    let ?e1 = "?e\<lparr>mUlp := ulp_setCapabilities (getCarrierCapabilities (gps_conf e)) (mUlp e)\<rparr>"
    have h: "handle a e = Some ?e1"
      using True Cons.prems(1) ms(1) by (simp add: handle_def)
    have ulp: "ext_takes (mUlp ?e1) = Some t"
      "ulp_calls (mUlp ?e1) = ulp_calls (mUlp e) @ [U_capabilities (getCarrierCapabilities (gps_conf e))]"
      using Cons.prems(4) by (simp_all add: ulp_setCapabilities_def log_ulp_def)
    obtain e' us where e': "drain as ?e1 = Some e'" "queue e' = []" "gps_conf e' = gps_conf e"
      "ulp_calls (mUlp e') = ulp_calls (mUlp ?e1) @ us"
      "is_carrier_caps (getCarrierCapabilities (gps_conf e)) us"
      using Cons.IH [of ?e1 ns] Cons.prems(2) ms ulp(1) by auto
    have "is_carrier_caps (getCarrierCapabilities (gps_conf e))
        (U_capabilities (getCarrierCapabilities (gps_conf e)) # us)"
      using e'(5) unfolding is_carrier_caps_def by (metis replicate_Suc)
    with e' ulp(2) h True ms(1) show ?thesis by auto
  next
    case False
    then obtain c where c: "proc a m ?e = Some (call_modem c ?e)"
      using Cons.prems(2) ms(1) by auto
    then have h: "handle a e = Some (call_modem c ?e)"
      using Cons.prems(1) ms(1) by (simp add: handle_def)
    have "mUlp (call_modem c ?e) = mUlp e" "ulp_ptr (call_modem c ?e) = ulp_ptr e"
      "queue (call_modem c ?e) = ns" "gps_conf (call_modem c ?e) = gps_conf e"
      by (simp_all add: call_modem_def)
    with Cons.IH [of "call_modem c ?e" ns] Cons.prems(2,4) ms obtain e' us where
      "drain as (call_modem c ?e) = Some e'" "queue e' = []" "gps_conf e' = gps_conf e"
      "ulp_calls (mUlp e') = ulp_calls (mUlp e) @ us"
      "is_carrier_caps (getCarrierCapabilities (gps_conf e)) us"
      "us \<noteq> [] \<longleftrightarrow> LocEngSuplMode (ulp_ptr e) \<in> set ns" by auto
    with h False ms(1) show ?thesis by auto
  qed
qed

text \<open>
  A new \<open>SUPL_MODE\<close> does not reach the position engine.  An update that changes it sends the
  message \<open>LocEngSuplMode\<close>, but puts the old value back before it returns; when the message is
  handled then, the capabilities that go to the proxy are those of the old configuration.
\<close>
theorem config_update_supl_mode_lost:
  assumes "adapter e" "queue e = []" "ext_takes (mUlp e) = Some t" "d \<noteq> []"
    "SUPL_MODE (snd (loc_update_conf (\<lambda>s. ()) () gps_conf_table (Some d) (gps_conf e))) \<noteq> SUPL_MODE (gps_conf e)"
    "length as = length (queue (loc_eng_configuration_update d e))"
  shows "\<exists>e' us. drain as (loc_eng_configuration_update d e) = Some e' \<and> queue e' = [] \<and>
    SUPL_MODE (gps_conf e') = SUPL_MODE (gps_conf e) \<and>
    ulp_calls (mUlp e') = ulp_calls (mUlp e) @ us \<and> us \<noteq> [] \<and>
    set us = {U_capabilities (getCarrierCapabilities (gps_conf e))}"
proof -
  define new where "new = snd (loc_update_conf (\<lambda>s. ()) () gps_conf_table (Some d) (gps_conf e))"
  define ms where "ms = config_msgs (gps_conf e) new (ulp_ptr e)"
  let ?e1 = "loc_eng_configuration_update d e"
  have u: "mUlp (send_all xs x) = mUlp x" "ulp_ptr (send_all xs x) = ulp_ptr x" for xs x
    unfolding send_all_def by (induction xs arbitrary: x) (simp_all add: sendMsg_def)
  have e1: "queue ?e1 = ms" "mUlp ?e1 = mUlp e" "ulp_ptr ?e1 = ulp_ptr e"
    "SUPL_MODE (gps_conf ?e1) = SUPL_MODE (gps_conf e)" "CAPABILITIES (gps_conf ?e1) = CAPABILITIES (gps_conf e)"
    using assms(1,2,4)
    by (simp_all add: loc_eng_configuration_update_def Let_def new_def [symmetric] ms_def u)
  have caps: "getCarrierCapabilities (gps_conf ?e1) = getCarrierCapabilities (gps_conf e)"
    using e1(4,5) by (simp add: getCarrierCapabilities_def)
  have "LocEngSuplMode (ulp_ptr e) \<in> set ms"
    using assms(5) by (auto simp: ms_def config_msgs_def new_def)
  moreover have "\<forall>m \<in> set ms. (\<exists>v. m = LocEngSuplVer v \<or> m = LocEngLppConfig v \<or>
      m = LocEngAGlonassProtocol v) \<or> m = LocEngSuplMode (ulp_ptr ?e1)"
    unfolding e1(3) by (auto simp: ms_def config_msgs_def)
  ultimately obtain e' us where e': "drain as ?e1 = Some e'" "queue e' = []" "gps_conf e' = gps_conf ?e1"
    "ulp_calls (mUlp e') = ulp_calls (mUlp e) @ us"
    "is_carrier_caps (getCarrierCapabilities (gps_conf e)) us" "us \<noteq> []"
    using drain_config [OF e1(1), of as t] assms(3,6) e1 caps by auto
  moreover have "set us = {U_capabilities (getCarrierCapabilities (gps_conf e))}"
    using e'(5,6) unfolding is_carrier_caps_def by auto
  ultimately show ?thesis using e1(4) by auto
qed

definition proxied :: loc_eng where
  "proxied = loc_afw_data\<lparr>adapter := True, mUlp := new_UlpProxyBase\<lparr>ext_takes := Some False\<rparr>\<rparr>"

theorem config_update_supl_mode_lost_witness:
  "\<exists>e' us. drain [good_answers] (loc_eng_configuration_update ''SUPL_MODE=1'' proxied) = Some e' \<and>
    queue e' = [] \<and> SUPL_MODE (gps_conf e') = SUPL_MODE (gps_conf proxied) \<and>
    ulp_calls (mUlp e') = ulp_calls (mUlp proxied) @ us \<and> us \<noteq> [] \<and>
    set us = {U_capabilities (getCarrierCapabilities (gps_conf proxied))}"
proof (rule config_update_supl_mode_lost)
  show "adapter proxied" "queue proxied = []" "ext_takes (mUlp proxied) = Some False"
    by (simp_all add: proxied_def loc_afw_data_def)
  show "SUPL_MODE (snd (loc_update_conf (\<lambda>s. ()) () gps_conf_table (Some ''SUPL_MODE=1'') (gps_conf proxied)))
    \<noteq> SUPL_MODE (gps_conf proxied)" by code_simp
  show "length [good_answers] = length (queue (loc_eng_configuration_update ''SUPL_MODE=1'' proxied))"
    by code_simp
qed simp

section \<open>Servers\<close>

text \<open>
  A server that is set before the engine exists is forgotten.  \<open>loc_eng_set_server_proxy\<close> keeps
  it for later, but \<open>loc_eng_init\<close> clears the memory it is kept in: when the AGPS module starts, no
  server is sent to the modem.
\<close>
theorem servers_before_init_lost:
  assumes "fresh e" "ev \<noteq> 0" "e1 = snd (loc_eng_set_server_proxy r LOC_AGPS_SUPL_SERVER host port e)"
  shows "supl_host e1 = Some (strlcpy 101 host, port) \<and>
    supl_host (in_service r cpi cb ev e1) = None \<and>
    (\<forall>m \<in> set (queue (in_service r cpi cb ev e1)). \<nexists>u. m = LocEngSetServerUrl u)"
proof -
  have e1: "e1 = e\<lparr>supl_host := Some (strlcpy 101 host, port)\<rparr>"
    using assms(1,3) by (simp add: loc_eng_set_server_proxy_def fresh_def)
  then have fr: "fresh e1" using assms(1) by (simp add: fresh_def)
  define e0 where "e0 = initialised cpi cb ev e1"
  have "supl_host e0 = None" "c2k_host e0 = None" "queue e0 = [LocEngInit]"
    using fr assms(2)
    by (simp_all add: e0_def initialised_def started_def loc_eng_init_def cleared_eng_def
        set_features_def sendMsg_def fresh_def)
  then have "supl_host (loc_eng_agps_init r True e0) = None \<and>
    (\<forall>m \<in> set (queue (loc_eng_agps_init r True e0)). \<nexists>u. m = LocEngSetServerUrl u)"
    by (simp add: loc_eng_agps_init_def Let_def loc_eng_agps_reinit_def sendMsg_def)
  with e1 show ?thesis unfolding in_service_initialised e0_def by simp
qed

theorem servers_before_init_lost_witness:
  "supl_host (in_service (\<lambda>h. None) False all_callbacks 4
     (snd (loc_eng_set_server_proxy (\<lambda>h. None) LOC_AGPS_SUPL_SERVER ''supl.google.com'' 7276 loc_afw_data))) = None"
  using servers_before_init_lost [of loc_afw_data 4 _ "\<lambda>h. None" "''supl.google.com''" 7276 False all_callbacks]
  by (simp add: fresh_def loc_afw_data_def)

section \<open>The exchange of the proxy\<close>

text \<open>A new proxy takes the session over: it is told the mode and the start the old one was told.\<close>

lemma setUlpProxy_hands_over:
  assumes "ext_takes u = Some t"
  shows "ulp_calls (mUlp (setUlpProxy (Some u) e)) = ulp_calls u
     @ (if pmode (mPosMode (mUlp e)) \<noteq> LOC_POSITION_MODE_INVALID then [U_fixMode (mPosMode (mUlp e))] else [])
     @ (if mFixSet (mUlp e) then [U_startFix] else [])"
  using assms by (simp add: setUlpProxy_def sendFixMode_def sendStartFix_def log_ulp_def Let_def)

section \<open>Deleting aiding data\<close>

definition deletions :: "modem_call list \<Rightarrow> uint32 list" where
  "deletions cs = concat (map (\<lambda>c. case c of M_deleteAidingData f \<Rightarrow> [f] | _ \<Rightarrow> []) cs)"

lemma deletions_append [simp]: "deletions (xs @ ys) = deletions xs @ deletions ys"
  by (simp add: deletions_def)

text \<open>
  Aiding data is deleted only when the engine is off, and only as the last request says.  A
  request that comes while the engine is on waits for the engine to go off; a second one
  overwrites the first, whose data is never deleted.
\<close>
theorem aiding_request_overwritten:
  assumes "engine_status e = GPS_STATUS_ENGINE_ON" "f \<noteq> 0" "g \<noteq> 0"
    "queue e = [LocEngDelAidData f, LocEngDelAidData g, LocEngReportStatus GPS_STATUS_ENGINE_OFF]"
  shows "\<exists>e1 e'. drain [a, b] e = Some e1 \<and> deletions (modem e1) = deletions (modem e) \<and>
    drain [c] e1 = Some e' \<and> deletions (modem e') = deletions (modem e) @ [g] \<and>
    aiding_data_for_deletion e' = 0"
proof -
  let ?q = "[LocEngReportStatus GPS_STATUS_ENGINE_OFF]"
  let ?e1 = "e\<lparr>queue := ?q, aiding_data_for_deletion := g\<rparr>"
  have d: "drain [a, b] e = Some ?e1"
    using assms(1,4) by (simp add: handle_def update_aiding_data_for_deletion_def)
  let ?s = "loc_eng_report_status GPS_STATUS_ENGINE_OFF (?e1\<lparr>queue := []\<rparr>)"
  have s: "engine_status ?s = GPS_STATUS_ENGINE_OFF" "aiding_data_for_deletion ?s = g" "modem ?s = modem e"
    by (simp_all add: loc_eng_report_status_def Let_def set_mute_def loc_inform_gps_status_def
        call_client_def)
  have "drain [c] ?e1 = Some (update_aiding_data_for_deletion ?s)" by (simp add: handle_def)
  moreover have "modem (update_aiding_data_for_deletion ?s) = modem e @ [M_deleteAidingData g]"
    "aiding_data_for_deletion (update_aiding_data_for_deletion ?s) = 0"
    using s assms(3) by (simp_all add: update_aiding_data_for_deletion_def)
  ultimately show ?thesis using d by (auto simp: deletions_def)
qed

theorem aiding_request_overwritten_witness:
  "\<exists>e1 e'. drain [good_answers, good_answers] (loc_afw_data\<lparr>engine_status := GPS_STATUS_ENGINE_ON,
      queue := [LocEngDelAidData 1, LocEngDelAidData 2, LocEngReportStatus GPS_STATUS_ENGINE_OFF]\<rparr>) = Some e1
    \<and> drain [good_answers] e1 = Some e' \<and> deletions (modem e') = [2]"
  using aiding_request_overwritten [of "loc_afw_data\<lparr>engine_status := GPS_STATUS_ENGINE_ON,
      queue := [LocEngDelAidData 1, LocEngDelAidData 2, LocEngReportStatus GPS_STATUS_ENGINE_OFF]\<rparr>"
      1 2 good_answers good_answers good_answers]
  by (auto simp: loc_afw_data_def deletions_def)

end
