(* ===== verification/Loc_Dmn_Server.thy ===== *)
theory Loc_Dmn_Server
  imports Loc_Eng
begin

text \<open>
  The server of the daemon connection: the layout of its messages, what its thread does with one
  (\<open>loc_eng_dmn_conn.cpp\<close>), the answers to the daemons, and the thread helper that runs it
  (\<open>loc_eng_dmn_conn_thread_helper.c\<close>) as a machine whose steps are the child's, the launcher's and
  those of the thread that unblocks it.
\<close>

section \<open>The layout of a message\<close>

text \<open>
  \<open>struct ctrl_msgbuf\<close> on 32-bit ARM: \<open>msgsz\<close> at 0, \<open>ctrl_type\<close> at 12, the union at 16; in all
  112 bytes.  A request has its type, its sender and the IPv4 address at 16, 20 and 24, the IPv6 address at 28, and
  the two strings at 44 and 77.
\<close>

definition SIZEOF_CTRL_MSGBUF :: nat where [c_sizes]: "SIZEOF_CTRL_MSGBUF = 112"

definition GPSONE_LOC_API_IF_REQUEST :: uint8 where "GPSONE_LOC_API_IF_REQUEST = 0xF0"
definition GPSONE_LOC_API_IF_RELEASE :: uint8 where "GPSONE_LOC_API_IF_RELEASE = 0xF1"
definition GPSONE_LOC_API_RESPONSE :: uint8 where "GPSONE_LOC_API_RESPONSE = 0xF2"
definition GPSONE_UNBLOCK :: uint8 where "GPSONE_UNBLOCK = 0xF3"

definition slice_at :: "nat \<Rightarrow> nat \<Rightarrow> uint8 list \<Rightarrow> uint8 list" where
  "slice_at off n buf = take n (drop off buf)"

text \<open>A C string in a buffer: what is in front of the first zero byte.\<close>

definition string_at :: "nat \<Rightarrow> uint8 list \<Rightarrow> string" where
  "string_at off buf = map (\<lambda>b. char_of (unat b)) (takeWhile (\<lambda>b. b \<noteq> 0) (drop off buf))"

definition ctrl_type :: "uint8 list \<Rightarrow> uint8" where
  "ctrl_type buf = buf ! 12"

definition cmsg_if_request :: "uint8 list \<Rightarrow> if_request" where
  "cmsg_if_request buf =
     \<lparr>if_type = sint (of_le32 (slice_at 16 4 buf)), sender_id = sint (of_le32 (slice_at 20 4 buf)),
      ipv4_addr = of_le32 (slice_at 24 4 buf), ipv6_addr = slice_at 28 16 buf,
      req_ssid = string_at 44 buf, req_password = string_at 77 buf\<rparr>"

section \<open>The server\<close>

text \<open>
  One call of \<open>loc_api_server_proc\<close>: \<open>malloced\<close> is what \<open>malloc\<close> returns, with the bytes that happen to be in
  the block; a received message covers the front of it.  The result \<open>None\<close> is a fault: a read beyond the block,
  or a call through \<open>NULL\<close> in a handler.
\<close>

definition loc_api_server_proc ::
  "uint8 list option \<Rightarrow> uint8 list \<times> loc_eng \<Rightarrow> (int \<times> uint8 list \<times> loc_eng) option" where
  "loc_api_server_proc malloced = (\<lambda>(pipe, e).
     (case malloced of
        None \<Rightarrow> Some (-1, pipe, e)
      | Some block \<Rightarrow>
          (case loc_eng_dmn_conn_glue_msgrcv (of_nat (SIZEOF_CTRL_MSGBUF + 256)) pipe of
             Rcv_overrun \<Rightarrow> None
           | Rcv_error rest \<Rightarrow> Some (-1, rest, e)
           | Rcv_msg msg rest \<Rightarrow>
               if sint (of_le32 (take 4 msg)) \<le> 0 then Some (-1, rest, e)
               else
                 (let buf = msg @ drop (length msg) block in
                  if ctrl_type buf = GPSONE_LOC_API_IF_REQUEST
                  then map_option (\<lambda>(r, e'). (0, rest, e'))
                         (loc_eng_dmn_conn_loc_api_server_if_request_handler (cmsg_if_request buf) e)
                  else if ctrl_type buf = GPSONE_LOC_API_IF_RELEASE
                  then map_option (\<lambda>(r, e'). (0, rest, e'))
                         (loc_eng_dmn_conn_loc_api_server_if_release_handler (cmsg_if_request buf) e)
                  else Some (0, rest, e)))))"

text \<open>\<open>loc_eng_dmn_conn_glue_msgflush\<close>: the results of the reads; a failing read does not end the loop.\<close>

partial_function (option) loc_eng_dmn_conn_glue_msgflush :: "int list \<Rightarrow> (int \<times> int list) option" where
  "loc_eng_dmn_conn_glue_msgflush reads =
     (case reads of
        [] \<Rightarrow> None
      | len # rest \<Rightarrow> if len \<noteq> 0 then loc_eng_dmn_conn_glue_msgflush rest else Some (len, rest))"

text \<open>The queues of the daemons, and the answer to a request.  \<open>stack\<close> is what is in the uninitialised message.\<close>

record daemon_queues =
  quipc_q :: "uint8 list"
  msapm_q :: "uint8 list"
  msapu_q :: "uint8 list"
  resp_q :: "uint8 list"

definition response_msg :: "uint8 list \<Rightarrow> int \<Rightarrow> uint8 list" where
  "response_msg stack status =
     take 12 stack @ [GPSONE_LOC_API_RESPONSE] @ slice_at 13 3 stack @ le32 (word_of_int status) @
     slice_at 20 92 stack"

definition snd_response ::
  "nat \<Rightarrow> uint8 list \<Rightarrow> uint8 list \<Rightarrow> int \<times> uint8 list" where
  "snd_response n msg q =
     (let (r, q') = loc_eng_dmn_conn_glue_msgsnd n msg (of_nat SIZEOF_CTRL_MSGBUF) q
      in (if r < 0 then -1 else 0, q'))"

definition loc_eng_dmn_conn_loc_api_server_data_conn ::
  "nat \<Rightarrow> uint8 list \<Rightarrow> int \<Rightarrow> int \<Rightarrow> daemon_queues \<Rightarrow> int \<times> daemon_queues" where
  "loc_eng_dmn_conn_loc_api_server_data_conn n stack sender status q =
     (let msg = response_msg stack status in
      if sender = 0 then (let (r, x) = snd_response n msg (quipc_q q) in (r, q\<lparr>quipc_q := x\<rparr>))
      else if sender = 1 then (let (r, x) = snd_response n msg (msapm_q q) in (r, q\<lparr>msapm_q := x\<rparr>))
      else if sender = 2 then (let (r, x) = snd_response n msg (msapu_q q) in (r, q\<lparr>msapu_q := x\<rparr>))
      else if sender = 3 then (let (r, x) = snd_response n msg (resp_q q) in (r, q\<lparr>resp_q := x\<rparr>))
      else (0, q))"

section \<open>The thread helper\<close>

datatype callback = Proc_init | Proc_pre | Thread_proc | Proc_post

datatype child_phase =
    Child_none | Child_init | Child_signal_exit | Child_signal | Child_pre | Child_loop | Child_check
  | Child_post | Child_ended

datatype launcher_phase = L_idle | L_wait | L_sleep | L_woken | L_returned int

record thelper =
  thread_exit :: bool
  thread_ready :: bool
  child :: child_phase
  launcher :: launcher_phase
  calls :: "(callback \<times> int) list"

definition no_thelper :: thelper where
  "no_thelper = \<lparr>thread_exit = False, thread_ready = False, child = Child_none, launcher = L_idle, calls = []\<rparr>"

definition thelper_signal_init :: "thelper \<Rightarrow> thelper" where
  "thelper_signal_init h = h\<lparr>thread_exit := False, thread_ready := False\<rparr>"

definition thelper_signal_ready :: "thelper \<Rightarrow> thelper" where
  "thelper_signal_ready h =
     h\<lparr>thread_ready := True, launcher := (if launcher h = L_sleep then L_woken else launcher h)\<rparr>"

text \<open>\<open>thelper_signal_wait\<close> up to the wait on the condition.\<close>

definition thelper_signal_wait :: "thelper \<Rightarrow> thelper" where
  "thelper_signal_wait h =
     h\<lparr>launcher := (if \<not> thread_ready h \<and> \<not> thread_exit h then L_sleep else L_woken)\<rparr>"

definition thelper_signal_block :: "thelper \<Rightarrow> bool \<times> thelper" where
  "thelper_signal_block h = (thread_ready h, h\<lparr>thread_ready := False\<rparr>)"

text \<open>
  A step of \<open>thelper_main\<close>; \<open>r\<close> is the result of the callback, for the steps that call one.
\<close>

definition call_back :: "callback \<Rightarrow> int \<Rightarrow> thelper \<Rightarrow> thelper" where
  "call_back c r h = h\<lparr>calls := calls h @ [(c, r)]\<rparr>"

fun thelper_main :: "int \<Rightarrow> child_phase \<Rightarrow> thelper \<Rightarrow> thelper" where
  "thelper_main r Child_init h =
     (let h1 = call_back Proc_init r h
      in if r < 0 then h1\<lparr>thread_exit := True, child := Child_signal_exit\<rparr>
         else h1\<lparr>child := Child_signal\<rparr>)"
| "thelper_main r Child_signal_exit h = (thelper_signal_ready h)\<lparr>child := Child_ended\<rparr>"
| "thelper_main r Child_signal h = (thelper_signal_ready h)\<lparr>child := Child_pre\<rparr>"
| "thelper_main r Child_pre h =
     (let h1 = call_back Proc_pre r h
      in if r < 0 then h1\<lparr>thread_exit := True, child := Child_ended\<rparr> else h1\<lparr>child := Child_loop\<rparr>)"
| "thelper_main r Child_loop h =
     (let h1 = call_back Thread_proc r h
      in (if r < 0 then h1\<lparr>thread_exit := True\<rparr> else h1)\<lparr>child := Child_check\<rparr>)"
| "thelper_main r Child_check h = h\<lparr>child := (if thread_exit h then Child_post else Child_loop)\<rparr>"
| "thelper_main r Child_post h = (call_back Proc_post r h)\<lparr>child := Child_ended\<rparr>"
| "thelper_main r Child_none h = h"
| "thelper_main r Child_ended h = h"

text \<open>
  The steps: the launch up to the creation of the thread, which may fail; the wait; the end of the wait by a
  signal, or without one, as POSIX allows; the return; a step of the child; and the unblocking.
\<close>

datatype th_event = Ev_launch bool | Ev_wait | Ev_spurious | Ev_return | Ev_child int | Ev_unblock

definition loc_eng_dmn_conn_launch_thelper :: "bool \<Rightarrow> thelper \<Rightarrow> thelper" where
  "loc_eng_dmn_conn_launch_thelper created h =
     (if launcher h = L_idle
      then (let h1 = thelper_signal_init h
            in if created then h1\<lparr>child := Child_init, launcher := L_wait\<rparr>
               else h1\<lparr>launcher := L_returned (-1)\<rparr>)
      else h)"

definition loc_eng_dmn_conn_unblock_thelper :: "thelper \<Rightarrow> thelper" where
  "loc_eng_dmn_conn_unblock_thelper h = h\<lparr>thread_exit := True\<rparr>"

fun th_step :: "th_event \<Rightarrow> thelper \<Rightarrow> thelper" where
  "th_step (Ev_launch created) h = loc_eng_dmn_conn_launch_thelper created h"
| "th_step Ev_wait h = (if launcher h = L_wait then thelper_signal_wait h else h)"
| "th_step Ev_spurious h = (if launcher h = L_sleep then h\<lparr>launcher := L_woken\<rparr> else h)"
| "th_step Ev_return h =
     (if launcher h = L_woken then h\<lparr>launcher := L_returned (if thread_exit h then 1 else 0)\<rparr> else h)"
| "th_step (Ev_child r) h = thelper_main r (child h) h"
| "th_step Ev_unblock h = loc_eng_dmn_conn_unblock_thelper h"

text \<open>
  The end of the server: the thread is told to end, and a message is put into its pipe so that a receive it
  waits in returns.
\<close>

definition loc_eng_dmn_conn_unblock_proc :: "nat \<Rightarrow> uint8 list \<Rightarrow> uint8 list \<Rightarrow> int \<times> uint8 list" where
  "loc_eng_dmn_conn_unblock_proc n stack pipe =
     (0, snd (loc_eng_dmn_conn_glue_msgsnd n (take 12 stack @ [GPSONE_UNBLOCK] @ slice_at 13 99 stack)
                (of_nat SIZEOF_CTRL_MSGBUF) pipe))"

definition loc_eng_dmn_conn_loc_api_server_unblock ::
  "nat \<Rightarrow> uint8 list \<Rightarrow> thelper \<times> uint8 list \<Rightarrow> int \<times> thelper \<times> uint8 list" where
  "loc_eng_dmn_conn_loc_api_server_unblock n stack = (\<lambda>(h, pipe).
     (0, loc_eng_dmn_conn_unblock_thelper h, snd (loc_eng_dmn_conn_unblock_proc n stack pipe)))"

lemmas th_defs = loc_eng_dmn_conn_launch_thelper_def thelper_signal_init_def thelper_signal_wait_def
  thelper_signal_ready_def call_back_def loc_eng_dmn_conn_unblock_thelper_def Let_def

section \<open>The calls of the thread\<close>

text \<open>The calls of a loop that has run: all but the last were successful.\<close>

definition looped :: "(callback \<times> int) list \<Rightarrow> bool" where
  "looped ps \<longleftrightarrow> list_all (\<lambda>c. fst c = Thread_proc) ps \<and> list_all (\<lambda>c. snd c \<ge> 0) (butlast ps)"

fun calls_ok :: "child_phase \<Rightarrow> bool \<Rightarrow> (callback \<times> int) list \<Rightarrow> bool" where
  "calls_ok Child_none x cs \<longleftrightarrow> cs = []"
| "calls_ok Child_init x cs \<longleftrightarrow> cs = []"
| "calls_ok Child_signal_exit x cs \<longleftrightarrow> x \<and> (\<exists>r < 0. cs = [(Proc_init, r)])"
| "calls_ok Child_signal x cs \<longleftrightarrow> (\<exists>a \<ge> 0. cs = [(Proc_init, a)])"
| "calls_ok Child_pre x cs \<longleftrightarrow> (\<exists>a \<ge> 0. cs = [(Proc_init, a)])"
| "calls_ok Child_loop x cs \<longleftrightarrow>
     (\<exists>a \<ge> 0. \<exists>b \<ge> 0. \<exists>ps. looped ps \<and> list_all (\<lambda>c. snd c \<ge> 0) ps \<and> cs = (Proc_init, a) # (Proc_pre, b) # ps)"
| "calls_ok Child_check x cs \<longleftrightarrow>
     (\<exists>a \<ge> 0. \<exists>b \<ge> 0. \<exists>ps. looped ps \<and> ps \<noteq> [] \<and> (x \<or> list_all (\<lambda>c. snd c \<ge> 0) ps) \<and>
        cs = (Proc_init, a) # (Proc_pre, b) # ps)"
| "calls_ok Child_post x cs \<longleftrightarrow>
     x \<and> (\<exists>a \<ge> 0. \<exists>b \<ge> 0. \<exists>ps. looped ps \<and> ps \<noteq> [] \<and> cs = (Proc_init, a) # (Proc_pre, b) # ps)"
| "calls_ok Child_ended x cs \<longleftrightarrow>
     x \<and> ((\<exists>r < 0. cs = [(Proc_init, r)]) \<or> (\<exists>a \<ge> 0. \<exists>b < 0. cs = [(Proc_init, a), (Proc_pre, b)]) \<or>
      (\<exists>a \<ge> 0. \<exists>b \<ge> 0. \<exists>ps c. looped ps \<and> ps \<noteq> [] \<and>
         cs = (Proc_init, a) # (Proc_pre, b) # ps @ [(Proc_post, c)]))"

text \<open>The invariant: the calls fit the phase, and there is no child before the launch.\<close>

definition th_inv :: "thelper \<Rightarrow> bool" where
  "th_inv h \<longleftrightarrow> calls_ok (child h) (thread_exit h) (calls h) \<and> (launcher h = L_idle \<longrightarrow> child h = Child_none)"

lemma looped_snoc:
  "looped (ps @ [(c, r)]) \<longleftrightarrow> list_all (\<lambda>c. fst c = Thread_proc) ps \<and> c = Thread_proc \<and>
     list_all (\<lambda>c. snd c \<ge> 0) ps"
  by (auto simp: looped_def)

lemma looped_all: "looped ps \<Longrightarrow> list_all (\<lambda>c. fst c = Thread_proc) ps"
  by (simp add: looped_def)

lemma calls_ok_exit: "calls_ok ph x cs \<Longrightarrow> calls_ok ph True cs"
  by (cases ph) auto

lemma th_inv_child:
  assumes "th_inv h"
  shows "th_inv (thelper_main r (child h) h)"
proof (cases "child h")
  case Child_loop
  then obtain a b ps where ps: "a \<ge> 0" "b \<ge> 0" "looped ps" "list_all (\<lambda>c. snd c \<ge> 0) ps"
    "calls h = (Proc_init, a) # (Proc_pre, b) # ps" and l: "launcher h \<noteq> L_idle"
    using assms by (auto simp: th_inv_def)
  have "looped (ps @ [(Thread_proc, r)])" using looped_all [OF ps(3)] ps(4) by (simp add: looped_snoc)
  moreover have "list_all (\<lambda>c. snd c \<ge> 0) (ps @ [(Thread_proc, r)])" if "r \<ge> 0" using ps(4) that by simp
  ultimately show ?thesis using Child_loop ps l
    by (cases "r < 0") (auto simp: th_inv_def th_defs)
next
  case Child_post
  then obtain a b ps where ps: "a \<ge> 0" "b \<ge> 0" "looped ps" "ps \<noteq> []"
    "calls h = (Proc_init, a) # (Proc_pre, b) # ps" "thread_exit h" and l: "launcher h \<noteq> L_idle"
    using assms by (auto simp: th_inv_def)
  have "calls (thelper_main r (child h) h) = (Proc_init, a) # (Proc_pre, b) # ps @ [(Proc_post, r)]"
    "child (thelper_main r (child h) h) = Child_ended" "thread_exit (thelper_main r (child h) h)"
    "launcher (thelper_main r (child h) h) = launcher h"
    using Child_post ps by (simp_all add: th_defs)
  then show ?thesis using ps l unfolding th_inv_def by auto
next
  case Child_pre
  then obtain a where a: "a \<ge> 0" "calls h = [(Proc_init, a)]" "launcher h \<noteq> L_idle"
    using assms by (auto simp: th_inv_def)
  then show ?thesis
    using Child_pre by (cases "r < 0") (auto simp: th_inv_def th_defs looped_def)
next
  case Child_check
  then show ?thesis using assms by (auto simp: th_inv_def)
qed (use assms in \<open>auto simp: th_inv_def th_defs\<close>)

lemma th_inv_step: "th_inv h \<Longrightarrow> th_inv (th_step ev h)"
proof (cases ev)
  case (Ev_child r)
  then show "th_inv h \<Longrightarrow> ?thesis" using th_inv_child by simp
qed (auto simp: th_inv_def th_defs intro: calls_ok_exit)

lemma th_inv_run: "th_inv h \<Longrightarrow> th_inv (fold th_step evs h)"
  by (induction evs arbitrary: h) (simp_all add: th_inv_step)

lemma th_inv_start: "th_inv no_thelper"
  by (simp add: th_inv_def no_thelper_def)

text \<open>
  C19: A thread that has ended called its functions in order: the initialisation; if that succeeded the
  preparation; if that succeeded too the loop function, at least once, as long as it succeeded; and then, exactly
  once, the clean-up.  A preparation that fails is not cleaned up.
\<close>

theorem thelper_calls_in_order:
  assumes "child (fold th_step evs no_thelper) = Child_ended"
  shows "(\<exists>r < 0. calls (fold th_step evs no_thelper) = [(Proc_init, r)]) \<or>
    (\<exists>a \<ge> 0. \<exists>b < 0. calls (fold th_step evs no_thelper) = [(Proc_init, a), (Proc_pre, b)]) \<or>
    (\<exists>a \<ge> 0. \<exists>b \<ge> 0. \<exists>ps c. looped ps \<and> ps \<noteq> [] \<and>
       calls (fold th_step evs no_thelper) = (Proc_init, a) # (Proc_pre, b) # ps @ [(Proc_post, c)])"
  using th_inv_run [OF th_inv_start, of evs] assms by (simp add: th_inv_def)

definition th_good_run :: "th_event list" where
  "th_good_run = [Ev_launch True, Ev_wait, Ev_child 0, Ev_child 0, Ev_return, Ev_child 0, Ev_child 0,
     Ev_child 0, Ev_child (-1), Ev_child 0, Ev_child 0]"

theorem thelper_calls_in_order_witness:
  "\<exists>a \<ge> 0. \<exists>b \<ge> 0. \<exists>ps c. looped ps \<and> ps \<noteq> [] \<and>
     calls (fold th_step th_good_run no_thelper) = (Proc_init, a) # (Proc_pre, b) # ps @ [(Proc_post, c)]"
proof -
  have "child (fold th_step th_good_run no_thelper) = Child_ended" by code_simp
  note thelper_calls_in_order [OF this]
  moreover have "length (calls (fold th_step th_good_run no_thelper)) = 5" by code_simp
  ultimately show ?thesis by auto
qed

section \<open>The launch\<close>

definition launch_inv :: "thelper \<Rightarrow> bool" where
  "launch_inv h \<longleftrightarrow> th_inv h \<and>
     (launcher h = L_woken \<longrightarrow> thread_ready h \<or> thread_exit h) \<and>
     (thread_ready h \<longrightarrow> child h \<notin> {Child_none, Child_init, Child_signal_exit, Child_signal}) \<and>
     (launcher h = L_returned 0 \<longrightarrow> (\<exists>r \<ge> 0. (Proc_init, r) \<in> set (calls h)))"

lemma launch_inv_step:
  assumes "launch_inv h" "ev \<noteq> Ev_spurious"
  shows "launch_inv (th_step ev h)"
proof -
  have inv: "th_inv (th_step ev h)" using assms(1) th_inv_step by (simp add: launch_inv_def)
  show ?thesis
  proof (cases ev)
    case Ev_return
    show ?thesis
    proof (cases "launcher h = L_woken \<and> \<not> thread_exit h")
      case True
      then have "calls_ok (child h) False (calls h)" "child h \<notin> {Child_none, Child_init, Child_signal_exit, Child_signal}"
        using assms(1) by (auto simp: launch_inv_def th_inv_def)
      then have "\<exists>r \<ge> 0. (Proc_init, r) \<in> set (calls h)" by (cases "child h") auto
      then show ?thesis using assms(1) inv Ev_return True by (simp add: launch_inv_def)
    next
      case False
      then show ?thesis using assms(1) inv Ev_return by (auto simp: launch_inv_def)
    qed
  next
    case (Ev_child r)
    then show ?thesis
      using assms(1) inv by (cases "child h") (auto simp: launch_inv_def th_defs)
  qed (use assms inv in \<open>auto simp: launch_inv_def th_inv_def th_defs\<close>)
qed

lemma launch_inv_run: "Ev_spurious \<notin> set evs \<Longrightarrow> launch_inv h \<Longrightarrow> launch_inv (fold th_step evs h)"
  by (induction evs arbitrary: h) (auto simp: launch_inv_step)

text \<open>
  When the wait ends only by the signal, a launch that returns 0 returns after the initialisation of
  the thread has succeeded.
\<close>

theorem launch_waits_for_init:
  assumes "Ev_spurious \<notin> set evs" "launcher (fold th_step evs no_thelper) = L_returned 0"
  shows "\<exists>r \<ge> 0. (Proc_init, r) \<in> set (calls (fold th_step evs no_thelper))"
proof -
  have "launch_inv no_thelper" using th_inv_start by (simp add: launch_inv_def no_thelper_def)
  then show ?thesis using launch_inv_run [OF assms(1)] assms(2) by (auto simp: launch_inv_def)
qed

theorem launch_waits_for_init_witness:
  "\<exists>r \<ge> 0. (Proc_init, r) \<in> set (calls (fold th_step th_good_run no_thelper))"
proof (rule launch_waits_for_init)
  show "Ev_spurious \<notin> set th_good_run" by (simp add: th_good_run_def)
  show "launcher (fold th_step th_good_run no_thelper) = L_returned 0" by code_simp
qed

text \<open>
  The wait is not in a loop: when it ends without a signal, the launch returns 0 before the
  initialisation has been called.
\<close>

theorem launch_returns_early:
  "launcher (fold th_step [Ev_launch True, Ev_wait, Ev_spurious, Ev_return] no_thelper) = L_returned 0 \<and>
   calls (fold th_step [Ev_launch True, Ev_wait, Ev_spurious, Ev_return] no_thelper) = []"
  by code_simp

section \<open>The end of the thread\<close>

definition count_procs :: "thelper \<Rightarrow> nat" where
  "count_procs h = length (filter (\<lambda>c. fst c = Thread_proc) (calls h))"

text \<open>The steps that are left to a thread that is to end, and the calls of its function among them.\<close>

fun steps_left :: "child_phase \<Rightarrow> nat" where
  "steps_left Child_none = 0"
| "steps_left Child_init = 6"
| "steps_left Child_signal_exit = 1"
| "steps_left Child_signal = 5"
| "steps_left Child_pre = 4"
| "steps_left Child_loop = 3"
| "steps_left Child_check = 2"
| "steps_left Child_post = 1"
| "steps_left Child_ended = 0"

definition procs_left :: "child_phase \<Rightarrow> nat" where
  "procs_left ph = (if ph \<in> {Child_init, Child_signal, Child_pre, Child_loop} then 1 else 0)"

lemma ending_step:
  assumes "thread_exit h" "child h \<noteq> Child_none"
  shows "thread_exit (thelper_main r (child h) h) \<and> child (thelper_main r (child h) h) \<noteq> Child_none \<and>
    steps_left (child (thelper_main r (child h) h)) \<le> steps_left (child h) - 1 \<and>
    count_procs (thelper_main r (child h) h) + procs_left (child (thelper_main r (child h) h))
      \<le> count_procs h + procs_left (child h)"
  using assms by (cases "child h"; cases "r < 0") (simp_all add: th_defs count_procs_def procs_left_def)

lemma ending_run:
  assumes "thread_exit h" "child h \<noteq> Child_none"
  shows "child (fold (\<lambda>r. th_step (Ev_child r)) rs h) \<noteq> Child_none \<and>
    steps_left (child (fold (\<lambda>r. th_step (Ev_child r)) rs h)) \<le> steps_left (child h) - length rs \<and>
    count_procs (fold (\<lambda>r. th_step (Ev_child r)) rs h) \<le> count_procs h + procs_left (child h)"
  using assms
proof (induction rs arbitrary: h)
  case (Cons r rs)
  let ?h = "thelper_main r (child h) h"
  let ?fin = "fold (\<lambda>r. th_step (Ev_child r)) rs ?h"
  note step = ending_step [OF Cons.prems, of r]
  have run: "fold (\<lambda>r. th_step (Ev_child r)) (r # rs) h = ?fin"
    by (simp only: fold_simps th_step.simps)
  have IH: "child ?fin \<noteq> Child_none \<and> steps_left (child ?fin) \<le> steps_left (child ?h) - length rs \<and>
    count_procs ?fin \<le> count_procs ?h + procs_left (child ?h)"
    by (rule Cons.IH) (use step in blast)+
  have "steps_left (child ?fin) \<le> steps_left (child h) - length (r # rs)"
    using IH step by (simp only: length_Cons) linarith
  moreover have "count_procs ?fin \<le> count_procs h + procs_left (child h)"
    using IH step by linarith
  ultimately show ?case unfolding run using IH by blast
qed simp

lemma thread_ends:
  assumes "thread_exit h" "child h \<noteq> Child_none" "length rs \<ge> 6"
  shows "child (fold (\<lambda>r. th_step (Ev_child r)) rs h) = Child_ended \<and>
    count_procs (fold (\<lambda>r. th_step (Ev_child r)) rs h) \<le> count_procs h + 1"
proof -
  let ?h = "fold (\<lambda>r. th_step (Ev_child r)) rs h"
  have "steps_left (child h) \<le> 6" "procs_left (child h) \<le> 1" by (cases "child h") (simp_all add: procs_left_def)
  moreover note ending_run [OF assms(1,2), of rs]
  moreover have "steps_left ph = 0 \<Longrightarrow> ph \<noteq> Child_none \<Longrightarrow> ph = Child_ended" for ph by (cases ph) simp_all
  ultimately show ?thesis using assms(3) by fastforce
qed

text \<open>
  After the thread has been unblocked, or its function has failed, it ends within six steps, and calls the
  function at most once more.
\<close>

theorem thelper_ends:
  assumes "thread_exit h" "child h \<noteq> Child_none" "length rs \<ge> 6"
  shows "child (fold (\<lambda>r. th_step (Ev_child r)) rs h) = Child_ended \<and>
    count_procs (fold (\<lambda>r. th_step (Ev_child r)) rs h) \<le> count_procs h + 1"
  by (rule thread_ends [OF assms])

theorem thelper_ends_witness:
  "child (fold (\<lambda>r. th_step (Ev_child r)) [0, 0, 0, 0, 0, 0]
      (fold th_step [Ev_launch True, Ev_wait, Ev_unblock] no_thelper)) = Child_ended \<and>
   count_procs (fold (\<lambda>r. th_step (Ev_child r)) [0, 0, 0, 0, 0, 0]
      (fold th_step [Ev_launch True, Ev_wait, Ev_unblock] no_thelper)) \<le>
   count_procs (fold th_step [Ev_launch True, Ev_wait, Ev_unblock] no_thelper) + 1"
proof (rule thelper_ends)
  show "thread_exit (fold th_step [Ev_launch True, Ev_wait, Ev_unblock] no_thelper)" by code_simp
  show "child (fold th_step [Ev_launch True, Ev_wait, Ev_unblock] no_thelper) \<noteq> Child_none" by code_simp
qed simp

section \<open>The frames\<close>

unbundle bit_operations_syntax

lemma of_le32_le32: "of_le32 (le32 w) = w"
proof (rule bit_word_eqI)
  fix n assume n: "n < LENGTH(32)"
  have "n < 8 \<or> (8 \<le> n \<and> n < 16) \<or> (16 \<le> n \<and> n < 24) \<or> (24 \<le> n \<and> n < 32)" using n by simp arith
  then show "bit (of_le32 (le32 w)) n \<longleftrightarrow> bit w n"
    by (elim disjE) (auto simp: of_le32_def le32_def bit_simps)
qed

lemma length_le32 [simp]: "length (le32 w) = 4"
  by (simp add: le32_def)

text \<open>What a message looks like in the pipe: its first four bytes are replaced by its size.\<close>

definition framed :: "uint8 list \<Rightarrow> uint8 list" where
  "framed msg = le32 (of_nat (length msg)) @ drop SIZEOF_SIZE msg"

definition frame_fits :: "nat \<Rightarrow> uint8 list \<Rightarrow> bool" where
  "frame_fits bufsz msg \<longleftrightarrow> 4 \<le> length msg \<and> length msg \<le> bufsz \<and> bufsz < 2 ^ 31"

lemma frame_fits_size:
  assumes "frame_fits bufsz msg"
  shows "unat (of_nat (length msg) :: uint32) = length msg" "sint (of_nat (length msg) :: uint32) = int (length msg)"
    "unat (of_nat bufsz :: uint32) = bufsz" "unat (of_nat (length msg) - 4 :: uint32) = length msg - 4"
    "length (framed msg) = length msg"
proof -
  have l: "length msg < 2 ^ 31" "4 \<le> length msg" "bufsz < 2 ^ 31" using assms by (auto simp: frame_fits_def)
  then show u: "unat (of_nat (length msg) :: uint32) = length msg" "unat (of_nat bufsz :: uint32) = bufsz"
    by (simp_all add: unat_of_nat)
  show "sint (of_nat (length msg) :: uint32) = int (length msg)"
    using l by (simp add: signed_of_nat signed_take_bit_int_eq_self)
  have "unat (of_nat (length msg) - 4 :: uint32) = unat (of_nat (length msg) :: uint32) - unat (4 :: uint32)"
    using l u(1) by (subst unat_sub) (simp_all add: word_le_nat_alt)
  then show "unat (of_nat (length msg) - 4 :: uint32) = length msg - 4" using u(1) by simp
  show "length (framed msg) = length msg" using l by (simp add: framed_def c_sizes)
qed

lemma msgsnd_frame:
  assumes "frame_fits bufsz msg" "length msg \<le> n"
  shows "loc_eng_dmn_conn_glue_msgsnd n msg (of_nat (length msg)) pipe = (int (length msg), pipe @ framed msg)"
  using frame_fits_size [OF assms(1)] assms(2)
  by (simp add: loc_eng_dmn_conn_glue_msgsnd_def framed_def Let_def)

lemma msgrcv_frame:
  assumes "frame_fits bufsz msg"
  shows "loc_eng_dmn_conn_glue_msgrcv (of_nat bufsz) (framed msg @ rest) = Rcv_msg (framed msg) rest"
proof -
  note sz = frame_fits_size [OF assms]
  have l: "4 \<le> length msg" "length msg \<le> bufsz" using assms by (auto simp: frame_fits_def)
  have "\<not> (of_nat bufsz :: uint32) < of_nat (length msg)" using sz l by (simp add: word_less_nat_alt)
  moreover have "take SIZEOF_SIZE (framed msg @ rest) = le32 (of_nat (length msg))"
    "drop SIZEOF_SIZE (framed msg @ rest) = drop SIZEOF_SIZE msg @ rest"
    by (simp_all add: framed_def c_sizes)
  moreover have "length (drop SIZEOF_SIZE msg) = length msg - 4" by (simp add: c_sizes)
  ultimately show ?thesis using sz l
    by (simp add: loc_eng_dmn_conn_glue_msgrcv_def pipe_read_def of_le32_le32 Let_def c_sizes)
      (simp add: framed_def c_sizes)
qed

definition send_all :: "uint8 list list \<Rightarrow> uint8 list \<Rightarrow> uint8 list" where
  "send_all ms pipe =
     fold (\<lambda>m p. snd (loc_eng_dmn_conn_glue_msgsnd (length m) m (of_nat (length m)) p)) ms pipe"

fun receive_all :: "nat \<Rightarrow> uint32 \<Rightarrow> uint8 list \<Rightarrow> (uint8 list list \<times> uint8 list) option" where
  "receive_all 0 bufsz pipe = Some ([], pipe)"
| "receive_all (Suc k) bufsz pipe =
     (case loc_eng_dmn_conn_glue_msgrcv bufsz pipe of
        Rcv_msg m rest \<Rightarrow> map_option (\<lambda>(ms, p). (m # ms, p)) (receive_all k bufsz rest)
      | _ \<Rightarrow> None)"

lemma send_all_frames:
  "list_all (frame_fits bufsz) ms \<Longrightarrow> send_all ms pipe = pipe @ concat (map framed ms)"
  by (induction ms arbitrary: pipe) (simp_all add: send_all_def msgsnd_frame [of bufsz, OF _ order_refl])

lemma receive_all_frames:
  "list_all (frame_fits bufsz) ms \<Longrightarrow>
     receive_all (length ms) (of_nat bufsz) (concat (map framed ms) @ rest) = Some (map framed ms, rest)"
  by (induction ms) (simp_all add: msgrcv_frame)



text \<open>
  A receive writes beyond the buffer exactly when the four bytes announce a size below four: the size of the
  rest then wraps around.
\<close>

theorem msgrcv_overrun_small_size:
  assumes "4 \<le> bufsz"
  shows "(loc_eng_dmn_conn_glue_msgrcv bufsz pipe = Rcv_overrun) \<longleftrightarrow>
    4 \<le> length pipe \<and> of_le32 (take 4 pipe) < 4"
proof (cases "4 \<le> length pipe")
  case True
  let ?sz = "of_le32 (take 4 pipe)"
  have b: "4 \<le> unat bufsz" "unat bufsz < 2 ^ 32"
    using assms unsigned_less [of bufsz] by (simp_all add: word_le_nat_alt)
  have want: "unat (?sz - 4) = (if ?sz < 4 then unat ?sz + 2 ^ 32 - 4 else unat ?sz - 4)"
    by (simp add: unat_sub_if' word_less_nat_alt)
  show ?thesis
  proof (cases "?sz < 4")
    case small: True
    then have "unat ?sz < 4" by (simp add: word_less_nat_alt)
    then have "\<not> bufsz < ?sz" using b by (simp add: word_less_nat_alt)
    moreover have "unat bufsz - 4 < unat (?sz - 4)" using small want b by simp
    ultimately show ?thesis using True small
      by (simp add: loc_eng_dmn_conn_glue_msgrcv_def pipe_read_def Let_def c_sizes)
  next
    case False
    have "bufsz < ?sz \<or> \<not> unat bufsz - 4 < unat (?sz - 4)"
      using want False by (simp add: word_less_nat_alt) linarith
    then show ?thesis using True False
      by (elim disjE) (simp_all add: loc_eng_dmn_conn_glue_msgrcv_def pipe_read_def Let_def c_sizes)
  qed
qed (simp add: loc_eng_dmn_conn_glue_msgrcv_def pipe_read_def Let_def c_sizes)

theorem msgrcv_overrun_small_size_witness:
  "loc_eng_dmn_conn_glue_msgrcv 368 [3, 0, 0, 0, 1, 2] = Rcv_overrun"
proof -
  have "of_le32 (take 4 [3, 0, 0, 0, 1, 2]) < 4" by (simp add: of_le32_def)
  then show ?thesis using msgrcv_overrun_small_size [of 368 "[3, 0, 0, 0, 1, 2]"] by simp
qed

section \<open>What the server does with a message\<close>

text \<open>A message of the size of the structure, whatever its contents.\<close>

definition ctrl_frame :: "uint8 list \<Rightarrow> bool" where
  "ctrl_frame msg \<longleftrightarrow> length msg = SIZEOF_CTRL_MSGBUF"

lemma ctrl_frame_fits: "ctrl_frame msg \<Longrightarrow> frame_fits (SIZEOF_CTRL_MSGBUF + 256) msg"
  by (simp add: ctrl_frame_def frame_fits_def c_sizes)

lemma msgsnd_ctrl_frame:
  assumes "ctrl_frame msg" "SIZEOF_CTRL_MSGBUF \<le> n"
  shows "loc_eng_dmn_conn_glue_msgsnd n msg (of_nat SIZEOF_CTRL_MSGBUF) pipe =
    (int SIZEOF_CTRL_MSGBUF, pipe @ framed msg)"
  using msgsnd_frame [OF ctrl_frame_fits [OF assms(1)], of n pipe] assms by (simp add: ctrl_frame_def)

lemma framed_nth: "ctrl_frame msg \<Longrightarrow> 4 \<le> i \<Longrightarrow> i < SIZEOF_CTRL_MSGBUF \<Longrightarrow> framed msg ! i = msg ! i"
  by (simp add: framed_def nth_append c_sizes ctrl_frame_def)

lemma framed_drop: "4 \<le> i \<Longrightarrow> drop i (framed msg) = drop i msg"
  by (simp add: framed_def c_sizes)

lemma framed_take4: "take 4 (framed msg) = le32 (of_nat (length msg))"
  by (simp add: framed_def)

lemma slice_at_framed:
  assumes "ctrl_frame msg" "4 \<le> i" "i + n \<le> SIZEOF_CTRL_MSGBUF"
  shows "slice_at i n (framed msg @ ext) = slice_at i n msg"
  using assms frame_fits_size(5) [OF ctrl_frame_fits [OF assms(1)]]
  by (simp add: slice_at_def framed_drop ctrl_frame_def)

lemma server_receives:
  assumes "ctrl_frame msg" "length block \<ge> SIZEOF_CTRL_MSGBUF"
  defines "buf \<equiv> framed msg @ drop SIZEOF_CTRL_MSGBUF block"
  shows "loc_api_server_proc (Some block) (framed msg @ rest, e) =
    (if msg ! 12 = GPSONE_LOC_API_IF_REQUEST
     then map_option (\<lambda>(r, e'). (0, rest, e'))
            (loc_eng_dmn_conn_loc_api_server_if_request_handler (cmsg_if_request buf) e)
     else if msg ! 12 = GPSONE_LOC_API_IF_RELEASE
     then map_option (\<lambda>(r, e'). (0, rest, e'))
            (loc_eng_dmn_conn_loc_api_server_if_release_handler (cmsg_if_request buf) e)
     else Some (0, rest, e))"
proof -
  have len: "length (framed msg) = SIZEOF_CTRL_MSGBUF"
    using frame_fits_size(5) [OF ctrl_frame_fits [OF assms(1)]] assms(1) by (simp add: ctrl_frame_def)
  have "sint (of_le32 (take 4 (framed msg))) = int SIZEOF_CTRL_MSGBUF"
    using frame_fits_size(2) [OF ctrl_frame_fits [OF assms(1)]] assms(1)
    by (simp add: framed_take4 of_le32_le32 ctrl_frame_def)
  then have pos: "\<not> sint (of_le32 (take 4 (framed msg))) \<le> 0" by (simp add: c_sizes)
  have type: "ctrl_type buf = msg ! 12"
    using framed_nth [OF assms(1), of 12] len
    by (simp add: buf_def ctrl_type_def nth_append c_sizes)
  show ?thesis
    unfolding loc_api_server_proc_def prod.case option.case msgrcv_frame [OF ctrl_frame_fits [OF assms(1)]] rcv.case
      len Let_def buf_def [symmetric] type
    using pos by simp
qed

text \<open>The fields of a request, as the server reads them from the message alone.\<close>

definition request_of :: "uint8 list \<Rightarrow> int \<times> int \<times> uint32 \<times> uint8 list" where
  "request_of msg = (sint (of_le32 (slice_at 16 4 msg)), sint (of_le32 (slice_at 20 4 msg)),
     of_le32 (slice_at 24 4 msg), slice_at 28 16 msg)"

lemma request_fields:
  assumes "ctrl_frame msg"
  shows "if_type (cmsg_if_request (framed msg @ ext)) = fst (request_of msg)"
    "sender_id (cmsg_if_request (framed msg @ ext)) = fst (snd (request_of msg))"
    "ipv4_addr (cmsg_if_request (framed msg @ ext)) = fst (snd (snd (request_of msg)))"
    "ipv6_addr (cmsg_if_request (framed msg @ ext)) = snd (snd (snd (request_of msg)))"
  using slice_at_framed [OF assms] by (simp_all add: cmsg_if_request_def request_of_def c_sizes)

text \<open>
  A request of the positioning daemon for a network, in front of a pipe, is taken from the pipe, whatever
  comes after it and whatever the allocated block held, and posts exactly one message to the engine: the one with
  the type it names and the two addresses at their places.
\<close>

theorem server_bit_request:
  assumes "ctrl_frame msg" "length block \<ge> SIZEOF_CTRL_MSGBUF" "loc_api_handle e"
    "msg ! 12 = GPSONE_LOC_API_IF_REQUEST" "request_of msg = (t, 3, v4, v6)" "if_request_type t = Some type"
  shows "loc_api_server_proc (Some block) (framed msg @ rest, e) =
    Some (0, rest, sendMsg (LocEngReqRelBIT type v4 (Some (take 16 v6)) True) e)"
  using request_fields [OF assms(1), of "drop SIZEOF_CTRL_MSGBUF block"] assms(3-6)
  by (simp add: server_receives [OF assms(1,2)] loc_eng_dmn_conn_loc_api_server_if_request_handler_def
      if_request_msg_def)

text \<open>A request for the interface "any", sender 3, with the addresses 1.2.3.4 and a counted one.\<close>

definition bit_request_bytes :: "uint8 list" where
  "bit_request_bytes =
     [0,0,0,0, 0,0,0,0, 0,0,0,0, 0xF0,0,0,0, 2,0,0,0, 3,0,0,0, 4,3,2,1] @
     [1,2,3,4,5,6,7,8,9,10,11,12,13,14,15,16] @ replicate 68 0"

theorem server_bit_request_witness:
  "loc_api_server_proc (Some (replicate 368 7)) (framed bit_request_bytes @ [1, 2], loc_afw_data\<lparr>loc_api_handle := True\<rparr>) =
    Some (0, [1, 2], sendMsg (LocEngReqRelBIT 0 0x01020304
      (Some (take 16 [1,2,3,4,5,6,7,8,9,10,11,12,13,14,15,16])) True) (loc_afw_data\<lparr>loc_api_handle := True\<rparr>))"
proof (rule server_bit_request)
  show "ctrl_frame bit_request_bytes" by (simp add: ctrl_frame_def bit_request_bytes_def c_sizes)
  show "SIZEOF_CTRL_MSGBUF \<le> length (replicate 368 (7 :: uint8))" by (simp add: c_sizes)
  show "bit_request_bytes ! 12 = GPSONE_LOC_API_IF_REQUEST"
    by (simp add: bit_request_bytes_def GPSONE_LOC_API_IF_REQUEST_def)
  show "request_of bit_request_bytes =
      (2, 3, 0x01020304, [1,2,3,4,5,6,7,8,9,10,11,12,13,14,15,16])"
    by (simp add: request_of_def bit_request_bytes_def slice_at_def of_le32_def)
  show "if_request_type 2 = Some 0" by (simp add: if_request_type_def)
qed simp

section \<open>The answers\<close>

lemma length_response: "length stack = SIZEOF_CTRL_MSGBUF \<Longrightarrow> ctrl_frame (response_msg stack status)"
  by (simp add: ctrl_frame_def response_msg_def slice_at_def c_sizes)

lemma response_type: "length stack = SIZEOF_CTRL_MSGBUF \<Longrightarrow> response_msg stack status ! 12 = GPSONE_LOC_API_RESPONSE"
  by (simp add: response_msg_def nth_append c_sizes)

lemma response_result:
  "length stack = SIZEOF_CTRL_MSGBUF \<Longrightarrow> slice_at 16 4 (response_msg stack status) = le32 (word_of_int status)"
  by (simp add: response_msg_def slice_at_def c_sizes)

lemma snd_response_frame:
  "length stack = SIZEOF_CTRL_MSGBUF \<Longrightarrow> SIZEOF_CTRL_MSGBUF \<le> n \<Longrightarrow>
     snd_response n (response_msg stack status) q = (0, q @ framed (response_msg stack status))"
  using msgsnd_ctrl_frame [OF length_response, of stack n _ q]
  by (simp add: snd_response_def c_sizes)

definition queue_of :: "int \<Rightarrow> daemon_queues \<Rightarrow> uint8 list" where
  "queue_of sender q =
     (if sender = 0 then quipc_q q else if sender = 1 then msapm_q q else if sender = 2 then msapu_q q
      else resp_q q)"

text \<open>
  The answer to a daemon goes to the end of the queue of this daemon and to no other, and what the daemon
  receives there is a response with the status that was sent.
\<close>

theorem response_reaches_its_sender:
  assumes "sender \<in> {0, 1, 2, 3}" "length stack = SIZEOF_CTRL_MSGBUF" "SIZEOF_CTRL_MSGBUF \<le> n"
    "- (2 ^ 31) \<le> status" "status < 2 ^ 31" "queue_of sender q = []"
    "loc_eng_dmn_conn_loc_api_server_data_conn n stack sender status q = (r, q')"
  shows "r = 0 \<and> (\<exists>msg. loc_eng_dmn_conn_glue_msgrcv (of_nat SIZEOF_CTRL_MSGBUF) (queue_of sender q') = Rcv_msg msg []
      \<and> ctrl_type msg = GPSONE_LOC_API_RESPONSE \<and> sint (of_le32 (slice_at 16 4 msg)) = status) \<and>
    (\<forall>other. other \<noteq> sender \<longrightarrow> other \<in> {0, 1, 2, 3} \<longrightarrow> queue_of other q' = queue_of other q)"
proof -
  let ?msg = "response_msg stack status"
  note frame = length_response [OF assms(2), of status]
  have fits: "frame_fits SIZEOF_CTRL_MSGBUF ?msg"
    using frame by (simp add: frame_fits_def ctrl_frame_def c_sizes)
  have "r = 0 \<and> queue_of sender q' = framed ?msg"
    using assms(1,6,7) snd_response_frame [OF assms(2,3)]
    by (auto simp: loc_eng_dmn_conn_loc_api_server_data_conn_def queue_of_def)
  moreover have "\<forall>other. other \<noteq> sender \<longrightarrow> other \<in> {0, 1, 2, 3} \<longrightarrow> queue_of other q' = queue_of other q"
    using assms(1,7) snd_response_frame [OF assms(2,3)]
    by (auto simp: loc_eng_dmn_conn_loc_api_server_data_conn_def queue_of_def)
  moreover have "loc_eng_dmn_conn_glue_msgrcv (of_nat SIZEOF_CTRL_MSGBUF) (framed ?msg) = Rcv_msg (framed ?msg) []"
    using msgrcv_frame [OF fits, of "[]"] by simp
  moreover have "ctrl_type (framed ?msg) = GPSONE_LOC_API_RESPONSE"
    using framed_nth [OF frame, of 12] response_type [OF assms(2)]
    by (simp add: ctrl_type_def c_sizes)
  moreover have "sint (of_le32 (slice_at 16 4 (framed ?msg))) = status"
    using slice_at_framed [OF frame, of 16 4 "[]"] response_result [OF assms(2)] assms(4,5)
    by (simp add: of_le32_le32 c_sizes signed_of_int signed_take_bit_int_eq_self)
  ultimately show ?thesis by simp
qed

theorem response_reaches_its_sender_witness:
  "\<exists>q' msg. loc_eng_dmn_conn_loc_api_server_data_conn 112 (replicate 112 9) 1 (-5)
       \<lparr>quipc_q = [1], msapm_q = [], msapu_q = [2], resp_q = []\<rparr> = (0, q') \<and>
     loc_eng_dmn_conn_glue_msgrcv (of_nat SIZEOF_CTRL_MSGBUF) (queue_of 1 q') = Rcv_msg msg [] \<and>
     sint (of_le32 (slice_at 16 4 msg)) = -5"
proof -
  let ?q = "\<lparr>quipc_q = [1], msapm_q = [], msapu_q = [2], resp_q = []\<rparr> :: daemon_queues"
  obtain r q' where run: "loc_eng_dmn_conn_loc_api_server_data_conn 112 (replicate 112 9) 1 (-5) ?q = (r, q')"
    by (cases "loc_eng_dmn_conn_loc_api_server_data_conn 112 (replicate 112 9) 1 (-5) ?q") blast
  have "queue_of 1 ?q = []" by (simp add: queue_of_def)
  from response_reaches_its_sender [OF _ _ _ _ _ this run] run show ?thesis
    by (simp add: c_sizes) blast
qed

section \<open>The end of the server\<close>

text \<open>A thread whose function has failed, or that is past its loop.\<close>

definition ending :: "thelper \<Rightarrow> bool" where
  "ending h \<longleftrightarrow> thread_exit h \<and> launcher h \<noteq> L_idle \<and> child h \<in> {Child_check, Child_post, Child_ended}"

lemma ending_stays: "ending h \<Longrightarrow> ending (th_step ev h) \<and> count_procs (th_step ev h) = count_procs h"
proof (cases ev)
  case (Ev_child r)
  then show "ending h \<Longrightarrow> ?thesis"
    by (cases "child h") (simp_all add: ending_def th_defs count_procs_def)
qed (auto simp: ending_def th_defs count_procs_def)

lemma ending_keeps: "ending h \<Longrightarrow> count_procs (fold th_step evs h) = count_procs h"
  by (induction evs arbitrary: h) (simp_all add: ending_stays)

text \<open>
  One receive that fails ends the server for good: when fewer than four bytes come from the pipe, its
  function returns -1, and from then on, whatever happens, it is never called again.
\<close>

theorem failed_receive_ends_server:
  assumes "length pipe < 4" "child h = Child_loop" "launcher h \<noteq> L_idle"
  shows "\<exists>rest. loc_api_server_proc (Some block) (pipe, e) = Some (-1, rest, e) \<and>
    count_procs (fold th_step evs (th_step (Ev_child (-1)) h)) = count_procs h + 1"
proof -
  have "ending (th_step (Ev_child (-1)) h)" "count_procs (th_step (Ev_child (-1)) h) = count_procs h + 1"
    using assms(2,3) by (simp_all add: ending_def th_defs count_procs_def)
  moreover have "\<exists>rest. loc_api_server_proc (Some block) (pipe, e) = Some (-1, rest, e)"
    using assms(1) by (simp add: loc_api_server_proc_def loc_eng_dmn_conn_glue_msgrcv_def pipe_read_def c_sizes)
  ultimately show ?thesis using ending_keeps by simp
qed

theorem failed_receive_ends_server_witness:
  "count_procs (fold th_step [Ev_child 0, Ev_child 0, Ev_child 0]
     (th_step (Ev_child (-1)) (fold th_step (take 6 th_good_run) no_thelper))) = 1"
proof -
  let ?h = "fold th_step (take 6 th_good_run) no_thelper"
  have "child ?h = Child_loop" "launcher ?h \<noteq> L_idle" "count_procs ?h = 0" by code_simp+
  then show ?thesis
    using failed_receive_ends_server [of "[]" ?h "[]" loc_afw_data "[Ev_child 0, Ev_child 0, Ev_child 0]"] by simp
qed

lemma unblock_frame:
  assumes "length stack = SIZEOF_CTRL_MSGBUF" "SIZEOF_CTRL_MSGBUF \<le> n"
  shows "\<exists>msg. ctrl_frame msg \<and> msg ! 12 = GPSONE_UNBLOCK \<and>
    snd (loc_eng_dmn_conn_unblock_proc n stack pipe) = pipe @ framed msg"
proof -
  let ?msg = "take 12 stack @ [GPSONE_UNBLOCK] @ slice_at 13 99 stack"
  have frame: "ctrl_frame ?msg" using assms(1) by (simp add: ctrl_frame_def slice_at_def c_sizes)
  moreover have "?msg ! 12 = GPSONE_UNBLOCK" using assms(1) by (simp add: nth_append c_sizes)
  moreover have "snd (loc_eng_dmn_conn_unblock_proc n stack pipe) = pipe @ framed ?msg"
    unfolding loc_eng_dmn_conn_unblock_proc_def msgsnd_ctrl_frame [OF frame assms(2)] by simp
  ultimately show ?thesis by blast
qed



text \<open>
  A flush returns 0 when a read reaches the end of the pipe, whatever it has thrown away before; it never
  returns while reads succeed or fail.
\<close>

theorem msgflush_returns:
  "loc_eng_dmn_conn_glue_msgflush reads =
     (if 0 \<in> set reads then Some (0, tl (dropWhile (\<lambda>len. len \<noteq> 0) reads)) else None)"
  by (induction reads) (simp_all add: loc_eng_dmn_conn_glue_msgflush.simps)

end
