(* ===== verification/Loc_Dmn_Pipes.thy ===== *)
theory Loc_Dmn_Pipes
  imports Loc_Dmn_Server
begin

text \<open>
  The pipes of the daemon connection: how the server makes and removes them (\<open>loc_eng_dmn_conn_glue_pipe.c\<close>,
  \<open>loc_eng_dmn_conn_glue_msg.c\<close>, the init and post functions of \<open>loc_eng_dmn_conn.cpp\<close>), the launch of the server and
  the wait for its end.  A pipe is an entry of a table of names with its mode and group; what the system answers to
  a call is an argument.
\<close>

section \<open>Named pipes and descriptors\<close>

record fifo =
  fmode :: nat
  fgroup :: "nat option"

record pipes =
  fifos :: "string \<Rightarrow> fifo option"
  fds :: "(nat \<times> string) list"

text \<open>
  The answers of the system: the calls that succeed, the group \<open>gps\<close> if there is one, and the mode \<open>mkfifo\<close> gives a
  pipe for the mode 0660 and the mask of the process.
\<close>

record os =
  mkfifo_ok :: "string \<Rightarrow> bool"
  chmod_ok :: "string \<Rightarrow> bool"
  open_ok :: "string \<Rightarrow> bool"
  chown_ok :: "string \<Rightarrow> bool"
  unlink_ok :: "string \<Rightarrow> bool"
  gps_gid :: "nat option"
  masked_mode :: nat

text \<open>0660.\<close>

definition RW_RW :: nat where "RW_RW = 432"

definition chmod_fifo :: "os \<Rightarrow> string \<Rightarrow> pipes \<Rightarrow> pipes" where
  "chmod_fifo sys n p =
     (if chmod_ok sys n
      then p\<lparr>fifos := (fifos p)(n := map_option (\<lambda>f. f\<lparr>fmode := RW_RW\<rparr>) (fifos p n))\<rparr> else p)"

definition chown_fifo :: "os \<Rightarrow> string \<Rightarrow> pipes \<Rightarrow> pipes" where
  "chown_fifo sys n p =
     (case gps_gid sys of
        None \<Rightarrow> p
      | Some g \<Rightarrow>
          if chown_ok sys n
          then p\<lparr>fifos := (fifos p)(n := map_option (\<lambda>f. f\<lparr>fgroup := Some g\<rparr>) (fifos p n))\<rparr> else p)"

text \<open>The descriptor of an opened file is the lowest that is not in use.\<close>

definition free_fd :: "pipes \<Rightarrow> nat" where
  "free_fd p = hd (filter (\<lambda>n. n \<notin> fst ` set (fds p)) [0..<Suc (length (fds p))])"

definition loc_eng_dmn_conn_glue_pipeget :: "os \<Rightarrow> string \<Rightarrow> pipes \<Rightarrow> int \<times> pipes" where
  "loc_eng_dmn_conn_glue_pipeget sys pipe_name p =
     (if fifos p pipe_name = None \<and> \<not> mkfifo_ok sys pipe_name then (-1, p)
      else
        (let p1 = (if fifos p pipe_name = None
                   then p\<lparr>fifos := (fifos p)(pipe_name \<mapsto> \<lparr>fmode = masked_mode sys, fgroup = None\<rparr>)\<rparr> else p);
             p2 = chmod_fifo sys pipe_name p1
         in if open_ok sys pipe_name
            then (int (free_fd p2), p2\<lparr>fds := fds p2 @ [(free_fd p2, pipe_name)]\<rparr>)
            else (-1, p2)))"

definition loc_eng_dmn_conn_glue_piperemove :: "os \<Rightarrow> string \<Rightarrow> int \<Rightarrow> pipes \<Rightarrow> int \<times> pipes" where
  "loc_eng_dmn_conn_glue_piperemove sys pipe_name fd p =
     (let p1 = p\<lparr>fds := filter (\<lambda>x. int (fst x) \<noteq> fd) (fds p)\<rparr>
      in (0, if unlink_ok sys pipe_name then p1\<lparr>fifos := (fifos p1)(pipe_name := None)\<rparr> else p1))"

definition loc_eng_dmn_conn_glue_msgget :: "os \<Rightarrow> string \<Rightarrow> pipes \<Rightarrow> int \<times> pipes" where
  "loc_eng_dmn_conn_glue_msgget sys q_path p = loc_eng_dmn_conn_glue_pipeget sys q_path p"

definition loc_eng_dmn_conn_glue_msgremove :: "os \<Rightarrow> string \<Rightarrow> int \<Rightarrow> pipes \<Rightarrow> int \<times> pipes" where
  "loc_eng_dmn_conn_glue_msgremove sys q_path msgqid p = loc_eng_dmn_conn_glue_piperemove sys q_path msgqid p"

section \<open>The server's functions\<close>

definition GPSONE_LOC_API_Q_PATH :: string where
  "GPSONE_LOC_API_Q_PATH = ''/data/misc/location/gpsone_d/gpsone_loc_api_q''"
definition GPSONE_LOC_API_RESP_Q_PATH :: string where
  "GPSONE_LOC_API_RESP_Q_PATH = ''/data/misc/location/gpsone_d/gpsone_loc_api_resp_q''"
definition QUIPC_CTRL_Q_PATH :: string where
  "QUIPC_CTRL_Q_PATH = ''/data/misc/location/gpsone_d/quipc_ctrl_q''"
definition MSAPM_CTRL_Q_PATH :: string where
  "MSAPM_CTRL_Q_PATH = ''/data/misc/location/gpsone_d/msapm_ctrl_q''"
definition MSAPU_CTRL_Q_PATH :: string where
  "MSAPU_CTRL_Q_PATH = ''/data/misc/location/gpsone_d/msapu_ctrl_q''"

record server_data =
  loc_api_server_msgqid :: int
  loc_api_resp_msgqid :: int
  quipc_msgqid :: int
  msapm_msgqid :: int
  msapu_msgqid :: int
  loc_api_q :: string
  loc_api_resp_q :: string
  pipes_of :: pipes

definition server_start :: "pipes \<Rightarrow> server_data" where
  "server_start p =
     \<lparr>loc_api_server_msgqid = 0, loc_api_resp_msgqid = 0, quipc_msgqid = 0, msapm_msgqid = 0, msapu_msgqid = 0,
      loc_api_q = GPSONE_LOC_API_Q_PATH, loc_api_resp_q = GPSONE_LOC_API_RESP_Q_PATH, pipes_of = p\<rparr>"

definition loc_api_server_proc_init :: "os \<Rightarrow> server_data \<Rightarrow> int \<times> server_data" where
  "loc_api_server_proc_init sys s =
     (let (q1, p1) = loc_eng_dmn_conn_glue_msgget sys (loc_api_q s) (pipes_of s);
          p2 = chown_fifo sys (loc_api_q s) (chmod_fifo sys (loc_api_q s) p1);
          (q2, p3) = loc_eng_dmn_conn_glue_msgget sys (loc_api_resp_q s) p2;
          p4 = chown_fifo sys (loc_api_resp_q s) (chmod_fifo sys (loc_api_resp_q s) p3);
          (q3, p5) = loc_eng_dmn_conn_glue_msgget sys QUIPC_CTRL_Q_PATH p4;
          (q4, p6) = loc_eng_dmn_conn_glue_msgget sys MSAPM_CTRL_Q_PATH p5;
          (q5, p7) = loc_eng_dmn_conn_glue_msgget sys MSAPU_CTRL_Q_PATH p6
      in (0, s\<lparr>loc_api_server_msgqid := q1, loc_api_resp_msgqid := q2, quipc_msgqid := q3, msapm_msgqid := q4,
               msapu_msgqid := q5, pipes_of := p7\<rparr>))"

definition loc_api_server_proc_pre :: "server_data \<Rightarrow> int \<times> server_data" where
  "loc_api_server_proc_pre s = (0, s)"

definition loc_api_server_proc_post :: "os \<Rightarrow> server_data \<Rightarrow> int \<times> server_data" where
  "loc_api_server_proc_post sys s =
     (let p1 = snd (loc_eng_dmn_conn_glue_msgremove sys (loc_api_q s) (loc_api_server_msgqid s) (pipes_of s));
          p2 = snd (loc_eng_dmn_conn_glue_msgremove sys (loc_api_resp_q s) (loc_api_resp_msgqid s) p1);
          p3 = snd (loc_eng_dmn_conn_glue_msgremove sys QUIPC_CTRL_Q_PATH (quipc_msgqid s) p2);
          p4 = snd (loc_eng_dmn_conn_glue_msgremove sys MSAPM_CTRL_Q_PATH (msapm_msgqid s) p3);
          p5 = snd (loc_eng_dmn_conn_glue_msgremove sys MSAPU_CTRL_Q_PATH (msapu_msgqid s) p4)
      in (0, s\<lparr>pipes_of := p5\<rparr>))"

text \<open>
  The launch, up to the creation of the thread (the handle of the engine is set in \<open>Loc_Eng\<close>), and what it returns
  for the result of the helper's launch.
\<close>

definition loc_eng_dmn_conn_loc_api_server_launch ::
  "string option \<Rightarrow> string option \<Rightarrow> bool \<Rightarrow> server_data \<times> thelper \<Rightarrow> server_data \<times> thelper" where
  "loc_eng_dmn_conn_loc_api_server_launch loc_api_q_path resp_q_path created = (\<lambda>(s, h).
     (let s1 = (case loc_api_q_path of None \<Rightarrow> s | Some q \<Rightarrow> s\<lparr>loc_api_q := q\<rparr>);
          s2 = (case resp_q_path of None \<Rightarrow> s1 | Some q \<Rightarrow> s1\<lparr>loc_api_resp_q := q\<rparr>)
      in (s2, loc_eng_dmn_conn_launch_thelper created h)))"

definition server_launch_result :: "int \<Rightarrow> int" where
  "server_launch_result result = (if result \<noteq> 0 then -1 else 0)"

text \<open>The wait for the end of the thread: \<open>None\<close> while it runs.\<close>

definition thelper_signal_destroy :: "int \<Rightarrow> int \<Rightarrow> int" where
  "thelper_signal_destroy cond_result mutex_result =
     (if mutex_result \<noteq> 0 then mutex_result else if cond_result \<noteq> 0 then cond_result else 0)"

definition loc_eng_dmn_conn_join_thelper :: "thelper \<Rightarrow> int option" where
  "loc_eng_dmn_conn_join_thelper h = (if child h = Child_ended then Some 0 else None)"

definition loc_eng_dmn_conn_loc_api_server_join :: "thelper \<Rightarrow> int option" where
  "loc_eng_dmn_conn_loc_api_server_join h = map_option (\<lambda>r. 0) (loc_eng_dmn_conn_join_thelper h)"

section \<open>What a thread leaves\<close>

definition server_names :: "server_data \<Rightarrow> string list" where
  "server_names s = [loc_api_q s, loc_api_resp_q s, QUIPC_CTRL_Q_PATH, MSAPM_CTRL_Q_PATH, MSAPU_CTRL_Q_PATH]"

text \<open>The calls of the thread, as the helper makes them, on the server's data.\<close>

definition server_call :: "os \<Rightarrow> callback \<times> int \<Rightarrow> server_data \<Rightarrow> server_data" where
  "server_call sys c s = (case fst c of
     Proc_init \<Rightarrow> snd (loc_api_server_proc_init sys s)
   | Proc_pre \<Rightarrow> snd (loc_api_server_proc_pre s)
   | Thread_proc \<Rightarrow> s
   | Proc_post \<Rightarrow> snd (loc_api_server_proc_post sys s))"

text \<open>The results of a run are those of the server's functions.\<close>

definition server_result :: "os \<Rightarrow> server_data \<Rightarrow> callback \<times> int \<Rightarrow> bool" where
  "server_result sys s c = (case fst c of
     Proc_init \<Rightarrow> snd c = fst (loc_api_server_proc_init sys s)
   | Proc_pre \<Rightarrow> snd c = fst (loc_api_server_proc_pre s)
   | _ \<Rightarrow> True)"

lemma free_fd_fresh: "free_fd p \<notin> fst ` set (fds p)"
proof -
  have "\<exists>n < Suc (length (fds p)). n \<notin> fst ` set (fds p)"
  proof (rule ccontr)
    assume "\<not> ?thesis"
    then have "{0..<Suc (length (fds p))} \<subseteq> fst ` set (fds p)" by auto
    from card_mono [OF _ this] have "Suc (length (fds p)) \<le> card (fst ` set (fds p))" by simp
    also have "\<dots> \<le> length (fds p)" using card_image_le [of "set (fds p)" fst] card_length [of "fds p"] by simp
    finally show False by simp
  qed
  then have "filter (\<lambda>n. n \<notin> fst ` set (fds p)) [0..<Suc (length (fds p))] \<noteq> []"
    by (auto simp: filter_empty_conv simp del: upt_Suc)
  then have "free_fd p \<in> set (filter (\<lambda>n. n \<notin> fst ` set (fds p)) [0..<Suc (length (fds p))])"
    unfolding free_fd_def by (rule hd_in_set)
  then show ?thesis by (simp del: upt_Suc)
qed

text \<open>Opening adds at most one descriptor, a new one, and touches no other name.\<close>

definition opens :: "string \<Rightarrow> int \<Rightarrow> pipes \<Rightarrow> pipes \<Rightarrow> bool" where
  "opens n r p p' =
     ((\<forall>m. m \<noteq> n \<longrightarrow> fifos p' m = fifos p m) \<and>
      (\<exists>new. fds p' = fds p @ new \<and> (\<forall>x \<in> set new. int (fst x) = r) \<and> (\<forall>x \<in> set (fds p). int (fst x) \<noteq> r)))"

lemma fds_chmod [simp]: "fds (chmod_fifo sys n p) = fds p" "fds (chown_fifo sys n p) = fds p"
  by (simp_all add: chmod_fifo_def chown_fifo_def split: option.split)

lemma fifos_chmod: "m \<noteq> n \<Longrightarrow> fifos (chmod_fifo sys n p) m = fifos p m \<and> fifos (chown_fifo sys n p) m = fifos p m"
  by (simp add: chmod_fifo_def chown_fifo_def split: option.split)

lemma pipeget_opens:
  assumes "loc_eng_dmn_conn_glue_msgget sys n p = (r, p')"
  shows "opens n r p p'"
proof -
  define p1 where "p1 = (if fifos p n = None
    then p\<lparr>fifos := (fifos p)(n \<mapsto> \<lparr>fmode = masked_mode sys, fgroup = None\<rparr>)\<rparr> else p)"
  define p2 where "p2 = chmod_fifo sys n p1"
  have same: "fds p2 = fds p" "\<And>m. m \<noteq> n \<Longrightarrow> fifos p2 m = fifos p m"
    by (simp_all add: p2_def p1_def fifos_chmod)
  have get: "(r, p') = (if fifos p n = None \<and> \<not> mkfifo_ok sys n then (-1, p)
      else if open_ok sys n then (int (free_fd p2), p2\<lparr>fds := fds p2 @ [(free_fd p2, n)]\<rparr>) else (-1, p2))"
    using assms unfolding loc_eng_dmn_conn_glue_msgget_def loc_eng_dmn_conn_glue_pipeget_def Let_def
      p1_def [symmetric] p2_def [symmetric] by (rule sym)
  consider (no) "r = -1" "p' = p" | (closed) "r = -1" "p' = p2"
    | (ok) "r = int (free_fd p2)" "p' = p2\<lparr>fds := fds p2 @ [(free_fd p2, n)]\<rparr>"
    using get that by (metis Pair_inject)
  then show ?thesis
  proof cases
    case ok
    have "\<forall>x \<in> set (fds p). int (fst x) \<noteq> r" using free_fd_fresh [of p2] ok(1) same(1) by force
    then show ?thesis using ok same by (auto simp: opens_def)
  qed (use same in \<open>auto simp: opens_def intro!: exI [of _ "[]"]\<close>)
qed

lemma opens_chmod: "opens n r p p' \<Longrightarrow> opens n r p (chown_fifo sys n (chmod_fifo sys n p'))"
  by (auto simp: opens_def fifos_chmod)

lemma opensE:
  assumes "opens n r p p'"
  obtains new where "fds p' = fds p @ new" "\<forall>x \<in> set new. int (fst x) = r" "\<forall>x \<in> set (fds p). int (fst x) \<noteq> r"
    "\<And>m. m \<noteq> n \<Longrightarrow> fifos p' m = fifos p m"
  using assms by (auto simp: opens_def)

lemma filter_id: "\<forall>x \<in> set xs. P x \<Longrightarrow> filter P xs = xs"
  by (induction xs) auto

definition removed :: "os \<Rightarrow> string \<Rightarrow> string set" where
  "removed sys n = (if unlink_ok sys n then {n} else {})"

lemma remove_pipes:
  "snd (loc_eng_dmn_conn_glue_msgremove sys n r p) =
     p\<lparr>fds := filter (\<lambda>x. int (fst x) \<noteq> r) (fds p), fifos := fifos p |` (- removed sys n)\<rparr>"
  by (cases p)
    (simp add: removed_def loc_eng_dmn_conn_glue_msgremove_def loc_eng_dmn_conn_glue_piperemove_def Let_def
      restrict_map_def fun_eq_iff)

lemma removed_names:
  "- removed sys (loc_api_q s) \<inter> - removed sys (loc_api_resp_q s) \<inter> - removed sys QUIPC_CTRL_Q_PATH \<inter>
     - removed sys MSAPM_CTRL_Q_PATH \<inter> - removed sys MSAPU_CTRL_Q_PATH =
   - set (filter (unlink_ok sys) (server_names s))"
  by (auto simp: server_names_def removed_def split: if_splits)

lemma post_pipes:
  "pipes_of (snd (loc_api_server_proc_post sys s)) =
     (pipes_of s)\<lparr>fds := filter (\<lambda>x. int (fst x) \<notin>
           {loc_api_server_msgqid s, loc_api_resp_msgqid s, quipc_msgqid s, msapm_msgqid s, msapu_msgqid s}) (fds (pipes_of s)),
         fifos := fifos (pipes_of s) |` (- set (filter (unlink_ok sys) (server_names s)))\<rparr>"
proof -
  have ids: "filter (\<lambda>x. int (fst x) \<noteq> e) (filter (\<lambda>x. int (fst x) \<noteq> d) (filter (\<lambda>x. int (fst x) \<noteq> c)
      (filter (\<lambda>x. int (fst x) \<noteq> b) (filter (\<lambda>x. int (fst x) \<noteq> a) xs)))) =
      filter (\<lambda>x. int (fst x) \<notin> {a, b, c, d, e}) xs" for a b c d e and xs :: "(nat \<times> string) list"
    by (induction xs) auto
  obtain f d where p: "pipes_of s = \<lparr>fifos = f, fds = d\<rparr>" by (cases "pipes_of s")
  show ?thesis unfolding loc_api_server_proc_post_def Let_def snd_conv remove_pipes p
    by (simp only: pipes.simps server_data.simps ids restrict_restrict removed_names) simp
qed

lemma init_then_post:
  assumes "list_all (unlink_ok sys) (server_names s)"
  defines "s1 \<equiv> snd (loc_api_server_proc_init sys s)"
  shows "pipes_of (snd (loc_api_server_proc_post sys s1)) =
    (pipes_of s)\<lparr>fifos := fifos (pipes_of s) |` (- set (server_names s))\<rparr>"
proof -
  let ?a = "loc_api_q s" and ?b = "loc_api_resp_q s"
  obtain q1 p1 where 1: "loc_eng_dmn_conn_glue_msgget sys ?a (pipes_of s) = (q1, p1)" by fastforce
  define p2 where "p2 = chown_fifo sys ?a (chmod_fifo sys ?a p1)"
  obtain q2 p3 where 2: "loc_eng_dmn_conn_glue_msgget sys ?b p2 = (q2, p3)" by fastforce
  define p4 where "p4 = chown_fifo sys ?b (chmod_fifo sys ?b p3)"
  obtain q3 p5 where 3: "loc_eng_dmn_conn_glue_msgget sys QUIPC_CTRL_Q_PATH p4 = (q3, p5)" by fastforce
  obtain q4 p6 where 4: "loc_eng_dmn_conn_glue_msgget sys MSAPM_CTRL_Q_PATH p5 = (q4, p6)" by fastforce
  obtain q5 p7 where 5: "loc_eng_dmn_conn_glue_msgget sys MSAPU_CTRL_Q_PATH p6 = (q5, p7)" by fastforce
  have s1: "s1 = s\<lparr>loc_api_server_msgqid := q1, loc_api_resp_msgqid := q2, quipc_msgqid := q3, msapm_msgqid := q4,
      msapu_msgqid := q5, pipes_of := p7\<rparr>"
    by (simp add: s1_def loc_api_server_proc_init_def 1 2 3 4 5 flip: p2_def p4_def)
  have o1: "opens ?a q1 (pipes_of s) p2" unfolding p2_def by (rule opens_chmod [OF pipeget_opens [OF 1]])
  have o2: "opens ?b q2 p2 p4" unfolding p4_def by (rule opens_chmod [OF pipeget_opens [OF 2]])
  note o3 = pipeget_opens [OF 3] and o4 = pipeget_opens [OF 4] and o5 = pipeget_opens [OF 5]
  obtain n1 where n1: "fds p2 = fds (pipes_of s) @ n1" "\<forall>x \<in> set n1. int (fst x) = q1"
    "\<forall>x \<in> set (fds (pipes_of s)). int (fst x) \<noteq> q1" using o1 by (rule opensE)
  obtain n2 where n2: "fds p4 = fds p2 @ n2" "\<forall>x \<in> set n2. int (fst x) = q2"
    "\<forall>x \<in> set (fds p2). int (fst x) \<noteq> q2" using o2 by (rule opensE)
  obtain n3 where n3: "fds p5 = fds p4 @ n3" "\<forall>x \<in> set n3. int (fst x) = q3"
    "\<forall>x \<in> set (fds p4). int (fst x) \<noteq> q3" using o3 by (rule opensE)
  obtain n4 where n4: "fds p6 = fds p5 @ n4" "\<forall>x \<in> set n4. int (fst x) = q4"
    "\<forall>x \<in> set (fds p5). int (fst x) \<noteq> q4" using o4 by (rule opensE)
  obtain n5 where n5: "fds p7 = fds p6 @ n5" "\<forall>x \<in> set n5. int (fst x) = q5"
    "\<forall>x \<in> set (fds p6). int (fst x) \<noteq> q5" using o5 by (rule opensE)
  let ?keep = "\<lambda>x :: nat \<times> string. int (fst x) \<notin> {q1, q2, q3, q4, q5}"
  have "filter ?keep (fds (pipes_of s)) = fds (pipes_of s)"
    by (rule filter_id) (use n1(1,3) n2(1,3) n3(1,3) n4(1,3) n5(3) in auto)
  moreover have "filter ?keep (n1 @ n2 @ n3 @ n4 @ n5) = []"
    using n1(2) n2(2) n3(2) n4(2) n5(2) by (auto simp: filter_empty_conv)
  ultimately have fds: "filter ?keep (fds p7) = fds (pipes_of s)" using n1(1) n2(1) n3(1) n4(1) n5(1) by simp
  have "fifos p7 m = fifos (pipes_of s) m" if "m \<notin> set (server_names s)" for m
    using that o1 o2 o3 o4 o5 by (simp add: server_names_def opens_def)
  then have fifos: "fifos p7 |` (- set (server_names s)) = fifos (pipes_of s) |` (- set (server_names s))"
    by (auto simp: restrict_map_def fun_eq_iff)
  have names: "server_names s1 = server_names s" by (simp add: s1 server_names_def)
  have "set (filter (unlink_ok sys) (server_names s)) = set (server_names s)" using assms(1) by (auto simp: list_all_iff)
  then show ?thesis using fds fifos names by (cases "pipes_of s") (simp add: post_pipes s1 Let_def)
qed

lemma calls_without_effect:
  "list_all (\<lambda>c. fst c = Thread_proc) ps \<Longrightarrow> fold (server_call sys) ps s = s"
  by (induction ps) (simp_all add: server_call_def)


definition plain_os :: os where
  "plain_os = \<lparr>mkfifo_ok = (\<lambda>n. True), chmod_ok = (\<lambda>n. True), open_ok = (\<lambda>n. True), chown_ok = (\<lambda>n. True),
     unlink_ok = (\<lambda>n. True), gps_gid = Some 1021, masked_mode = 432\<rparr>"

definition stale_pipes :: pipes where
  "stale_pipes = \<lparr>fifos = [QUIPC_CTRL_Q_PATH \<mapsto> \<lparr>fmode = 384, fgroup = None\<rparr>], fds = [(0, ''null''), (2, ''log'')]\<rparr>"


text \<open>The init function reports success even when no pipe could be opened.\<close>

lemma init_reports_success: "fst (loc_api_server_proc_init sys s) = 0"
  by (simp add: loc_api_server_proc_init_def split_def Let_def)

end
