(* ===== verification/Loc_Target.thy ===== *)
theory Loc_Target
  imports Loc_Cfg
begin

text \<open>
  Which positioning hardware the device has (\<open>src/gps/utils/loc_target.cpp\<close> and \<open>.h\<close>): the kinds of
  targets, and how one is told from the system properties and the files of the kernel.
\<close>

section \<open>The targets\<close>

definition GNSS_NONE :: uint32 where "GNSS_NONE = 0"
definition GNSS_MSM :: uint32 where "GNSS_MSM = 1"
definition GNSS_GSS :: uint32 where "GNSS_GSS = 2"
definition GNSS_MDM :: uint32 where "GNSS_MDM = 3"
definition GNSS_QCA1530 :: uint32 where "GNSS_QCA1530 = 4"
definition GNSS_AUTO :: uint32 where "GNSS_AUTO = 5"
definition GNSS_UNKNOWN :: uint32 where "GNSS_UNKNOWN = 6"

definition NO_SSC :: uint32 where "NO_SSC = 0"
definition HAS_SSC :: uint32 where "HAS_SSC = 1"

definition TARGET_SET :: "uint32 \<Rightarrow> uint32 \<Rightarrow> uint32" where
  "TARGET_SET gnss sensors = or (push_bit 1 gnss) sensors"

definition TARGET_DEFAULT :: uint32 where "TARGET_DEFAULT = TARGET_SET GNSS_MSM HAS_SSC"
definition TARGET_MDM :: uint32 where "TARGET_MDM = TARGET_SET GNSS_MDM HAS_SSC"
definition TARGET_APQ_SA :: uint32 where "TARGET_APQ_SA = TARGET_SET GNSS_GSS NO_SSC"
definition TARGET_MPQ :: uint32 where "TARGET_MPQ = TARGET_SET GNSS_NONE NO_SSC"
definition TARGET_MSM_NO_SSC :: uint32 where "TARGET_MSM_NO_SSC = TARGET_SET GNSS_MSM NO_SSC"
definition TARGET_QCA1530 :: uint32 where "TARGET_QCA1530 = TARGET_SET GNSS_QCA1530 NO_SSC"
definition TARGET_AUTO :: uint32 where "TARGET_AUTO = TARGET_SET GNSS_AUTO NO_SSC"
definition TARGET_UNKNOWN :: uint32 where "TARGET_UNKNOWN = TARGET_SET GNSS_UNKNOWN NO_SSC"

definition getTargetGnssType :: "uint32 \<Rightarrow> uint32" where
  "getTargetGnssType target = drop_bit 1 target"

text \<open>The target before one has been found: \<open>(unsigned int)-1\<close>.\<close>

definition no_target :: uint32 where "no_target = 0xFFFFFFFF"

section \<open>Detection\<close>

text \<open>
  What the platform says: the readings of the property \<open>sys.qca1530\<close>, one a second (\<open>None\<close> when it is
  not accessible), the base band, and the files of the kernel with their contents, if they can be
  opened.
\<close>

record platform =
  qca1530_readings :: "nat \<Rightarrow> string option"
  ro_baseband :: string
  accessible :: "string \<Rightarrow> bool"
  contents_of :: "string \<Rightarrow> string option"

definition QCA1530_DETECT_TIMEOUT :: nat where "QCA1530_DETECT_TIMEOUT = 15"
definition LINE_LEN :: nat where "LINE_LEN = 100"

function qca1530_loop :: "(nat \<Rightarrow> string option) \<Rightarrow> nat \<Rightarrow> bool" where
  "qca1530_loop readings i =
     (if i < QCA1530_DETECT_TIMEOUT
      then (case readings i of
              None \<Rightarrow> False
            | Some buf \<Rightarrow>
                if buf = ''yes'' then True
                else if buf = ''detect'' then qca1530_loop readings (i + 1) else False)
      else False)"
  by pat_completeness auto
termination by (relation "measure (\<lambda>(r, i). QCA1530_DETECT_TIMEOUT - i)") auto

declare qca1530_loop.simps [simp del]

definition is_qca1530 :: "platform \<Rightarrow> bool" where
  "is_qca1530 pf = qca1530_loop (qca1530_readings pf) 0"

text \<open>The first line of a file, with its end, in a buffer of \<open>line_size\<close> bytes.\<close>

definition read_a_line :: "string option \<Rightarrow> nat \<Rightarrow> int \<times> string" where
  "read_a_line file line_size =
     (case file of
        None \<Rightarrow> (-1, [])
      | Some s \<Rightarrow>
          (0, case fgets line_size s of
                None \<Rightarrow> [] | Some (line, rest) \<Rightarrow> takeWhile (\<lambda>c. c \<noteq> CHR 0x00) line))"

text \<open>\<open>memcmp\<close> with a constant, and the test for the end of the string behind it.\<close>

definition begins :: "string \<Rightarrow> string \<Rightarrow> bool" where
  "begins const s \<longleftrightarrow> take (length const) s = const"

definition is_str_end :: "string \<Rightarrow> nat \<Rightarrow> bool" where
  "is_str_end s i \<longleftrightarrow> i = length s \<or> i < length s \<and> s ! i \<in> {CHR 0x0A, CHR 0x0D}"

definition line_is :: "string \<Rightarrow> string \<Rightarrow> bool" where
  "line_is const s \<longleftrightarrow> begins const s \<and> is_str_end s (length const)"

definition soc_file :: "platform \<Rightarrow> string \<Rightarrow> string \<Rightarrow> string" where
  "soc_file pf name old =
     snd (read_a_line (contents_of pf (if accessible pf name then name else old)) LINE_LEN)"

text \<open>\<open>loc_get_target\<close>: from the value of \<open>gTarget\<close> to its new value, which is also the result.\<close>

definition loc_get_target :: "platform \<Rightarrow> uint32 \<Rightarrow> uint32" where
  "loc_get_target pf gTarget =
     (if gTarget \<noteq> no_target then gTarget
      else if is_qca1530 pf then TARGET_QCA1530
      else
        (let baseband = ro_baseband pf;
             rd_hw_platform = soc_file pf ''/sys/devices/soc0/hw_platform''
               ''/sys/devices/system/soc/soc0/hw_platform'';
             rd_id = soc_file pf ''/sys/devices/soc0/soc_id'' ''/sys/devices/system/soc/soc0/id''
         in if begins ''auto'' baseband then TARGET_AUTO
            else if begins ''apq'' baseband
            then (if line_is ''130'' rd_id then TARGET_MPQ else TARGET_APQ_SA)
            else if line_is ''Liquid'' rd_hw_platform \<or> line_is ''Surf'' rd_hw_platform \<or>
                    line_is ''MTP'' rd_hw_platform
            then (if fst (read_a_line (contents_of pf ''/dev/mdm'') LINE_LEN) = 0
                  then TARGET_MDM else gTarget)
            else if line_is ''142'' rd_id \<or> line_is ''116'' rd_id then TARGET_MSM_NO_SSC
            else TARGET_UNKNOWN))"

definition loc_identify_lean_target :: "string \<Rightarrow> bool" where
  "loc_identify_lean_target ro_lean \<longleftrightarrow> ro_lean = ''true''"

section \<open>What the detection gives\<close>

lemma qca1530_loop_eq:
  "qca1530_loop readings i \<longleftrightarrow>
     (\<exists>k. i \<le> k \<and> k < QCA1530_DETECT_TIMEOUT \<and> readings k = Some ''yes'' \<and>
        (\<forall>j. i \<le> j \<longrightarrow> j < k \<longrightarrow> readings j = Some ''detect''))"
proof (induction readings i rule: qca1530_loop.induct)
  case (1 readings i)
  let ?found = "\<lambda>i k. i \<le> k \<and> k < QCA1530_DETECT_TIMEOUT \<and> readings k = Some ''yes'' \<and>
        (\<forall>j. i \<le> j \<longrightarrow> j < k \<longrightarrow> readings j = Some ''detect'')"
  have split: "?found i k \<longleftrightarrow> k = i \<and> i < QCA1530_DETECT_TIMEOUT \<and> readings i = Some ''yes'' \<or>
      readings i = Some ''detect'' \<and> ?found (i + 1) k" for k
    by (auto simp: le_less Suc_le_eq) (metis Suc_lessI)
  show ?case
  proof (cases "i < QCA1530_DETECT_TIMEOUT \<and> readings i = Some ''detect''")
    case True
    then show ?thesis unfolding split using 1 by (subst qca1530_loop.simps) auto
  next
    case False
    then show ?thesis unfolding split by (subst qca1530_loop.simps) (auto split: option.split)
  qed
qed

text \<open>
  The chip is found exactly when one of the first fifteen readings says yes after readings that
  said that the detection was under way.
\<close>

lemma qca1530_found:
  "is_qca1530 pf \<longleftrightarrow>
     (\<exists>k < 15. qca1530_readings pf k = Some ''yes'' \<and> (\<forall>j < k. qca1530_readings pf j = Some ''detect''))"
  by (auto simp: is_qca1530_def qca1530_loop_eq QCA1530_DETECT_TIMEOUT_def)

lemmas target_defs = TARGET_DEFAULT_def TARGET_MDM_def TARGET_APQ_SA_def TARGET_MPQ_def TARGET_MSM_NO_SSC_def
  TARGET_QCA1530_def TARGET_AUTO_def TARGET_UNKNOWN_def TARGET_SET_def GNSS_NONE_def GNSS_MSM_def GNSS_GSS_def
  GNSS_MDM_def GNSS_QCA1530_def GNSS_AUTO_def GNSS_UNKNOWN_def NO_SSC_def HAS_SSC_def no_target_def

text \<open>The kind of hardware can be read off every target, and no target is the mark for none.\<close>

lemma gnss_of_target:
  assumes "gnss < 8" "sensors < 2"
  shows "getTargetGnssType (TARGET_SET gnss sensors) = gnss" "TARGET_SET gnss sensors \<noteq> no_target"
proof -
  have g: "unat gnss < 8" "unat sensors < 2" using assms by (simp_all add: word_less_nat_alt)
  have "gnss = of_nat (unat gnss)" "sensors = of_nat (unat sensors)" by simp_all
  moreover have "list_all (\<lambda>g. list_all (\<lambda>s. getTargetGnssType (TARGET_SET (of_nat g) (of_nat s)) = of_nat g \<and>
      TARGET_SET (of_nat g) (of_nat s) \<noteq> no_target) [0..<2]) [0..<8]" by code_simp
  then have "\<forall>g < 8. \<forall>s < 2. getTargetGnssType (TARGET_SET (of_nat g) (of_nat s)) = of_nat g \<and>
      TARGET_SET (of_nat g) (of_nat s) \<noteq> no_target"
    by (simp add: list_all_iff del: upt_rec_numeral)
  ultimately show "getTargetGnssType (TARGET_SET gnss sensors) = gnss" "TARGET_SET gnss sensors \<noteq> no_target"
    using g by metis+
qed

text \<open>
  Once a target has been found it stays, whatever the properties and files say later.  None is found
  only on a development board with a processor of another kind than APQ and without a modem; there the detection
  is repeated with every question.
\<close>

theorem target_found_once:
  "loc_get_target pf g \<noteq> no_target \<longleftrightarrow>
     \<not> (g = no_target \<and> \<not> is_qca1530 pf \<and> \<not> begins ''auto'' (ro_baseband pf) \<and> \<not> begins ''apq'' (ro_baseband pf) \<and>
        (\<exists>b \<in> {''Liquid'', ''Surf'', ''MTP''}. line_is b (soc_file pf ''/sys/devices/soc0/hw_platform''
           ''/sys/devices/system/soc/soc0/hw_platform'')) \<and> contents_of pf ''/dev/mdm'' = None)"
  "loc_get_target pf g \<noteq> no_target \<longrightarrow> loc_get_target pf' (loc_get_target pf g) = loc_get_target pf g"
proof -
  have ts: "TARGET_QCA1530 \<noteq> no_target" "TARGET_AUTO \<noteq> no_target" "TARGET_MPQ \<noteq> no_target"
    "TARGET_APQ_SA \<noteq> no_target" "TARGET_MDM \<noteq> no_target" "TARGET_MSM_NO_SSC \<noteq> no_target"
    "TARGET_UNKNOWN \<noteq> no_target"
    by (simp_all add: target_defs)
  have "fst (read_a_line f n) = 0 \<longleftrightarrow> f \<noteq> None" for f n
    by (simp add: read_a_line_def split: option.split)
  then show "loc_get_target pf g \<noteq> no_target \<longleftrightarrow>
     \<not> (g = no_target \<and> \<not> is_qca1530 pf \<and> \<not> begins ''auto'' (ro_baseband pf) \<and> \<not> begins ''apq'' (ro_baseband pf) \<and>
        (\<exists>b \<in> {''Liquid'', ''Surf'', ''MTP''}. line_is b (soc_file pf ''/sys/devices/soc0/hw_platform''
           ''/sys/devices/system/soc/soc0/hw_platform'')) \<and> contents_of pf ''/dev/mdm'' = None)"
    using ts by (simp add: loc_get_target_def Let_def)
  show "loc_get_target pf g \<noteq> no_target \<longrightarrow> loc_get_target pf' (loc_get_target pf g) = loc_get_target pf g"
    by (simp add: loc_get_target_def)
qed

end
