(* ===== verification/Loc_Nmea.thy ===== *)
theory Loc_Nmea
  imports Complex_Main Loc_Cfg
begin

text \<open>
  The NMEA sentences of \<open>src/gps/loc_api/libloc_api_50001/loc_eng_nmea.cpp\<close>: the position sentences
  GSA, VTG, RMC and GGA, the satellite sentences GSV, their checksums, and the values a satellite
  report keeps for the next position report.

  A number of type \<open>float\<close> or \<open>double\<close> is a rational, its arithmetic is exact, and there are no
  infinities; printing rounds to the nearest decimal, as \<open>printf\<close> does.  A string of the buffer
  \<open>sentence\<close> is what is in front of its first zero byte.
\<close>

section \<open>Printing\<close>

definition pad0 :: "nat \<Rightarrow> string \<Rightarrow> string" where
  "pad0 w s = replicate (w - length s) (CHR ''0'') @ s"

text \<open>The conversions \<open>%0wd\<close>, and \<open>%0w.kf\<close> with the sign in the width.\<close>

definition fmt_d :: "nat \<Rightarrow> int \<Rightarrow> string" where
  "fmt_d w i =
     (if i < 0 then ''-'' @ pad0 (w - 1) (print_dec (nat (- i))) else pad0 w (print_dec (nat i)))"

definition round_even :: "rat \<Rightarrow> int" where
  "round_even q =
     (let f = \<lfloor>q\<rfloor>; r = q - of_int f
      in if r < 1 / 2 \<or> (r = 1 / 2 \<and> even f) then f else f + 1)"

definition fmt_f :: "nat \<Rightarrow> nat \<Rightarrow> rat \<Rightarrow> string" where
  "fmt_f w k q =
     (let n = nat (round_even (\<bar>q\<bar> * 10 ^ k));
          body = print_dec (n div 10 ^ k) @ ''.'' @ pad0 k (print_dec (n mod 10 ^ k))
      in if q < 0 then ''-'' @ pad0 (w - 1) body else pad0 w body)"

text \<open>The conversion of a floating-point number to \<open>int\<close> drops the fraction.\<close>

definition drop_fraction :: "rat \<Rightarrow> int" where
  "drop_fraction q = (if q \<ge> 0 then \<lfloor>q\<rfloor> else \<lceil>q\<rceil>)"

definition hex_digit :: "nat \<Rightarrow> char" where
  "hex_digit d = ''0123456789ABCDEF'' ! d"

section \<open>The calendar\<close>

record tm =
  tm_year :: nat
  tm_mon :: nat
  tm_mday :: nat
  tm_hour :: nat
  tm_min :: nat
  tm_sec :: nat

definition leap :: "nat \<Rightarrow> bool" where
  "leap y \<longleftrightarrow> (4 dvd y \<and> \<not> 100 dvd y) \<or> 400 dvd y"

definition year_length :: "nat \<Rightarrow> nat" where
  "year_length y = (if leap y then 366 else 365)"

definition month_lengths :: "nat \<Rightarrow> nat list" where
  "month_lengths y = [31, if leap y then 29 else 28, 31, 30, 31, 30, 31, 31, 30, 31, 30, 31]"

function find_year :: "nat \<Rightarrow> nat \<Rightarrow> nat \<times> nat" where
  "find_year y d = (if d < year_length y then (y, d) else find_year (y + 1) (d - year_length y))"
  by pat_completeness auto
termination by (relation "measure snd") (auto simp: year_length_def split: if_splits)

declare find_year.simps [simp del]

fun find_month :: "nat list \<Rightarrow> nat \<Rightarrow> nat \<times> nat" where
  "find_month [] d = (0, d)"
| "find_month (n # ns) d =
     (if d < n then (0, d) else (let (m, d') = find_month ns (d - n) in (m + 1, d')))"

text \<open>
  \<open>gmtime\<close>.  A \<open>time_t\<close> has 32 bits, so the days are counted from the first of January 1901, and
  the result is never \<open>NULL\<close>.
\<close>

definition DAYS_1901_1970 :: int where "DAYS_1901_1970 = 25202"

definition gmtime :: "uint32 \<Rightarrow> tm" where
  "gmtime utcTime =
     (let t = sint utcTime;
          (y, yd) = find_year 1901 (nat (t div 86400 + DAYS_1901_1970));
          (m, md) = find_month (month_lengths y) yd;
          s = nat (t mod 86400)
      in \<lparr>tm_year = y - 1900, tm_mon = m, tm_mday = md + 1, tm_hour = s div 3600,
          tm_min = s mod 3600 div 60, tm_sec = s mod 60\<rparr>)"

section \<open>Data\<close>

record GpsLocation =
  loc_flags :: "16 word"
  latitude :: rat
  longitude :: rat
  altitude :: rat
  speed :: rat
  bearing :: rat
  timestamp :: int

record GpsLocationExtended =
  ext_flags :: "16 word"
  altitudeMeanSeaLevel :: rat
  ext_pdop :: rat
  ext_hdop :: rat
  ext_vdop :: rat
  magneticDeviation :: rat

record GpsSvInfo =
  prn :: int
  snr :: rat
  elevation :: rat
  azimuth :: rat

definition GPS_LOCATION_HAS_LAT_LONG :: "16 word" where "GPS_LOCATION_HAS_LAT_LONG = 0x0001"
definition GPS_LOCATION_HAS_ALTITUDE :: "16 word" where "GPS_LOCATION_HAS_ALTITUDE = 0x0002"
definition GPS_LOCATION_HAS_SPEED :: "16 word" where "GPS_LOCATION_HAS_SPEED = 0x0004"
definition GPS_LOCATION_HAS_BEARING :: "16 word" where "GPS_LOCATION_HAS_BEARING = 0x0008"
definition GPS_LOCATION_EXTENDED_HAS_DOP :: "16 word" where "GPS_LOCATION_EXTENDED_HAS_DOP = 0x0001"
definition GPS_LOCATION_EXTENDED_HAS_ALTITUDE_MEAN_SEA_LEVEL :: "16 word" where
  "GPS_LOCATION_EXTENDED_HAS_ALTITUDE_MEAN_SEA_LEVEL = 0x0002"
definition GPS_LOCATION_EXTENDED_HAS_MAG_DEV :: "16 word" where
  "GPS_LOCATION_EXTENDED_HAS_MAG_DEV = 0x0004"

definition has_flag :: "16 word \<Rightarrow> 16 word \<Rightarrow> bool" where
  "has_flag flags f \<longleftrightarrow> and flags f \<noteq> 0"

text \<open>
  The fields of \<open>loc_eng_data_s_type\<close> the sentences use: the callback of the client, the values
  kept from the satellite report, and the sentences sent with the lengths they are sent with.
\<close>

record nmea_state =
  has_nmea_cb :: bool
  sv_used_mask :: uint32
  pdop :: rat
  hdop :: rat
  vdop :: rat
  sent :: "(string \<times> nat) list"

section \<open>Sentences\<close>

definition NMEA_SENTENCE_MAX_LENGTH :: nat where "NMEA_SENTENCE_MAX_LENGTH = 200"

definition loc_eng_nmea_send :: "string \<times> nat \<Rightarrow> nmea_state \<Rightarrow> nmea_state" where
  "loc_eng_nmea_send s st = (if has_nmea_cb st then st\<lparr>sent := sent st @ [s]\<rparr> else st)"

definition checksum :: "string \<Rightarrow> uint8" where
  "checksum cs = fold (\<lambda>c x. xor x (of_char c)) cs 0"

text \<open>
  \<open>loc_eng_nmea_put_checksum\<close>: \<open>snprintf\<close> returns the length of what it should print, and prints
  what there is room for.
\<close>

definition checksum_field :: "uint8 \<Rightarrow> string" where
  "checksum_field x =
     [CHR ''*'', hex_digit (unat x div 16), hex_digit (unat x mod 16), CHR 0x0D, CHR 0x0A]"

definition loc_eng_nmea_put_checksum :: "string \<Rightarrow> nat \<Rightarrow> string \<times> nat" where
  "loc_eng_nmea_put_checksum pNmea maxSize =
     (let body = tl pNmea; len = length body; field = checksum_field (checksum body)
      in (pNmea @ take (maxSize - len - 1 - 1) field, len + length field))"

text \<open>
  The parts of a sentence are printed one after another.  All but the last are checked: a part
  that does not fit ends the function.
\<close>

fun put_parts :: "string \<Rightarrow> string list \<Rightarrow> string option" where
  "put_parts s [] = Some s"
| "put_parts s (p # ps) =
     (if length p \<ge> NMEA_SENTENCE_MAX_LENGTH - length s then None else put_parts (s @ p) ps)"

definition sentence :: "string list \<Rightarrow> string \<Rightarrow> (string \<times> nat) option" where
  "sentence parts final =
     (case put_parts [] parts of
        None \<Rightarrow> None
      | Some s \<Rightarrow>
          Some (loc_eng_nmea_put_checksum
            (s @ take (NMEA_SENTENCE_MAX_LENGTH - length s - 1) final) NMEA_SENTENCE_MAX_LENGTH))"

text \<open>Send sentences until one cannot be printed; the second result tells that all were sent.\<close>

fun send_until :: "(string \<times> nat) option list \<Rightarrow> nmea_state \<Rightarrow> bool \<times> nmea_state" where
  "send_until [] st = (True, st)"
| "send_until (None # xs) st = (False, st)"
| "send_until (Some s # xs) st = send_until xs (loc_eng_nmea_send s st)"

section \<open>The position sentences\<close>

function sv_used_list :: "uint32 \<Rightarrow> nat \<Rightarrow> nat list \<Rightarrow> nat list" where
  "sv_used_list m i svUsedList =
     (if 0 < m \<and> length svUsedList < 32
      then sv_used_list (drop_bit 1 m) (i + 1) (svUsedList @ (if and m 1 \<noteq> 0 then [i] else []))
      else svUsedList)"
  by pat_completeness auto
termination
proof (relation "measure (\<lambda>(m, i, l). unat m)", goal_cases)
  case (2 m i l)
  then have "0 < unat m" by (simp add: word_less_nat_alt)
  then have "unat (drop_bit 1 m) < unat m" by (simp only: unat_drop_bit_eq) (simp add: drop_bit_Suc)
  then show ?case by simp
qed simp

declare sv_used_list.simps [simp del]

definition gsa_sentence :: "nat list \<Rightarrow> GpsLocationExtended \<Rightarrow> nmea_state \<Rightarrow> (string \<times> nat) option" where
  "gsa_sentence svs ext st =
     sentence
       ((''$GPGSA,A,'' @
          (if svs = [] then ''1'' else if length svs \<le> 3 then ''2'' else ''3'') @ '','') #
        map (\<lambda>i. (if i < length svs then fmt_d 2 (int (svs ! i)) else []) @ '','') [0..<12])
       (if has_flag (ext_flags ext) GPS_LOCATION_EXTENDED_HAS_DOP
        then fmt_f 0 1 (ext_pdop ext) @ '','' @ fmt_f 0 1 (ext_hdop ext) @ '','' @ fmt_f 0 1 (ext_vdop ext)
        else if pdop st > 0 \<and> hdop st > 0 \<and> vdop st > 0
        then fmt_f 0 1 (pdop st) @ '','' @ fmt_f 0 1 (hdop st) @ '','' @ fmt_f 0 1 (vdop st)
        else '',,'')"

text \<open>
  The variable \<open>magTrack\<close> that is corrected by the magnetic deviation is local to the inner block;
  the one that is printed is the bearing.
\<close>

definition mode_indicator :: "bool \<Rightarrow> GpsLocation \<Rightarrow> string" where
  "mode_indicator standalone l =
     (if \<not> has_flag (loc_flags l) GPS_LOCATION_HAS_LAT_LONG then ''N''
      else if standalone then ''A'' else ''D'')"

definition vtg_sentence :: "bool \<Rightarrow> GpsLocation \<Rightarrow> (string \<times> nat) option" where
  "vtg_sentence standalone l =
     sentence
       [if has_flag (loc_flags l) GPS_LOCATION_HAS_BEARING
        then (let magTrack = bearing l
              in ''$GPVTG,'' @ fmt_f 0 1 (bearing l) @ '',T,'' @ fmt_f 0 1 magTrack @ '',M,'')
        else ''$GPVTG,,T,,M,'',
        if has_flag (loc_flags l) GPS_LOCATION_HAS_SPEED
        then fmt_f 0 1 (speed l * (3600 / 1852)) @ '',N,'' @ fmt_f 0 1 (speed l * (36 / 10)) @ '',K,''
        else '',N,,K,'']
       (mode_indicator standalone l)"

text \<open>The latitude and longitude in degrees and minutes, with their hemispheres.\<close>

definition as_uint8 :: "int \<Rightarrow> int" where
  "as_uint8 i = uint (word_of_int i :: uint8)"

definition minutes :: "rat \<Rightarrow> rat" where
  "minutes q = (let m = q * 60 in m - 60 * of_int \<lfloor>m / 60\<rfloor>)"

definition lat_long_field :: "GpsLocation \<Rightarrow> string" where
  "lat_long_field l =
     (if has_flag (loc_flags l) GPS_LOCATION_HAS_LAT_LONG
      then (let (lat, latHemisphere) =
                  (if latitude l > 0 then (latitude l, ''N'') else (latitude l * (- 1), ''S''));
                (lon, lonHemisphere) =
                  (if longitude l < 0 then (longitude l * (- 1), ''W'') else (longitude l, ''E''))
            in fmt_d 2 (as_uint8 \<lfloor>lat\<rfloor>) @ fmt_f 9 6 (minutes lat) @ '','' @ latHemisphere @ '','' @
               fmt_d 3 (as_uint8 \<lfloor>lon\<rfloor>) @ fmt_f 9 6 (minutes lon) @ '','' @ lonHemisphere @ '','')
      else '',,,,'')"

definition time_field :: "tm \<Rightarrow> string" where
  "time_field t = fmt_d 2 (int (tm_hour t)) @ fmt_d 2 (int (tm_min t)) @ fmt_d 2 (int (tm_sec t))"

definition date_field :: "tm \<Rightarrow> string" where
  "date_field t =
     fmt_d 2 (int (tm_mday t)) @ fmt_d 2 (int (tm_mon t + 1)) @ fmt_d 2 (int (tm_year t mod 100))"

definition rmc_sentence ::
  "tm \<Rightarrow> bool \<Rightarrow> GpsLocation \<Rightarrow> GpsLocationExtended \<Rightarrow> (string \<times> nat) option" where
  "rmc_sentence t standalone l ext =
     sentence
       [''$GPRMC,'' @ time_field t @ '',A,'',
        lat_long_field l,
        (if has_flag (loc_flags l) GPS_LOCATION_HAS_SPEED
         then fmt_f 0 1 (speed l * (3600 / 1852)) @ '','' else '',''),
        (if has_flag (loc_flags l) GPS_LOCATION_HAS_BEARING then fmt_f 0 1 (bearing l) @ '','' else '',''),
        date_field t @ '','',
        (if has_flag (ext_flags ext) GPS_LOCATION_EXTENDED_HAS_MAG_DEV
         then (if magneticDeviation ext < 0
               then fmt_f 0 1 (magneticDeviation ext * (- 1)) @ '',W,''
               else fmt_f 0 1 (magneticDeviation ext) @ '',E,'')
         else '',,'')]
       (mode_indicator standalone l)"

definition gga_sentence ::
  "tm \<Rightarrow> bool \<Rightarrow> nat \<Rightarrow> GpsLocation \<Rightarrow> GpsLocationExtended \<Rightarrow> nmea_state \<Rightarrow> (string \<times> nat) option" where
  "gga_sentence t standalone svUsedCount l ext st =
     sentence
       [''$GPGGA,'' @ time_field t @ '','',
        lat_long_field l,
        (let gpsQuality = (if \<not> has_flag (loc_flags l) GPS_LOCATION_HAS_LAT_LONG then ''0''
                           else if standalone then ''1'' else ''2'')
         in gpsQuality @ '','' @ fmt_d 2 (int svUsedCount) @ '','' @
            (if has_flag (ext_flags ext) GPS_LOCATION_EXTENDED_HAS_DOP then fmt_f 0 1 (ext_hdop ext)
             else if pdop st > 0 \<and> hdop st > 0 \<and> vdop st > 0 then fmt_f 0 1 (hdop st)
             else []) @ '',''),
        (if has_flag (ext_flags ext) GPS_LOCATION_EXTENDED_HAS_ALTITUDE_MEAN_SEA_LEVEL
         then fmt_f 0 1 (altitudeMeanSeaLevel ext) @ '',M,'' else '',,'')]
       (if has_flag (loc_flags l) GPS_LOCATION_HAS_ALTITUDE \<and>
           has_flag (ext_flags ext) GPS_LOCATION_EXTENDED_HAS_ALTITUDE_MEAN_SEA_LEVEL
        then fmt_f 0 1 (altitude l - altitudeMeanSeaLevel ext) @ '',M,,'' else '',,,'')"

definition blank_sentences :: "(string \<times> nat) list" where
  "blank_sentences =
     map (\<lambda>s. loc_eng_nmea_put_checksum s NMEA_SENTENCE_MAX_LENGTH)
       [''$GPGSA,A,1,,,,,,,,,,,,,,,'', ''$GPVTG,,T,,M,,N,,K,N'', ''$GPRMC,,V,,,,,,,,,,N'',
        ''$GPGGA,,,,,,0,,,,,,,,'']"

text \<open>
  \<open>loc_eng_nmea_generate_pos\<close>.  The mask is cleared when the list has been made; the dilutions are
  cleared at the end, which a sentence that does not fit does not reach.
\<close>

definition utc_seconds :: "GpsLocation \<Rightarrow> uint32" where
  "utc_seconds l =
     word_of_int (if timestamp l \<ge> 0 then timestamp l div 1000 else - (- timestamp l div 1000))"

definition clear_dop :: "nmea_state \<Rightarrow> nmea_state" where
  "clear_dop st = st\<lparr>pdop := 0, hdop := 0, vdop := 0\<rparr>"

definition loc_eng_nmea_generate_pos ::
  "bool \<Rightarrow> GpsLocation \<Rightarrow> GpsLocationExtended \<Rightarrow> bool \<Rightarrow> nmea_state \<Rightarrow> nmea_state" where
  "loc_eng_nmea_generate_pos standalone l ext generate_nmea st =
     (if generate_nmea
      then
        (let t = gmtime (utc_seconds l);
             svs = sv_used_list (sv_used_mask st) 1 [];
             st1 = st\<lparr>sv_used_mask := 0\<rparr>;
             (all, st2) = send_until
               [gsa_sentence svs ext st1, vtg_sentence standalone l, rmc_sentence t standalone l ext,
                gga_sentence t standalone (length svs) l ext st1] st1
         in if all then clear_dop st2 else st2)
      else clear_dop (fold loc_eng_nmea_send blank_sentences st))"

section \<open>The satellite sentences\<close>

definition GPS_PRN_START :: int where "GPS_PRN_START = 1"
definition GPS_PRN_END :: int where "GPS_PRN_END = 32"
definition GLONASS_PRN_START :: int where "GLONASS_PRN_START = 65"
definition GLONASS_PRN_END :: int where "GLONASS_PRN_END = 96"

definition is_gps :: "GpsSvInfo \<Rightarrow> bool" where
  "is_gps v \<longleftrightarrow> prn v \<ge> GPS_PRN_START \<and> prn v \<le> GPS_PRN_END"

definition is_glonass :: "GpsSvInfo \<Rightarrow> bool" where
  "is_glonass v \<longleftrightarrow> prn v \<ge> GLONASS_PRN_START \<and> prn v \<le> GLONASS_PRN_END"

fun count_svs :: "GpsSvInfo list \<Rightarrow> nat \<times> nat \<Rightarrow> nat \<times> nat" where
  "count_svs [] c = c"
| "count_svs (v # vs) (gpsCount, glnCount) =
     count_svs vs (if is_gps v then (gpsCount + 1, glnCount)
                   else if is_glonass v then (gpsCount, glnCount + 1) else (gpsCount, glnCount))"

definition sv_parts :: "GpsSvInfo \<Rightarrow> string list" where
  "sv_parts v =
     ('','' @ fmt_d 2 (prn v) @ '','' @ fmt_d 2 (drop_fraction (1 / 2 + elevation v)) @ '','' @
        fmt_d 3 (drop_fraction (1 / 2 + azimuth v)) @ '','') #
     (if snr v > 0 then [fmt_d 2 (drop_fraction (1 / 2 + snr v))] else [])"

text \<open>The inner loop prints satellites until there are four in the sentence.\<close>

fun gsv_fill ::
  "(GpsSvInfo \<Rightarrow> bool) \<Rightarrow> nat \<Rightarrow> GpsSvInfo list \<Rightarrow> string \<Rightarrow> (string \<times> GpsSvInfo list) option" where
  "gsv_fill sel i [] s = Some (s, [])"
| "gsv_fill sel i (v # vs) s =
     (if i < 4
      then (if sel v
            then (case put_parts s (sv_parts v) of
                    None \<Rightarrow> None
                  | Some s' \<Rightarrow> gsv_fill sel (i + 1) vs s')
            else gsv_fill sel i vs s)
      else Some (s, v # vs))"

function gsv_loop ::
  "(GpsSvInfo \<Rightarrow> bool) \<Rightarrow> string \<Rightarrow> nat \<Rightarrow> nat \<Rightarrow> nat \<Rightarrow> GpsSvInfo list \<Rightarrow> nmea_state \<Rightarrow> bool \<times> nmea_state"
where
  "gsv_loop sel talker svs_in_view sentenceCount sentenceNumber vs st =
     (if sentenceNumber \<le> sentenceCount
      then
        (case put_parts []
                [talker @ fmt_d 0 (int sentenceCount) @ '','' @ fmt_d 0 (int sentenceNumber) @ '','' @
                 fmt_d 2 (int svs_in_view)] of
           None \<Rightarrow> (False, st)
         | Some s \<Rightarrow>
             (case gsv_fill sel 0 vs s of
                None \<Rightarrow> (False, st)
              | Some (s', vs') \<Rightarrow>
                  gsv_loop sel talker svs_in_view sentenceCount (sentenceNumber + 1) vs'
                    (loc_eng_nmea_send (loc_eng_nmea_put_checksum s' NMEA_SENTENCE_MAX_LENGTH) st)))
      else (True, st))"
  by pat_completeness auto
termination
  by (relation "measure (\<lambda>(sel, talker, n, count, number, vs, st). count + 1 - number)") auto

declare gsv_loop.simps [simp del]

definition gsv_sentences ::
  "(GpsSvInfo \<Rightarrow> bool) \<Rightarrow> string \<Rightarrow> nat \<Rightarrow> GpsSvInfo list \<Rightarrow> nmea_state \<Rightarrow> bool \<times> nmea_state" where
  "gsv_sentences sel talker n vs st =
     (if n = 0
      then (True, loc_eng_nmea_send
              (loc_eng_nmea_put_checksum (talker @ ''1,1,0,'') NMEA_SENTENCE_MAX_LENGTH) st)
      else gsv_loop sel talker n (n div 4 + (if n mod 4 \<noteq> 0 then 1 else 0)) 1 vs st)"

definition loc_eng_nmea_generate_sv ::
  "GpsSvInfo list \<Rightarrow> uint32 \<Rightarrow> GpsLocationExtended \<Rightarrow> nmea_state \<Rightarrow> nmea_state" where
  "loc_eng_nmea_generate_sv sv_list gps_used_in_fix_mask ext st =
     (let (gpsCount, glnCount) = count_svs sv_list (0, 0);
          (ok1, st1) = gsv_sentences is_gps ''$GPGSV,'' gpsCount sv_list st
      in if \<not> ok1 then st1
         else
           (let (ok2, st2) = gsv_sentences is_glonass ''$GLGSV,'' glnCount sv_list st1
            in if \<not> ok2 then st2
               else
                 (let st3 = st2\<lparr>sv_used_mask := gps_used_in_fix_mask\<rparr>
                  in if has_flag (ext_flags ext) GPS_LOCATION_EXTENDED_HAS_DOP
                     then st3\<lparr>pdop := ext_pdop ext, hdop := ext_hdop ext, vdop := ext_vdop ext\<rparr>
                     else clear_dop st3)))"

section \<open>Checksums\<close>

text \<open>
  A receiver of NMEA: a sentence is a dollar sign, a body without an asterisk, and the checksum of the
  body, with the line end.
\<close>

definition nmea_receive :: "string \<Rightarrow> string option" where
  "nmea_receive s =
     (case s of
        [] \<Rightarrow> None
      | c # r \<Rightarrow>
          (let body = takeWhile (\<lambda>c. c \<noteq> CHR ''*'') r
           in if c = CHR ''$'' \<and> dropWhile (\<lambda>c. c \<noteq> CHR ''*'') r = checksum_field (checksum body)
              then Some body else None))"

text \<open>What may be sent: the length that is passed leaves out the dollar sign.\<close>

definition nmea_sent_ok :: "string \<times> nat \<Rightarrow> bool" where
  "nmea_sent_ok x \<longleftrightarrow>
     (if snd x < NMEA_SENTENCE_MAX_LENGTH - 1
      then nmea_receive (fst x) = Some (take (length (fst x) - 6) (tl (fst x))) \<and> snd x + 1 = length (fst x)
      else length (fst x) = NMEA_SENTENCE_MAX_LENGTH - 1)"

text \<open>The characters of a sentence in front of its checksum.\<close>

definition plain :: "string \<Rightarrow> bool" where
  "plain s \<longleftrightarrow> CHR ''*'' \<notin> set s"

lemma plain_simps [simp]:
  "plain []" "plain (c # s) \<longleftrightarrow> c \<noteq> CHR ''*'' \<and> plain s" "plain (s @ t) \<longleftrightarrow> plain s \<and> plain t"
  "plain (if b then s else t) \<longleftrightarrow> (if b then plain s else plain t)"
  by (auto simp: plain_def)

lemma plain_take: "plain s \<Longrightarrow> plain (take n s)"
  by (auto simp: plain_def dest: in_set_takeD)

lemma length_checksum_field [simp]: "length (checksum_field x) = 5"
  by (simp add: checksum_field_def)

lemma put_checksum_ok:
  assumes "plain s" "length s < NMEA_SENTENCE_MAX_LENGTH - 1"
  shows "nmea_sent_ok (loc_eng_nmea_put_checksum (CHR ''$'' # s) NMEA_SENTENCE_MAX_LENGTH)"
proof -
  let ?f = "checksum_field (checksum s)" let ?N = "NMEA_SENTENCE_MAX_LENGTH"
  have put: "loc_eng_nmea_put_checksum (CHR ''$'' # s) ?N = (CHR ''$'' # s @ take (?N - length s - 2) ?f, length s + 5)"
    by (simp add: loc_eng_nmea_put_checksum_def Let_def)
  show ?thesis
  proof (cases "length s + 5 < ?N - 1")
    case True
    obtain t where f: "?f = CHR ''*'' # t" by (simp add: checksum_field_def)
    have all: "take (?N - length s - 2) ?f = ?f" using True by simp
    have "takeWhile (\<lambda>c. c \<noteq> CHR ''*'') (s @ ?f) = s" "dropWhile (\<lambda>c. c \<noteq> CHR ''*'') (s @ ?f) = ?f"
      using assms(1) by (auto simp: f plain_def takeWhile_append dropWhile_append)
    then show ?thesis unfolding put all using True
      by (simp add: nmea_sent_ok_def nmea_receive_def Let_def)
  next
    case False
    then show ?thesis unfolding put using assms(2) by (simp add: nmea_sent_ok_def)
  qed
qed

lemma plain_number [simp]: "plain (print_dec n)"
  using print_dec_digits(2) [of "CHR ''*''" n] by (auto simp: plain_def dec_digit_def)

lemma plain_replicate [simp]: "plain (replicate n (CHR ''0''))"
  by (simp add: plain_def)

lemma plain_fmt [simp]: "plain (pad0 w s) \<longleftrightarrow> plain s" "plain (fmt_d w i)" "plain (fmt_f w k q)"
  by (simp_all add: pad0_def fmt_d_def fmt_f_def Let_def)

lemma put_parts_Some:
  "put_parts s ps = Some t \<Longrightarrow> length s < NMEA_SENTENCE_MAX_LENGTH \<Longrightarrow>
   t = s @ concat ps \<and> length t < NMEA_SENTENCE_MAX_LENGTH"
proof (induction ps arbitrary: s)
  case (Cons p ps)
  then have p: "length p < NMEA_SENTENCE_MAX_LENGTH - length s" and put: "put_parts (s @ p) ps = Some t"
    by (simp_all split: if_splits)
  have "length (s @ p) < NMEA_SENTENCE_MAX_LENGTH" using p by simp
  from Cons.IH [OF put this] show ?case by auto
qed simp

lemma sentence_ok:
  assumes "sentence ps final = Some x" "hd_opt (concat ps) = Some (CHR ''$'')" "plain (concat ps)"
    "plain final"
  shows "nmea_sent_ok x"
proof -
  let ?N = "NMEA_SENTENCE_MAX_LENGTH"
  obtain s where s: "put_parts [] ps = Some s"
    and x: "x = loc_eng_nmea_put_checksum (s @ take (?N - length s - 1) final) ?N"
    using assms(1) by (auto simp: sentence_def split: option.splits)
  obtain r where r: "concat ps = CHR ''$'' # r" using assms(2) by auto
  have "length [] < ?N" by (simp add: NMEA_SENTENCE_MAX_LENGTH_def)
  from put_parts_Some [OF s this] have s': "s = CHR ''$'' # r" "length r + 1 < ?N" by (auto simp: r)
  have "nmea_sent_ok (loc_eng_nmea_put_checksum (CHR ''$'' # (r @ take (?N - length s - 1) final)) ?N)"
  proof (rule put_checksum_ok)
    show "plain (r @ take (?N - length s - 1) final)" using assms(3,4) plain_take by (simp add: r)
    show "length (r @ take (?N - length s - 1) final) < ?N - 1" using s' by simp
  qed
  then show ?thesis by (simp add: x s'(1))
qed

definition sent_ok :: "nmea_state \<Rightarrow> bool" where
  "sent_ok st \<longleftrightarrow> list_all nmea_sent_ok (sent st)"

lemma sent_ok_send: "nmea_sent_ok s \<Longrightarrow> sent_ok st \<Longrightarrow> sent_ok (loc_eng_nmea_send s st)"
  by (simp add: sent_ok_def loc_eng_nmea_send_def)

lemma sent_ok_until:
  assumes "\<And>s. Some s \<in> set xs \<Longrightarrow> nmea_sent_ok s" "sent_ok st"
  shows "sent_ok (snd (send_until xs st))"
  using assms
proof (induction xs st rule: send_until.induct)
  case (3 s xs st)
  then show ?case using sent_ok_send [of s st] by simp
qed simp_all

lemma sent_ok_clear: "sent_ok (clear_dop st) \<longleftrightarrow> sent_ok st" "sent_ok (st\<lparr>sv_used_mask := m\<rparr>) \<longleftrightarrow> sent_ok st"
  "sent_ok (st\<lparr>pdop := p, hdop := h, vdop := v\<rparr>) \<longleftrightarrow> sent_ok st"
  by (simp_all add: sent_ok_def clear_dop_def)

lemma plain_fields: "plain (time_field t)" "plain (date_field t)" "plain (lat_long_field l)"
  "plain (mode_indicator b l)"
  by (simp_all add: time_field_def date_field_def lat_long_field_def mode_indicator_def Let_def)

lemma gsa_ok: "gsa_sentence svs ext st = Some x \<Longrightarrow> nmea_sent_ok x"
  unfolding gsa_sentence_def
proof (erule sentence_ok)
  let ?g = "\<lambda>i. (if i < length svs then fmt_d 2 (int (svs ! i)) else []) @ '',''"
  have "plain (concat (map ?g xs))" for xs by (induction xs) auto
  then show "plain (concat ((''$GPGSA,A,'' @ (if svs = [] then ''1'' else if length svs \<le> 3 then ''2''
      else ''3'') @ '','') # map ?g [0..<12]))" by simp
qed simp_all

lemma vtg_ok: "vtg_sentence b l = Some x \<Longrightarrow> nmea_sent_ok x"
  unfolding vtg_sentence_def Let_def by (erule sentence_ok) (simp_all add: plain_fields)

lemma rmc_ok: "rmc_sentence t b l ext = Some x \<Longrightarrow> nmea_sent_ok x"
  unfolding rmc_sentence_def by (erule sentence_ok) (simp_all add: plain_fields)

lemma gga_ok: "gga_sentence t b n l ext st = Some x \<Longrightarrow> nmea_sent_ok x"
  unfolding gga_sentence_def Let_def by (erule sentence_ok) (simp_all add: plain_fields)

lemma blank_ok: "list_all nmea_sent_ok blank_sentences"
  by code_simp

lemma generate_pos_ok:
  assumes "sent_ok st"
  shows "sent_ok (loc_eng_nmea_generate_pos b l ext g st)"
proof (cases g)
  case True
  define svs where "svs = sv_used_list (sv_used_mask st) 1 []"
  define st1 where "st1 = st\<lparr>sv_used_mask := 0\<rparr>"
  define t where "t = gmtime (utc_seconds l)"
  let ?xs = "[gsa_sentence svs ext st1, vtg_sentence b l, rmc_sentence t b l ext,
    gga_sentence t b (length svs) l ext st1]"
  have "sent_ok (snd (send_until ?xs st1))"
  proof (rule sent_ok_until)
    show "nmea_sent_ok s" if "Some s \<in> set ?xs" for s
      using that by (simp del: split_paired_All)
        (elim disjE; drule sym; erule gsa_ok vtg_ok rmc_ok gga_ok)
    show "sent_ok st1" using assms by (simp add: st1_def sent_ok_clear)
  qed
  moreover have "loc_eng_nmea_generate_pos b l ext g st =
      (if fst (send_until ?xs st1) then clear_dop (snd (send_until ?xs st1)) else snd (send_until ?xs st1))"
    using True by (simp only: loc_eng_nmea_generate_pos_def Let_def svs_def st1_def t_def case_prod_beta if_True)
  ultimately show ?thesis by (simp add: sent_ok_clear)
next
  case False
  have "sent_ok (fold loc_eng_nmea_send xs st)" if "list_all nmea_sent_ok xs" "sent_ok st" for xs st
    using that by (induction xs arbitrary: st) (simp_all add: sent_ok_send)
  from this [OF blank_ok assms] show ?thesis
    using False by (simp add: loc_eng_nmea_generate_pos_def sent_ok_clear)
qed

lemma plain_sv_parts: "plain (concat (sv_parts v))"
  by (simp add: sv_parts_def)

lemma gsv_fill_ok:
  assumes "gsv_fill sel i vs (CHR ''$'' # s) = Some (s', vs')" "plain s" "length s < NMEA_SENTENCE_MAX_LENGTH - 1"
  shows "\<exists>r. s' = CHR ''$'' # r \<and> plain r \<and> length r < NMEA_SENTENCE_MAX_LENGTH - 1"
  using assms
proof (induction vs arbitrary: i s)
  case (Cons v vs)
  show ?case
  proof (cases "i < 4 \<and> sel v")
    case True
    then obtain t where t: "put_parts (CHR ''$'' # s) (sv_parts v) = Some t"
      and fill: "gsv_fill sel (i + 1) vs t = Some (s', vs')"
      using Cons.prems(1) by (auto split: option.splits)
    have "length (CHR ''$'' # s) < NMEA_SENTENCE_MAX_LENGTH" using Cons.prems(3) by simp
    note parts = put_parts_Some [OF t this]
    have t': "t = CHR ''$'' # (s @ concat (sv_parts v))" using parts [THEN conjunct1] by simp
    note short = parts [THEN conjunct2]
    show ?thesis
    proof (rule Cons.IH)
      show "gsv_fill sel (i + 1) vs (CHR ''$'' # (s @ concat (sv_parts v))) = Some (s', vs')"
        using fill t' by simp
      show "plain (s @ concat (sv_parts v))" using Cons.prems(2) plain_sv_parts by simp
      show "length (s @ concat (sv_parts v)) < NMEA_SENTENCE_MAX_LENGTH - 1"
        using short unfolding t' by simp
    qed
  next
    case False
    then show ?thesis using Cons by (auto split: if_splits)
  qed
qed auto

lemma gsv_loop_ok:
  assumes "sent_ok st" "plain talker"
  shows "sent_ok (snd (gsv_loop sel (CHR ''$'' # talker) n count number vs st))"
  using assms(1)
proof (induction "count + 1 - number" arbitrary: number vs st rule: less_induct)
  case less
  let ?T = "CHR ''$'' # talker"
  let ?h = "talker @ fmt_d 0 (int count) @ '','' @ fmt_d 0 (int number) @ '','' @ fmt_d 2 (int n)"
  show ?case
  proof (cases "number \<le> count \<and> length ?h < NMEA_SENTENCE_MAX_LENGTH - 1")
    case True
    then have "length ?h + 1 < NMEA_SENTENCE_MAX_LENGTH" by linarith
    then have put: "put_parts [] [?T @ fmt_d 0 (int count) @ '','' @ fmt_d 0 (int number) @ '','' @ fmt_d 2 (int n)]
        = Some (CHR ''$'' # ?h)" by (simp add: not_le)
    show ?thesis
    proof (cases "gsv_fill sel 0 vs (CHR ''$'' # ?h)")
      case None
      then show ?thesis using less.prems True by (subst gsv_loop.simps) (simp only: put if_True option.case snd_conv)
    next
      case (Some p)
      obtain s' vs' where p: "p = (s', vs')" by fastforce
      have h: "plain ?h" using assms(2) by simp
      from gsv_fill_ok [OF Some [unfolded p] h] True obtain r
        where r: "s' = CHR ''$'' # r" "plain r" "length r < NMEA_SENTENCE_MAX_LENGTH - 1" by blast
      have "sent_ok (loc_eng_nmea_send (loc_eng_nmea_put_checksum s' NMEA_SENTENCE_MAX_LENGTH) st)"
        using put_checksum_ok [OF r(2,3)] less.prems r(1) by (simp add: sent_ok_send)
      moreover have "count + 1 - (number + 1) < count + 1 - number" using True by linarith
      ultimately have "sent_ok (snd (gsv_loop sel ?T n count (number + 1) vs'
          (loc_eng_nmea_send (loc_eng_nmea_put_checksum s' NMEA_SENTENCE_MAX_LENGTH) st)))"
        using less.hyps by blast
      then show ?thesis using True
        by (subst gsv_loop.simps) (simp only: put Some p if_True option.case case_prod_conv)
    qed
  next
    case False
    then show ?thesis using less.prems by (subst gsv_loop.simps) auto
  qed
qed

lemma gsv_sentences_ok:
  "sent_ok st \<Longrightarrow> plain talker \<Longrightarrow> length talker + 7 < NMEA_SENTENCE_MAX_LENGTH - 1 \<Longrightarrow>
   sent_ok (snd (gsv_sentences sel (CHR ''$'' # talker) n vs st))"
  unfolding gsv_sentences_def by (simp add: gsv_loop_ok sent_ok_send put_checksum_ok)

lemma generate_sv_ok:
  assumes "sent_ok st"
  shows "sent_ok (loc_eng_nmea_generate_sv svs m ext st)"
proof -
  obtain a b where c: "count_svs svs (0, 0) = (a, b)" by fastforce
  obtain ok1 st1 where 1: "gsv_sentences is_gps ''$GPGSV,'' a svs st = (ok1, st1)" by fastforce
  obtain ok2 st2 where 2: "gsv_sentences is_glonass ''$GLGSV,'' b svs st1 = (ok2, st2)" by fastforce
  have "sent_ok st1"
    using gsv_sentences_ok [OF assms, of "''GPGSV,''" is_gps a svs] 1 by (simp add: NMEA_SENTENCE_MAX_LENGTH_def)
  then have "sent_ok st2"
    using gsv_sentences_ok [of st1 "''GLGSV,''" is_glonass b svs] 2 by (simp add: NMEA_SENTENCE_MAX_LENGTH_def)
  with \<open>sent_ok st1\<close> show ?thesis
    unfolding loc_eng_nmea_generate_sv_def c 1 2 Let_def case_prod_conv by (simp add: sent_ok_clear)
qed

text \<open>The reports of an engine, in any order.\<close>

datatype nmea_report =
  Pos_report bool GpsLocation GpsLocationExtended bool | Sv_report "GpsSvInfo list" uint32 GpsLocationExtended

fun nmea_apply :: "nmea_report \<Rightarrow> nmea_state \<Rightarrow> nmea_state" where
  "nmea_apply (Pos_report standalone l ext g) = loc_eng_nmea_generate_pos standalone l ext g"
| "nmea_apply (Sv_report svs m ext) = loc_eng_nmea_generate_sv svs m ext"

definition nmea_start :: "bool \<Rightarrow> nmea_state" where
  "nmea_start cb =
     \<lparr>has_nmea_cb = cb, sv_used_mask = 0, pdop = 0, hdop = 0, vdop = 0, sent = []\<rparr>"

lemma nmea_run_ok: "sent_ok st \<Longrightarrow> sent_ok (fold nmea_apply rs st)"
proof (induction rs arbitrary: st)
  case (Cons r rs)
  have "sent_ok (nmea_apply r st)"
    using Cons.prems by (cases r) (simp_all add: generate_pos_ok generate_sv_ok)
  then show ?case using Cons.IH by simp
qed simp

text \<open>
  C16: After any reports, every sentence that was sent is one a receiver accepts, with the checksum of
  its body, or it has filled the buffer.  The length that is passed with it is one less than the length of the
  sentence: it does not count the dollar sign, so a client that takes it drops the line feed.
\<close>

theorem nmea_sentences_valid:
  "list_all nmea_sent_ok (sent (fold nmea_apply reports (nmea_start cb)))"
  using nmea_run_ok [of "nmea_start cb" reports] by (simp add: sent_ok_def nmea_start_def)

section \<open>The pages of the satellite sentences\<close>

text \<open>A reference: the satellites of a constellation four by four, one sentence for each four.\<close>

fun chunks4 :: "'a list \<Rightarrow> 'a list list" where
  "chunks4 [] = []"
| "chunks4 (x # xs) = (x # take 3 xs) # chunks4 (drop 3 xs)"

definition gsv_page :: "string \<Rightarrow> nat \<Rightarrow> nat \<Rightarrow> nat \<times> GpsSvInfo list \<Rightarrow> string \<times> nat" where
  "gsv_page talker count n = (\<lambda>(k, page).
     loc_eng_nmea_put_checksum
       (talker @ fmt_d 0 (int count) @ '','' @ fmt_d 0 (int k) @ '','' @ fmt_d 2 (int n) @
        concat (map (\<lambda>v. concat (sv_parts v)) page)) NMEA_SENTENCE_MAX_LENGTH)"

definition gsv_pages :: "string \<Rightarrow> GpsSvInfo list \<Rightarrow> (string \<times> nat) list" where
  "gsv_pages talker vs =
     (if vs = [] then [loc_eng_nmea_put_checksum (talker @ ''1,1,0,'') NMEA_SENTENCE_MAX_LENGTH]
      else map (gsv_page talker (length (chunks4 vs)) (length vs)) (enumerate 1 (chunks4 vs)))"

definition sv_in_range :: "GpsSvInfo \<Rightarrow> bool" where
  "sv_in_range v \<longleftrightarrow> 0 \<le> elevation v \<and> elevation v \<le> 90 \<and> 0 \<le> azimuth v \<and> azimuth v \<le> 360 \<and> snr v \<le> 99"

lemma print_digits_append: "print_digits n acc = print_digits n [] @ acc"
proof (induction n arbitrary: acc rule: less_induct)
  case (less n)
  define c :: char where "c = char_of (48 + n mod 10)"
  have step: "print_digits n xs = (if n < 10 then c # xs else print_digits (n div 10) (c # xs))" for xs
    by (subst print_digits.simps) (simp only: Let_def c_def)
  show ?case
  proof (cases "n < 10")
    case True
    then show ?thesis by (simp only: step) simp
  next
    case False
    then have "n div 10 < n" by simp
    then show ?thesis
      using less [of "n div 10" "c # acc"] less [of "n div 10" "[c]"] False by (simp only: step) simp
  qed
qed

lemma print_dec_rec:
  "print_dec n = (if n < 10 then [] else print_dec (n div 10)) @ [char_of (48 + n mod 10)]"
proof -
  define c :: char where "c = char_of (48 + n mod 10)"
  have "print_digits n [] = (if n < 10 then [c] else print_digits (n div 10) [c])"
    by (subst print_digits.simps) (simp only: Let_def c_def)
  then show ?thesis
    using print_digits_append [of "n div 10" "[c]"] by (simp add: print_dec_def c_def [symmetric])
qed

lemma length_print_dec: "n < 10 ^ Suc k \<Longrightarrow> length (print_dec n) \<le> Suc k"
proof (induction k arbitrary: n)
  case 0
  then show ?case by (subst print_dec_rec) simp
next
  case (Suc k)
  then have "n div 10 < 10 ^ Suc k" by (simp add: div_less_iff_less_mult mult.commute)
  from Suc.IH [OF this] show ?case by (subst print_dec_rec) simp
qed

lemma length_fmt_d:
  assumes "0 \<le> i" "i < 10 ^ Suc k"
  shows "length (fmt_d w i) \<le> max w (Suc k)"
proof -
  have "nat i < 10 ^ Suc k" using assms by (simp add: nat_less_iff)
  from length_print_dec [OF this] show ?thesis using assms(1) by (simp add: fmt_d_def pad0_def)
qed

lemma drop_fraction_le: "0 \<le> q \<Longrightarrow> q \<le> of_int n \<Longrightarrow> 0 \<le> drop_fraction (1 / 2 + q) \<and> drop_fraction (1 / 2 + q) \<le> n"
  by (auto simp: drop_fraction_def floor_le_iff le_floor_iff)

lemma length_sv_parts:
  assumes "sv_in_range v" "0 \<le> prn v" "prn v \<le> 99"
  shows "length (concat (sv_parts v)) \<le> 13"
proof -
  have e: "length (fmt_d 2 (drop_fraction (1 / 2 + elevation v))) \<le> 2"
    using drop_fraction_le [of "elevation v" 90] length_fmt_d [of "drop_fraction (1 / 2 + elevation v)" 1 2]
      assms(1) by (simp add: sv_in_range_def)
  have a: "length (fmt_d 3 (drop_fraction (1 / 2 + azimuth v))) \<le> 3"
    using drop_fraction_le [of "azimuth v" 360] length_fmt_d [of "drop_fraction (1 / 2 + azimuth v)" 2 3]
      assms(1) by (simp add: sv_in_range_def)
  have p: "length (fmt_d 2 (prn v)) \<le> 2" using length_fmt_d [of "prn v" 1 2] assms(2,3) by simp
  have s: "length (fmt_d 2 (drop_fraction (1 / 2 + snr v))) \<le> 2" if "0 < snr v"
    using drop_fraction_le [of "snr v" 99] length_fmt_d [of "drop_fraction (1 / 2 + snr v)" 1 2]
      assms(1) that by (simp add: sv_in_range_def)
  show ?thesis
  proof (cases "0 < snr v")
    case True
    then show ?thesis using p e a s [OF True] by (simp add: sv_parts_def)
  next
    case False
    then show ?thesis using p e a by (simp add: sv_parts_def)
  qed
qed

lemma put_parts_fits:
  "length s + length (concat ps) < NMEA_SENTENCE_MAX_LENGTH \<Longrightarrow> put_parts s ps = Some (s @ concat ps)"
  by (induction ps arbitrary: s) auto

lemma gsv_fill_page:
  assumes "\<And>v. v \<in> set vs \<Longrightarrow> sel v \<Longrightarrow> length (concat (sv_parts v)) \<le> 13"
    and "length s + 13 * (4 - i) < NMEA_SENTENCE_MAX_LENGTH" "i \<le> 4"
  shows "\<exists>vs'. gsv_fill sel i vs s =
      Some (s @ concat (map (\<lambda>v. concat (sv_parts v)) (take (4 - i) (filter sel vs))), vs')
    \<and> filter sel vs' = drop (4 - i) (filter sel vs) \<and> set vs' \<subseteq> set vs"
  using assms
proof (induction vs arbitrary: i s)
  case (Cons v vs)
  show ?case
  proof (cases "i < 4")
    case four: True
    show ?thesis
    proof (cases "sel v")
      case True
      let ?p = "concat (sv_parts v)"
      have len: "length ?p \<le> 13" using Cons.prems(1) True by simp
      have i: "4 - i = Suc (4 - (i + 1))" using four by simp
      have room: "length (s @ ?p) + 13 * (4 - (i + 1)) < NMEA_SENTENCE_MAX_LENGTH"
        using Cons.prems(2) len by (simp add: i)
      have put: "put_parts s (sv_parts v) = Some (s @ ?p)"
        using room by (intro put_parts_fits) simp
      obtain vs' where vs': "gsv_fill sel (i + 1) vs (s @ ?p) =
          Some ((s @ ?p) @ concat (map (\<lambda>v. concat (sv_parts v)) (take (4 - (i + 1)) (filter sel vs))), vs')"
        "filter sel vs' = drop (4 - (i + 1)) (filter sel vs)" "set vs' \<subseteq> set vs"
        using Cons.IH [OF _ room] Cons.prems(1) four by fastforce
      show ?thesis
      proof (intro exI conjI)
        show "gsv_fill sel i (v # vs) s = Some (s @ concat (map (\<lambda>v. concat (sv_parts v))
            (take (4 - i) (filter sel (v # vs)))), vs')"
          using vs'(1) True four by (simp add: put i del: gsv_fill.simps(1))
        show "filter sel vs' = drop (4 - i) (filter sel (v # vs))" using vs'(2) True by (simp add: i)
        show "set vs' \<subseteq> set (v # vs)" using vs'(3) by auto
      qed
    next
      case False
      with Cons.IH [OF _ Cons.prems(2,3)] Cons.prems(1) obtain vs' where
        "gsv_fill sel i vs s =
          Some (s @ concat (map (\<lambda>v. concat (sv_parts v)) (take (4 - i) (filter sel vs))), vs')"
        "filter sel vs' = drop (4 - i) (filter sel vs)" "set vs' \<subseteq> set vs" by fastforce
      then show ?thesis using False four by (intro exI [of _ vs']) auto
    qed
  next
    case False
    then show ?thesis using Cons.prems(3) by simp
  qed
qed simp

lemma length_chunks4: "length (chunks4 xs) = length xs div 4 + (if length xs mod 4 \<noteq> 0 then 1 else 0)"
proof (induction xs rule: chunks4.induct)
  case (2 x xs)
  show ?case
  proof (cases "length xs < 3")
    case True
    then have "length xs = 0 \<or> length xs = 1 \<or> length xs = 2" by linarith
    then show ?thesis using 2 True by auto
  next
    case False
    then obtain m where m: "length xs = m + 3" by (metis add.commute le_add_diff_inverse not_le)
    then show ?thesis using 2 by (simp add: m)
  qed
qed simp

lemma chunks4_ne: "xs \<noteq> [] \<Longrightarrow> chunks4 xs = take 4 xs # chunks4 (drop 4 xs)"
  by (cases xs) (simp_all add: numeral_eq_Suc)

lemma gsv_loop_pages:
  assumes "\<And>v. v \<in> set vs \<Longrightarrow> sel v \<Longrightarrow> length (concat (sv_parts v)) \<le> 13"
    and "length talker \<le> 10" "number + length (chunks4 (filter sel vs)) = Suc count"
    and "has_nmea_cb st" "count \<le> 99" "n \<le> 99"
  shows "gsv_loop sel talker n count number vs st =
     (True, st\<lparr>sent := sent st @
        map (gsv_page talker count n) (enumerate number (chunks4 (filter sel vs)))\<rparr>)"
  using assms
proof (induction "length (chunks4 (filter sel vs))" arbitrary: number vs st)
  case 0
  then have "chunks4 (filter sel vs) = []" by (simp only: length_0_conv [symmetric])
  moreover have "\<not> number \<le> count" using 0 by simp
  ultimately show ?case by (subst gsv_loop.simps) simp
next
  case (Suc m)
  let ?h = "talker @ fmt_d 0 (int count) @ '','' @ fmt_d 0 (int number) @ '','' @ fmt_d 2 (int n)"
  let ?xs = "filter sel vs"
  have "?xs \<noteq> []" using Suc.hyps(2) by auto
  note ch = chunks4_ne [OF this]
  have number: "number \<le> count" using Suc.hyps(2) Suc.prems(3) by simp
  have "length (fmt_d 0 (int count)) \<le> 2" "length (fmt_d 0 (int number)) \<le> 2" "length (fmt_d 2 (int n)) \<le> 2"
    using length_fmt_d [of "int count" 1 0] length_fmt_d [of "int number" 1 0] length_fmt_d [of "int n" 1 2]
      Suc.prems(5,6) number by simp_all
  then have h: "length ?h \<le> 20" using Suc.prems(2) by simp
  have "put_parts [] [?h] = Some ([] @ concat [?h])"
    using h by (intro put_parts_fits) (simp add: NMEA_SENTENCE_MAX_LENGTH_def)
  then have put: "put_parts [] [?h] = Some ?h" by simp
  obtain vs' where vs': "gsv_fill sel 0 vs ?h =
      Some (?h @ concat (map (\<lambda>v. concat (sv_parts v)) (take 4 ?xs)), vs')"
    "filter sel vs' = drop 4 ?xs" "set vs' \<subseteq> set vs"
    using gsv_fill_page [of vs sel ?h 0, OF Suc.prems(1)] h by (fastforce simp: NMEA_SENTENCE_MAX_LENGTH_def)
  let ?page = "gsv_page talker count n (number, take 4 ?xs)"
  have page: "loc_eng_nmea_put_checksum (?h @ concat (map (\<lambda>v. concat (sv_parts v)) (take 4 ?xs)))
      NMEA_SENTENCE_MAX_LENGTH = ?page"
    by (simp add: gsv_page_def)
  let ?st = "loc_eng_nmea_send ?page st"
  have "gsv_loop sel talker n count (number + 1) vs' ?st = (True, ?st\<lparr>sent := sent ?st @
      map (gsv_page talker count n) (enumerate (number + 1) (chunks4 (filter sel vs')))\<rparr>)"
  proof (rule Suc.hyps(1))
    show "m = length (chunks4 (filter sel vs'))" using Suc.hyps(2) ch vs'(2) by simp
    show "length (concat (sv_parts v)) \<le> 13" if "v \<in> set vs'" "sel v" for v
      using Suc.prems(1) that vs'(3) by blast
    show "number + 1 + length (chunks4 (filter sel vs')) = Suc count" using Suc.prems(3) ch vs'(2) by simp
    show "has_nmea_cb ?st" using Suc.prems(4) by (simp add: loc_eng_nmea_send_def)
  qed (use Suc.prems in simp_all)
  moreover have "gsv_loop sel talker n count number vs st = gsv_loop sel talker n count (number + 1) vs' ?st"
    using number by (subst gsv_loop.simps) (simp only: put vs'(1) page if_True option.case case_prod_conv)
  moreover have "?st = st\<lparr>sent := sent st @ [?page]\<rparr>"
    using Suc.prems(4) by (simp add: loc_eng_nmea_send_def)
  ultimately show ?case by (simp add: ch vs'(2))
qed

lemma gsv_sentences_pages:
  assumes "\<And>v. v \<in> set vs \<Longrightarrow> sel v \<Longrightarrow> length (concat (sv_parts v)) \<le> 13"
    and "length talker \<le> 10" "has_nmea_cb st" "length vs \<le> 32"
  shows "gsv_sentences sel talker (length (filter sel vs)) vs st =
     (True, st\<lparr>sent := sent st @ gsv_pages talker (filter sel vs)\<rparr>)"
proof (cases "filter sel vs = []")
  case True
  then show ?thesis using assms(3) by (simp add: gsv_sentences_def gsv_pages_def loc_eng_nmea_send_def)
next
  case False
  have "length (filter sel vs) \<le> 32" using assms(4) length_filter_le le_trans by blast
  moreover from this have "length (chunks4 (filter sel vs)) \<le> 99"
    using div_le_mono [of "length (filter sel vs)" 32 4] by (simp add: length_chunks4)
  ultimately have "gsv_loop sel talker (length (filter sel vs)) (length (chunks4 (filter sel vs))) 1 vs st =
     (True, st\<lparr>sent := sent st @ map (gsv_page talker (length (chunks4 (filter sel vs))) (length (filter sel vs)))
        (enumerate 1 (chunks4 (filter sel vs)))\<rparr>)"
    using assms by (intro gsv_loop_pages) auto
  moreover have "length (filter sel vs) \<noteq> 0" using False by simp
  ultimately show ?thesis
    using False by (simp only: gsv_sentences_def gsv_pages_def length_chunks4 [symmetric] if_False)
qed

lemma count_svs_filter:
  "count_svs vs (a, b) = (a + length (filter is_gps vs), b + length (filter is_glonass vs))"
proof (induction vs arbitrary: a b)
  case (Cons v vs)
  have "\<not> (is_gps v \<and> is_glonass v)" by (simp add: is_gps_def is_glonass_def GPS_PRN_END_def GLONASS_PRN_START_def)
  then show ?case using Cons by auto
qed simp

text \<open>
  C17: A satellite report sends the GPS satellites of the list, and then the GLONASS ones, in their
  order, four in a sentence, with the number of sentences and satellites in each: none is lost and
  none is sent twice.  A constellation without a satellite gets one empty sentence.
\<close>

theorem gsv_sentences_pages_of_four:
  assumes "has_nmea_cb st" "length svs \<le> 32" "list_all sv_in_range svs"
  shows "sent (loc_eng_nmea_generate_sv svs used ext st) =
    sent st @ gsv_pages ''$GPGSV,'' (filter is_gps svs) @ gsv_pages ''$GLGSV,'' (filter is_glonass svs)"
proof -
  have short: "length (concat (sv_parts v)) \<le> 13" if "v \<in> set svs" "is_gps v \<or> is_glonass v" for v
    using that assms(3) by (intro length_sv_parts) (auto simp: list_all_iff is_gps_def is_glonass_def
      GPS_PRN_START_def GPS_PRN_END_def GLONASS_PRN_START_def GLONASS_PRN_END_def)
  define st1 where "st1 = st\<lparr>sent := sent st @ gsv_pages ''$GPGSV,'' (filter is_gps svs)\<rparr>"
  have 1: "gsv_sentences is_gps ''$GPGSV,'' (length (filter is_gps svs)) svs st = (True, st1)"
    unfolding st1_def using short assms(1,2) by (intro gsv_sentences_pages) auto
  have 2: "gsv_sentences is_glonass ''$GLGSV,'' (length (filter is_glonass svs)) svs st1 =
      (True, st1\<lparr>sent := sent st1 @ gsv_pages ''$GLGSV,'' (filter is_glonass svs)\<rparr>)"
    using short assms(1,2) by (intro gsv_sentences_pages) (auto simp: st1_def)
  show ?thesis
    unfolding loc_eng_nmea_generate_sv_def count_svs_filter add_0 case_prod_conv 1 Let_def 2
    by (simp add: st1_def clear_dop_def)
qed

section \<open>Reading a position back\<close>

text \<open>
  A reader of the fields \<open>ddmm.mmmmmm,H,dddmm.mmmmmm,H,\<close> of RMC and GGA: an angle with \<open>w\<close> digits for the
  degrees.
\<close>

definition number_at :: "nat \<Rightarrow> nat \<Rightarrow> string \<Rightarrow> rat" where
  "number_at i w s = of_int (digits_value 10 0 (take w (drop i s)))"

definition read_angle :: "nat \<Rightarrow> string \<Rightarrow> rat" where
  "read_angle w s = number_at 0 w s + (number_at w 2 s + number_at (w + 3) 6 s / 10 ^ 6) / 60"

definition read_latitude :: "string \<Rightarrow> rat" where
  "read_latitude s = (if s ! 12 = CHR ''S'' then - read_angle 2 s else read_angle 2 s)"

definition read_longitude :: "string \<Rightarrow> rat" where
  "read_longitude s =
     (if s ! 27 = CHR ''W'' then - read_angle 3 (drop 14 s) else read_angle 3 (drop 14 s))"

definition field :: "nat \<Rightarrow> nat \<Rightarrow> string" where
  "field w n = pad0 w (print_dec n)"

lemma length_field: "n < 10 ^ Suc w \<Longrightarrow> length (field (Suc w) n) = Suc w"
  using length_print_dec [of n w] by (simp add: field_def pad0_def)

lemma value_field: "digits_value 10 0 (field w n) = int n"
proof -
  have "digits_value 10 0 (replicate k (CHR ''0'') @ s) = digits_value 10 0 s" for k s
    by (induction k) (simp_all add: digit_of_def)
  moreover have "digits_value 10 0 (print_dec n) = int n"
    using digits_value_print [of 0 n "[]"] by (simp add: print_dec_def)
  ultimately show ?thesis by (simp add: field_def pad0_def)
qed

lemma round_even_near: "\<bar>of_int (round_even q) - q\<bar> \<le> 1 / 2"
proof -
  have "0 \<le> q - of_int \<lfloor>q\<rfloor>" "q - of_int \<lfloor>q\<rfloor> < 1" by linarith+
  then show ?thesis
    by (cases "q - of_int \<lfloor>q\<rfloor> < 1 / 2"; cases "q - of_int \<lfloor>q\<rfloor> = 1 / 2")
      (simp_all add: round_even_def Let_def abs_le_iff)
qed

lemma minutes_range: "0 \<le> minutes q" "minutes q < 60" "minutes q = 60 * (q - of_int \<lfloor>q\<rfloor>)"
  by (simp_all add: minutes_def Let_def) linarith

lemma fmt_minutes:
  obtains m f where "fmt_f 9 6 (minutes q) = field 2 m @ ''.'' @ field 6 f" "m \<le> 60" "f < 1000000"
    "\<bar>of_nat m + of_nat f / 10 ^ 6 - minutes q\<bar> \<le> 1 / 2000000"
proof -
  define z where "z = round_even (minutes q * 10 ^ 6)"
  have near: "\<bar>of_int z - minutes q * 10 ^ 6\<bar> \<le> 1 / 2" unfolding z_def by (rule round_even_near)
  have "of_int z - minutes q * 1000000 \<le> 1 / 2" "minutes q * 1000000 - of_int z \<le> 1 / 2"
    using near by (simp_all only: abs_le_iff) simp_all
  then have "of_int (- 1) < (of_int z :: rat)" "of_int z < (of_int 60000001 :: rat)"
    using minutes_range(1,2) [of q] by (simp_all only: of_int_minus of_int_1 of_int_numeral)
  then have z: "0 \<le> z" "z \<le> 60000000" by (simp_all only: of_int_less_iff)
  define n where "n = nat z"
  have n: "n \<le> 60000000" "of_nat n = (of_int z :: rat)" using z by (simp_all add: n_def)
  let ?m = "n div 10 ^ 6" let ?f = "n mod 10 ^ 6"
  have m: "?m \<le> 60" using div_le_mono [OF n(1), of "10 ^ 6"] by simp
  have pad: "pad0 9 (s @ t) = pad0 2 s @ t" if "length t = 7" for s t
    using that by (simp add: pad0_def)
  have "length (field 6 ?f) = 6" using length_field [of ?f 5] by simp
  then have "fmt_f 9 6 (minutes q) = field 2 ?m @ ''.'' @ field 6 ?f"
    using minutes_range(1) [of q] pad [of "''.'' @ field 6 ?f" "print_dec ?m"]
    by (simp add: fmt_f_def Let_def field_def n_def z_def)
  moreover have "(of_nat ?m + of_nat ?f / 10 ^ 6 :: rat) = of_nat n / 10 ^ 6"
  proof -
    have "n = 10 ^ 6 * ?m + ?f" by simp
    then have "of_nat n = (10 ^ 6 * of_nat ?m + of_nat ?f :: rat)"
      by (metis of_nat_add of_nat_mult of_nat_numeral of_nat_power)
    then show ?thesis by simp
  qed
  then have "\<bar>of_nat ?m + of_nat ?f / 10 ^ 6 - minutes q\<bar> \<le> 1 / 2000000"
    using near by (simp only: n(2) abs_le_iff) (simp add: field_simps)
  ultimately show ?thesis using that [of ?m ?f] m by (simp only:) simp
qed

lemma angle_read:
  assumes "\<bar>q\<bar> < 256" "nat \<lfloor>\<bar>q\<bar>\<rfloor> < 10 ^ Suc w"
  shows "\<bar>read_angle (Suc w) (fmt_d (Suc w) (as_uint8 \<lfloor>\<bar>q\<bar>\<rfloor>) @ fmt_f 9 6 (minutes \<bar>q\<bar>) @ rest) - \<bar>q\<bar>\<bar>
      \<le> 1 / 120000000"
    "length (fmt_d (Suc w) (as_uint8 \<lfloor>\<bar>q\<bar>\<rfloor>)) = Suc w" "length (fmt_f 9 6 (minutes \<bar>q\<bar>)) = 9"
proof -
  define n where "n = nat \<lfloor>\<bar>q\<bar>\<rfloor>"
  have fl: "\<lfloor>\<bar>q\<bar>\<rfloor> = int n" by (simp add: n_def)
  have "n < 256" using assms(1) by (simp add: n_def nat_less_iff floor_less_iff)
  then have "as_uint8 \<lfloor>\<bar>q\<bar>\<rfloor> = int n"
    using uint_word_of_int [of "int n", where 'a = 8] by (simp add: as_uint8_def fl)
  then have d: "fmt_d (Suc w) (as_uint8 \<lfloor>\<bar>q\<bar>\<rfloor>) = field (Suc w) n" by (simp add: fmt_d_def field_def)
  have ld: "length (field (Suc w) n) = Suc w" using assms(2) by (intro length_field) (simp add: n_def)
  obtain m f where mf: "fmt_f 9 6 (minutes \<bar>q\<bar>) = field 2 m @ ''.'' @ field 6 f" "m \<le> 60" "f < 1000000"
    and near: "\<bar>of_nat m + of_nat f / 10 ^ 6 - minutes \<bar>q\<bar>\<bar> \<le> 1 / 2000000"
    by (rule fmt_minutes)
  have lm: "length (field 2 m) = 2" "length (field 6 f) = 6"
    using length_field [of m 1] length_field [of f 5] mf(2,3) by (simp_all add: numeral_2_eq_2)
  show "length (fmt_d (Suc w) (as_uint8 \<lfloor>\<bar>q\<bar>\<rfloor>)) = Suc w" "length (fmt_f 9 6 (minutes \<bar>q\<bar>)) = 9"
    by (simp_all add: d ld mf(1) lm)
  have "number_at 0 (Suc w) (field (Suc w) n @ (field 2 m @ ''.'' @ field 6 f) @ rest) = of_nat n"
    "number_at (Suc w) 2 (field (Suc w) n @ (field 2 m @ ''.'' @ field 6 f) @ rest) = of_nat m"
    "number_at (Suc w + 3) 6 (field (Suc w) n @ (field 2 m @ ''.'' @ field 6 f) @ rest) = of_nat f"
    by (simp_all add: number_at_def ld lm value_field)
  then have "read_angle (Suc w) (field (Suc w) n @ (field 2 m @ ''.'' @ field 6 f) @ rest) =
      of_nat n + (of_nat m + of_nat f / 10 ^ 6) / 60"
    by (simp only: read_angle_def)
  moreover have "\<bar>q\<bar> = of_nat n + minutes \<bar>q\<bar> / 60" using minutes_range(3) [of "\<bar>q\<bar>"] by (simp add: fl diff_divide_distrib)
  moreover have "\<bar>of_nat n + x / 60 - (of_nat n + y / 60)\<bar> \<le> 1 / 120000000" if "\<bar>x - y\<bar> \<le> 1 / 2000000" for x y :: rat
    using that unfolding abs_le_iff by (auto simp: field_simps)
  ultimately show "\<bar>read_angle (Suc w) (fmt_d (Suc w) (as_uint8 \<lfloor>\<bar>q\<bar>\<rfloor>) @ fmt_f 9 6 (minutes \<bar>q\<bar>) @ rest) - \<bar>q\<bar>\<bar>
      \<le> 1 / 120000000"
    using near by (metis d mf(1))
qed

text \<open>
  C38: A position on the earth is read back from RMC and GGA to half a unit of the last place: a millionth of
  a minute of arc, whose half is less than a millimetre on the ground.
\<close>

theorem nmea_position_roundtrip:
  assumes "has_flag (loc_flags l) GPS_LOCATION_HAS_LAT_LONG" "\<bar>latitude l\<bar> \<le> 90" "\<bar>longitude l\<bar> \<le> 180"
  shows "\<bar>read_latitude (lat_long_field l) - latitude l\<bar> \<le> 1 / 120000000 \<and>
    \<bar>read_longitude (lat_long_field l) - longitude l\<bar> \<le> 1 / 120000000"
proof -
  define ns where "ns = (if latitude l > 0 then CHR ''N'' else CHR ''S'')"
  define ew where "ew = (if longitude l < 0 then CHR ''W'' else CHR ''E'')"
  define a where "a = fmt_d 2 (as_uint8 \<lfloor>\<bar>latitude l\<bar>\<rfloor>)"
  define b where "b = fmt_f 9 6 (minutes \<bar>latitude l\<bar>)"
  define c where "c = fmt_d 3 (as_uint8 \<lfloor>\<bar>longitude l\<bar>\<rfloor>)"
  define d where "d = fmt_f 9 6 (minutes \<bar>longitude l\<bar>)"
  have field: "lat_long_field l = a @ b @ CHR '','' # ns # CHR '','' # c @ d @ CHR '','' # ew # '',''"
    using assms(1) by (simp add: lat_long_field_def Let_def ns_def ew_def a_def b_def c_def d_def abs_if)
  have lat: "nat \<lfloor>\<bar>latitude l\<bar>\<rfloor> < 10 ^ Suc 1" using assms(2) by (simp add: nat_less_iff floor_less_iff)
  have lon: "nat \<lfloor>\<bar>longitude l\<bar>\<rfloor> < 10 ^ Suc 2" using assms(3) by (simp add: nat_less_iff floor_less_iff)
  have "\<bar>latitude l\<bar> < 256" "\<bar>longitude l\<bar> < 256" using assms(2,3) by simp_all
  note la = angle_read [OF this(1) lat] and lo = angle_read [OF this(2) lon]
  have two: "Suc 1 = (2 :: nat)" "Suc 2 = (3 :: nat)" by simp_all
  have len: "length a = 2" "length b = 9" "length c = 3" "length d = 9"
    using la(2,3) lo(2,3) by (simp_all only: two a_def b_def c_def d_def)
  have "lat_long_field l ! 12 = ns" "lat_long_field l ! 27 = ew"
    "drop 14 (lat_long_field l) = c @ d @ CHR '','' # ew # '',''"
    unfolding field by (simp_all add: nth_append len)
  moreover have "\<bar>read_angle 2 (lat_long_field l) - \<bar>latitude l\<bar>\<bar> \<le> 1 / 120000000"
    "\<bar>read_angle 3 (c @ d @ CHR '','' # ew # '','') - \<bar>longitude l\<bar>\<bar> \<le> 1 / 120000000"
    unfolding field using la(1) lo(1) by (simp_all only: two a_def b_def c_def d_def)
  ultimately show ?thesis
    by (auto simp: read_latitude_def read_longitude_def ns_def ew_def abs_if split: if_splits)
qed

text \<open>The position of the witness: Berlin.\<close>

definition berlin :: GpsLocation where
  "berlin = \<lparr>loc_flags = 0x000F, latitude = 5252 / 100, longitude = 1340495 / 100000, altitude = 34,
     speed = 1, bearing = 90, timestamp = 1700000000000\<rparr>"

theorem nmea_position_roundtrip_witness:
  "\<bar>read_latitude (lat_long_field berlin) - latitude berlin\<bar> \<le> 1 / 120000000 \<and>
   \<bar>read_longitude (lat_long_field berlin) - longitude berlin\<bar> \<le> 1 / 120000000"
proof (rule nmea_position_roundtrip)
  show "has_flag (loc_flags berlin) GPS_LOCATION_HAS_LAT_LONG" by code_simp
  show "\<bar>latitude berlin\<bar> \<le> 90" "\<bar>longitude berlin\<bar> \<le> 180" by (simp_all add: berlin_def)
qed

definition sky :: "GpsSvInfo list" where
  "sky = map (\<lambda>p. \<lparr>prn = p, snr = 40, elevation = 45, azimuth = 200\<rparr>) [1, 70, 2, 3, 200, 32, 31]"

theorem gsv_sentences_pages_of_four_witness:
  "sent (loc_eng_nmea_generate_sv sky 7
      \<lparr>ext_flags = 0, altitudeMeanSeaLevel = 0, ext_pdop = 0, ext_hdop = 0, ext_vdop = 0, magneticDeviation = 0\<rparr>
      (nmea_start True)) =
   sent (nmea_start True) @ gsv_pages ''$GPGSV,'' (filter is_gps sky) @ gsv_pages ''$GLGSV,'' (filter is_glonass sky)"
proof (rule gsv_sentences_pages_of_four)
  show "has_nmea_cb (nmea_start True)" by (simp add: nmea_start_def)
  show "length sky \<le> 32" by (simp add: sky_def)
  show "list_all sv_in_range sky" by (simp add: sky_def sv_in_range_def)
qed

section \<open>Used satellites and minutes\<close>

text \<open>
  The satellites of GSA: a satellite report that names satellites is followed by a position report
  whose GSA says so, and a second position report, without a satellite report between them, whose GSA says that
  there is no fix, though its RMC and GGA have the position.
\<close>

definition no_ext :: GpsLocationExtended where
  "no_ext = \<lparr>ext_flags = 0, altitudeMeanSeaLevel = 0, ext_pdop = 0, ext_hdop = 0, ext_vdop = 0, magneticDeviation = 0\<rparr>"

lemma sv_used_list_step:
  "sv_used_list m i l = (if 0 < m \<and> length l < 32
     then sv_used_list (drop_bit 1 m) (i + 1) (l @ (if and m 1 \<noteq> 0 then [i] else [])) else l)"
  by (subst sv_used_list.simps) (simp only:)

lemma sv_used_list_bits:
  assumes "i + n = 33" "length l < i" "\<And>j. j \<ge> n \<Longrightarrow> \<not> bit m j"
  shows "sv_used_list m i l = l @ map (\<lambda>j. i + j) (filter (bit m) [0..<n])"
  using assms
proof (induction n arbitrary: i m l)
  case 0
  then have "m = 0" by (intro bit_eqI) simp
  then show ?case by (subst sv_used_list_step) simp
next
  case (Suc n)
  show ?case
  proof (cases "m = 0")
    case True
    then show ?thesis by (subst sv_used_list_step) simp
  next
    case False
    have bits: "bit (drop_bit 1 m) j = bit m (Suc j)" for j by (simp add: bit_drop_bit_eq)
    then have high: "\<not> bit (drop_bit 1 m) j" if "j \<ge> n" for j using Suc.prems(3) that by simp
    have one: "(and m 1 \<noteq> 0) = bit m 0" by (simp add: and_one_eq bit_0 odd_iff_mod_2_eq_one)
    let ?l = "l @ (if bit m 0 then [i] else [])"
    have "sv_used_list (drop_bit 1 m) (i + 1) ?l =
        ?l @ map (\<lambda>j. i + 1 + j) (filter (bit (drop_bit 1 m)) [0..<n])"
      using Suc.prems(1,2) high by (intro Suc.IH) auto
    moreover have "filter (bit m) [0..<Suc n] =
        (if bit m 0 then [0] else []) @ map Suc (filter (bit (drop_bit 1 m)) [0..<n])"
      unfolding upt_conv_Cons [OF zero_less_Suc] map_Suc_upt [symmetric] filter.simps filter_map comp_def bits
      by simp
    ultimately show ?thesis
      using False Suc.prems(1,2) by (subst sv_used_list_step) (simp add: one word_gt_0 o_def)
  qed
qed

text \<open>The list holds the numbers of the bits of the mask, from 1, in order.\<close>

lemma sv_used_list_eq: "sv_used_list m 1 [] = map Suc (filter (bit m) [0..<32])"
  using sv_used_list_bits [of 1 32 "[]" m] bit_imp_le_length [of m] by fastforce

definition used_svs :: "uint32 \<Rightarrow> nat list" where
  "used_svs m = map Suc (filter (bit m) [0..<32])"

definition gsa_start :: "nat list \<Rightarrow> string" where
  "gsa_start used =
     ''$GPGSA,A,'' @ (if used = [] then ''1'' else if length used \<le> 3 then ''2'' else ''3'') @ '','' @
     concat (map (\<lambda>s. fmt_d 2 (int s) @ '','') (take 12 used)) @ replicate (12 - length used) (CHR '','')"

lemma gsa_satellites:
  "concat (map (\<lambda>i. (if i < length svs then fmt_d 2 (int (svs ! i)) else []) @ '','') [0..<n]) =
   concat (map (\<lambda>s. fmt_d 2 (int s) @ '','') (take n svs)) @ replicate (n - length svs) (CHR '','')"
proof (induction n)
  case (Suc n)
  then show ?case
    by (cases "n < length svs") (simp_all add: take_Suc_conv_app_nth Suc_diff_le replicate_append_same)
qed simp

lemma gsa_printed:
  assumes "\<And>s. s \<in> set svs \<Longrightarrow> s \<le> 32"
  shows "\<exists>final. gsa_sentence svs ext st =
    Some (loc_eng_nmea_put_checksum (gsa_start svs @ final) NMEA_SENTENCE_MAX_LENGTH)"
proof -
  let ?g = "\<lambda>i. (if i < length svs then fmt_d 2 (int (svs ! i)) else []) @ '',''"
  let ?ps = "(''$GPGSA,A,'' @ (if svs = [] then ''1'' else if length svs \<le> 3 then ''2'' else ''3'') @ '','') #
    map ?g [0..<12]"
  have g: "length (?g i) \<le> 3" for i
    using assms [of "svs ! i"] length_fmt_d [of "int (svs ! i)" 1 2] by (auto simp: numeral_2_eq_2)
  have "length (concat (map ?g xs)) \<le> 3 * length xs" for xs
  proof (induction xs)
    case (Cons i xs)
    then show ?case using g [of i] by (simp del: append_assoc)
  qed simp
  from this [of "[0..<12]"] have "length [] + length (concat ?ps) < NMEA_SENTENCE_MAX_LENGTH"
    by (simp add: NMEA_SENTENCE_MAX_LENGTH_def del: upt_Suc)
  from put_parts_fits [OF this] have "put_parts [] ?ps = Some (gsa_start svs)"
    by (simp only: append_Nil list.map concat.simps gsa_satellites gsa_start_def append_assoc)
  then show ?thesis by (simp only: gsa_sentence_def sentence_def option.case) blast
qed

text \<open>
  The position report behind a satellite report lists the satellites of the mask, at most the first
  twelve, in GSA, with the type of the fix by their number, and clears the mask.  The next
  position report has no satellites: its GSA says that there is no fix.
\<close>

theorem gsa_lists_used_satellites:
  assumes "has_nmea_cb st"
  shows "\<exists>final rest. sent (loc_eng_nmea_generate_pos standalone l ext True st) =
      sent st @ loc_eng_nmea_put_checksum (gsa_start (used_svs (sv_used_mask st)) @ final)
        NMEA_SENTENCE_MAX_LENGTH # rest \<and>
    used_svs (sv_used_mask (loc_eng_nmea_generate_pos standalone l ext True st)) = []"
proof -
  define svs where "svs = used_svs (sv_used_mask st)"
  define st1 where "st1 = st\<lparr>sv_used_mask := 0\<rparr>"
  define xs where "xs = [vtg_sentence standalone l, rmc_sentence (gmtime (utc_seconds l)) standalone l ext,
    gga_sentence (gmtime (utc_seconds l)) standalone (length svs) l ext st1]"
  have used: "sv_used_list (sv_used_mask st) 1 [] = svs" by (simp only: sv_used_list_eq svs_def used_svs_def)
  obtain final where gsa: "gsa_sentence svs ext st1 =
      Some (loc_eng_nmea_put_checksum (gsa_start svs @ final) NMEA_SENTENCE_MAX_LENGTH)"
    using gsa_printed [of svs ext st1] by (fastforce simp: svs_def used_svs_def)
  have until: "\<exists>rest. sent (snd (send_until xs s)) = sent s @ rest \<and>
      sv_used_mask (snd (send_until xs s)) = sv_used_mask s" for xs s
    by (induction xs s rule: send_until.induct) (auto simp: loc_eng_nmea_send_def)
  let ?x = "loc_eng_nmea_put_checksum (gsa_start svs @ final) NMEA_SENTENCE_MAX_LENGTH"
  obtain rest where rest: "sent (snd (send_until xs (loc_eng_nmea_send ?x st1))) = sent st @ ?x # rest"
    "sv_used_mask (snd (send_until xs (loc_eng_nmea_send ?x st1))) = 0"
    using until [of xs "loc_eng_nmea_send ?x st1"] assms by (auto simp: loc_eng_nmea_send_def st1_def)
  let ?r = "send_until xs (loc_eng_nmea_send ?x st1)"
  have "loc_eng_nmea_generate_pos standalone l ext True st = (if fst ?r then clear_dop (snd ?r) else snd ?r)"
    by (simp only: loc_eng_nmea_generate_pos_def if_True Let_def used case_prod_beta flip: st1_def)
      (simp only: gsa send_until.simps flip: xs_def)
  then have "sent (loc_eng_nmea_generate_pos standalone l ext True st) = sent st @ ?x # rest"
    "sv_used_mask (loc_eng_nmea_generate_pos standalone l ext True st) = 0"
    using rest by (simp_all add: clear_dop_def)
  then show ?thesis by (auto simp: svs_def used_svs_def)
qed

theorem gsa_lists_used_satellites_witness:
  "\<exists>final rest. sent (loc_eng_nmea_generate_pos True berlin no_ext True ((nmea_start True)\<lparr>sv_used_mask := 0x80000015\<rparr>)) =
      [] @ loc_eng_nmea_put_checksum (gsa_start [1, 3, 5, 32] @ final) NMEA_SENTENCE_MAX_LENGTH # rest \<and>
    used_svs (sv_used_mask (loc_eng_nmea_generate_pos True berlin no_ext True
      ((nmea_start True)\<lparr>sv_used_mask := 0x80000015\<rparr>))) = []"
proof -
  let ?st = "(nmea_start True)\<lparr>sv_used_mask := 0x80000015\<rparr>"
  have "used_svs (sv_used_mask ?st) = [1, 3, 5, 32]" "sent ?st = []" "has_nmea_cb ?st" by code_simp+
  then show ?thesis using gsa_lists_used_satellites [of ?st True berlin no_ext] by simp
qed

text \<open>
  A latitude just below a full degree is printed with sixty minutes, because the minutes are rounded
  after the degrees have been cut off; and the equator is south.
\<close>

theorem minutes_printed_as_sixty:
  "take 13 (lat_long_field (berlin\<lparr>latitude := 53 - 1 / 1000000000\<rparr>)) = ''5260.000000,N'' \<and>
   take 13 (lat_long_field (berlin\<lparr>latitude := 0\<rparr>)) = ''0000.000000,S''"
proof -
  let ?q = "53 - 1 / 1000000000 :: rat"
  have flag: "has_flag (loc_flags (berlin\<lparr>latitude := q\<rparr>)) GPS_LOCATION_HAS_LAT_LONG" for q by code_simp
  have deg: "\<lfloor>?q\<rfloor> = 52" by (rule floor_unique) simp_all
  then have m: "\<bar>minutes ?q\<bar> * 10 ^ 6 = 60000000 - 6 / 100"
    using minutes_range(3) [of ?q] abs_of_nonneg [OF minutes_range(1) [of ?q]] by simp
  have fl: "\<lfloor>60000000 - 6 / 100 :: rat\<rfloor> = 59999999" by (rule floor_unique) simp_all
  have r: "round_even (\<bar>minutes ?q\<bar> * 10 ^ 6) = 60000000"
    unfolding m round_even_def Let_def fl by simp
  have "fmt_f 9 6 (minutes ?q) = ''60.000000''"
  proof -
    have "nat 60000000 div 10 ^ 6 = 60" "nat 60000000 mod 10 ^ 6 = 0" by simp_all
    moreover have "pad0 9 (print_dec 60 @ ''.'' @ pad0 6 (print_dec 0)) = ''60.000000''" by code_simp
    moreover have "\<not> minutes ?q < 0" using minutes_range(1) [of ?q] by (simp only: not_less)
    ultimately show ?thesis by (simp only: fmt_f_def r Let_def if_False)
  qed
  moreover have "fmt_d 2 (as_uint8 52) = ''52''" by code_simp
  ultimately have N: "take 13 (lat_long_field (berlin\<lparr>latitude := ?q\<rparr>)) = ''5260.000000,N''"
    using flag [of ?q] deg by (simp add: lat_long_field_def Let_def)
  have "minutes 0 = 0" by (simp add: minutes_def)
  moreover have "round_even 0 = 0" by (simp add: round_even_def)
  moreover have "pad0 9 (print_dec 0 @ CHR ''.'' # pad0 6 (print_dec 0)) = ''00.000000''"
    "fmt_d 2 (as_uint8 0) = ''00''" by code_simp+
  ultimately have "take 13 (lat_long_field (berlin\<lparr>latitude := 0\<rparr>)) = ''0000.000000,S''"
    using flag [of 0] by (simp add: lat_long_field_def fmt_f_def Let_def)
  with N show ?thesis ..
qed

end
