(* ===== verification/Loc_Api.thy ===== *)
theory Loc_Api
  imports Loc_Nmea
begin

text \<open>
  The core of the location library under \<open>src/gps/core\<close>: the table of adapters of \<open>LocApiBase\<close>,
  through which the reports of the modem reach the adapters and the event masks of the adapters reach
  the modem, the two contexts of \<open>LocDualContext\<close>, and the two conversions of \<open>LocApiBase.cpp\<close>.

  What the modem's library does with \<open>open\<close> and \<open>close\<close> is not part of the sources: the calls
  are recorded.  An adapter is its address; its event mask and what it does with a report are
  arguments of the operations that use them.  The table does not change while a report is delivered.
\<close>

section \<open>The table of adapters\<close>

definition MAX_ADAPTERS :: nat where "MAX_ADAPTERS = 10"

datatype api_msg = LocOpenMsg uint32 | LocSsrMsg

datatype api_call = Api_open uint32 | Api_close

record loc_api =
  mLocAdapters :: "addr option list"
  mExcludedMask :: uint32
  mSupportedMsg :: uint64
  api_queue :: "api_msg list"
  api_calls :: "api_call list"

definition new_LocApiBase :: "uint32 \<Rightarrow> loc_api" where
  "new_LocApiBase excludedMask =
     \<lparr>mLocAdapters = replicate MAX_ADAPTERS None, mExcludedMask = excludedMask, mSupportedMsg = 0,
      api_queue = [], api_calls = []\<rparr>"

definition api_send :: "api_msg \<Rightarrow> loc_api \<Rightarrow> loc_api" where
  "api_send m s = s\<lparr>api_queue := api_queue s @ [m]\<rparr>"

text \<open>The macros \<open>TO_ALL_ADAPTERS\<close> and \<open>TO_1ST_HANDLING_ADAPTER\<close>, with a call that changes a state.\<close>

function to_all :: "(addr \<Rightarrow> 's \<Rightarrow> 's) \<Rightarrow> nat \<Rightarrow> addr option list \<Rightarrow> 's \<Rightarrow> 's" where
  "to_all call i adapters s =
     (if i < MAX_ADAPTERS
      then (case adapters ! i of None \<Rightarrow> s | Some a \<Rightarrow> to_all call (i + 1) adapters (call a s))
      else s)"
  by pat_completeness auto
termination by (relation "measure (\<lambda>(c, i, as, s). MAX_ADAPTERS - i)") auto

function to_1st_handling :: "(addr \<Rightarrow> 's \<Rightarrow> bool \<times> 's) \<Rightarrow> nat \<Rightarrow> addr option list \<Rightarrow> 's \<Rightarrow> 's" where
  "to_1st_handling call i adapters s =
     (if i < MAX_ADAPTERS
      then (case adapters ! i of
              None \<Rightarrow> s
            | Some a \<Rightarrow>
                (let (handled, s') = call a s
                 in if handled then s' else to_1st_handling call (i + 1) adapters s'))
      else s)"
  by pat_completeness auto
termination by (relation "measure (\<lambda>(c, i, as, s). MAX_ADAPTERS - i)") auto

declare to_all.simps [simp del] to_1st_handling.simps [simp del]

definition getEvtMask :: "(addr \<Rightarrow> uint32) \<Rightarrow> loc_api \<Rightarrow> uint32" where
  "getEvtMask evt s =
     and (to_all (\<lambda>a m. or m (evt a)) 0 (mLocAdapters s) 0) (not (mExcludedMask s))"

function is_in_session :: "(addr \<Rightarrow> bool) \<Rightarrow> bool \<Rightarrow> nat \<Rightarrow> addr option list \<Rightarrow> bool" where
  "is_in_session sess inSession i adapters =
     (if \<not> inSession \<and> i < MAX_ADAPTERS
      then (case adapters ! i of
              None \<Rightarrow> inSession
            | Some a \<Rightarrow> is_in_session sess (sess a) (i + 1) adapters)
      else inSession)"
  by pat_completeness auto
termination by (relation "measure (\<lambda>(c, b, i, as). MAX_ADAPTERS - i)") auto

declare is_in_session.simps [simp del]

text \<open>\<open>addAdapter\<close>: the loop looks for the adapter or a free slot, whichever comes first.\<close>

function add_loop :: "(addr \<Rightarrow> uint32) \<Rightarrow> addr \<Rightarrow> nat \<Rightarrow> loc_api \<Rightarrow> loc_api" where
  "add_loop evt a i s =
     (if i < MAX_ADAPTERS \<and> mLocAdapters s ! i \<noteq> Some a
      then (if mLocAdapters s ! i = None
            then api_send (LocOpenMsg (evt a)) (s\<lparr>mLocAdapters := (mLocAdapters s)[i := Some a]\<rparr>)
            else add_loop evt a (i + 1) s)
      else s)"
  by pat_completeness auto
termination by (relation "measure (\<lambda>(e, a, i, s). MAX_ADAPTERS - i)") auto

declare add_loop.simps [simp del]

definition addAdapter :: "(addr \<Rightarrow> uint32) \<Rightarrow> addr \<Rightarrow> loc_api \<Rightarrow> loc_api" where
  "addAdapter evt a s = add_loop evt a 0 s"

text \<open>
  \<open>removeAdapter\<close>: the last adapter takes the place of the one that goes.  \<open>last_used\<close> is the index
  behind the inner loop and its decrement.
\<close>

function last_used :: "nat \<Rightarrow> addr option list \<Rightarrow> nat" where
  "last_used i adapters =
     (if i + 1 < MAX_ADAPTERS \<and> adapters ! (i + 1) \<noteq> None then last_used (i + 1) adapters else i)"
  by pat_completeness auto
termination by (relation "measure (\<lambda>(i, as). MAX_ADAPTERS - i)") auto

declare last_used.simps [simp del]

lemma last_used_ge: "i \<le> last_used i as"
proof (induction i as rule: last_used.induct)
  case (1 i as)
  then show ?case by (subst last_used.simps) auto
qed

definition remove_slot :: "nat \<Rightarrow> addr option list \<Rightarrow> addr option list" where
  "remove_slot j adapters =
     (let as1 = adapters[j := None]; i = last_used j as1; as2 = as1[j := as1 ! i] in as2[i := None])"

function remove_loop :: "(addr \<Rightarrow> uint32) \<Rightarrow> addr \<Rightarrow> nat \<Rightarrow> loc_api \<Rightarrow> loc_api" where
  "remove_loop evt a i s =
     (if i < MAX_ADAPTERS \<and> mLocAdapters s ! i \<noteq> None
      then (if mLocAdapters s ! i = Some a
            then (let k = last_used i ((mLocAdapters s)[i := None]);
                      s1 = s\<lparr>mLocAdapters := remove_slot i (mLocAdapters s)\<rparr>;
                      s2 = (if k = 0 then s1\<lparr>api_calls := api_calls s1 @ [Api_close]\<rparr>
                            else api_send (LocOpenMsg (getEvtMask evt s1)) s1)
                  in remove_loop evt a (k + 1) s2)
            else remove_loop evt a (i + 1) s)
      else s)"
  by pat_completeness auto
termination
proof (relation "measure (\<lambda>(e, a, i, s). MAX_ADAPTERS - i)", goal_cases)
  case (2 evt a i s k s1 s2)
  then show ?case using last_used_ge [of i "(mLocAdapters s)[i := None]"] by auto
qed auto

declare remove_loop.simps [simp del]

definition removeAdapter :: "(addr \<Rightarrow> uint32) \<Rightarrow> addr \<Rightarrow> loc_api \<Rightarrow> loc_api" where
  "removeAdapter evt a s = remove_loop evt a 0 s"

definition updateEvtMask :: "(addr \<Rightarrow> uint32) \<Rightarrow> loc_api \<Rightarrow> loc_api" where
  "updateEvtMask evt s = api_send (LocOpenMsg (getEvtMask evt s)) s"

text \<open>The message thread: \<open>LocOpenMsg::proc\<close> and \<open>LocSsrMsg::proc\<close>.\<close>

definition api_handle :: "(addr \<Rightarrow> uint32) \<Rightarrow> loc_api \<Rightarrow> loc_api" where
  "api_handle evt s =
     (case api_queue s of
        [] \<Rightarrow> s
      | LocOpenMsg m # ms \<Rightarrow> s\<lparr>api_queue := ms, api_calls := api_calls s @ [Api_open m]\<rparr>
      | LocSsrMsg # ms \<Rightarrow>
          s\<lparr>api_queue := ms, api_calls := api_calls s @ [Api_close, Api_open (getEvtMask evt s)]\<rparr>)"

text \<open>
  \<open>handleEngineUpEvent\<close> and \<open>handleEngineDownEvent\<close>: \<open>inject\<close> is the injection of the feature
  configuration, \<open>up\<close> and \<open>down\<close> the handlers of the adapters.
\<close>

definition handleEngineUpEvent :: "('s \<Rightarrow> 's) \<Rightarrow> (addr \<Rightarrow> 's \<Rightarrow> 's) \<Rightarrow> loc_api \<times> 's \<Rightarrow> loc_api \<times> 's" where
  "handleEngineUpEvent inject up = (\<lambda>(s, w).
     (let s1 = api_send LocSsrMsg s in (s1, to_all up 0 (mLocAdapters s1) (inject w))))"

definition handleEngineDownEvent :: "(addr \<Rightarrow> 's \<Rightarrow> 's) \<Rightarrow> loc_api \<times> 's \<Rightarrow> loc_api \<times> 's" where
  "handleEngineDownEvent down = (\<lambda>(s, w). (s, to_all down 0 (mLocAdapters s) w))"

text \<open>
  The reports of the modem.  Positions, satellites, states, NMEA and measurements go to all adapters,
  the requests to the first that handles them.
\<close>

definition report_all :: "(addr \<Rightarrow> 's \<Rightarrow> 's) \<Rightarrow> loc_api \<Rightarrow> 's \<Rightarrow> 's" where
  "report_all call s w = to_all call 0 (mLocAdapters s) w"

definition request_first :: "(addr \<Rightarrow> 's \<Rightarrow> bool \<times> 's) \<Rightarrow> loc_api \<Rightarrow> 's \<Rightarrow> 's" where
  "request_first call s w = to_1st_handling call 0 (mLocAdapters s) w"

text \<open>
  The functions of \<open>LocApiBase\<close> that pass something of the modem on, and which of the two ways each
  takes.  Their arguments are in \<open>call\<close>, which tells what the function of the same name of an adapter does
  with them, and whether it handles them; a report has no result.
\<close>

datatype api_upcall =
    reportPosition | reportSv | reportStatus | reportNmea | reportGpsMeasurementData
  | reportXtraServer | requestXtraData | requestTime | requestLocation | requestATL | releaseATL
  | requestSuplES | reportDataCallOpened | reportDataCallClosed | requestNiNotify

fun upcall :: "(addr \<Rightarrow> api_upcall \<Rightarrow> 's \<Rightarrow> bool \<times> 's) \<Rightarrow> api_upcall \<Rightarrow> loc_api \<Rightarrow> 's \<Rightarrow> 's" where
  "upcall call reportPosition s w = report_all (\<lambda>a w. snd (call a reportPosition w)) s w"
| "upcall call reportSv s w = report_all (\<lambda>a w. snd (call a reportSv w)) s w"
| "upcall call reportStatus s w = report_all (\<lambda>a w. snd (call a reportStatus w)) s w"
| "upcall call reportNmea s w = report_all (\<lambda>a w. snd (call a reportNmea w)) s w"
| "upcall call reportXtraServer s w = request_first (\<lambda>a. call a reportXtraServer) s w"
| "upcall call requestXtraData s w = request_first (\<lambda>a. call a requestXtraData) s w"
| "upcall call requestTime s w = request_first (\<lambda>a. call a requestTime) s w"
| "upcall call requestLocation s w = request_first (\<lambda>a. call a requestLocation) s w"
| "upcall call requestATL s w = request_first (\<lambda>a. call a requestATL) s w"
| "upcall call releaseATL s w = request_first (\<lambda>a. call a releaseATL) s w"
| "upcall call requestSuplES s w = request_first (\<lambda>a. call a requestSuplES) s w"
| "upcall call reportDataCallOpened s w = request_first (\<lambda>a. call a reportDataCallOpened) s w"
| "upcall call reportDataCallClosed s w = request_first (\<lambda>a. call a reportDataCallClosed) s w"
| "upcall call requestNiNotify s w = request_first (\<lambda>a. call a requestNiNotify) s w"
| "upcall call reportGpsMeasurementData s w = report_all (\<lambda>a w. snd (call a reportGpsMeasurementData w)) s w"

text \<open>An adapter that overrides nothing and has no proxy handles no request and ignores the reports.\<close>

definition LocAdapterBase_call :: "addr \<Rightarrow> api_upcall \<Rightarrow> 's \<Rightarrow> bool \<times> 's" where
  "LocAdapterBase_call a u w = (False, w)"

text \<open>\<open>LocAdapterBase::updateEvtMask\<close>: the adapter changes its mask and tells the modem.\<close>

definition adapter_updateEvtMask ::
  "addr \<Rightarrow> uint32 \<Rightarrow> bool \<Rightarrow> (addr \<Rightarrow> uint32) \<times> loc_api \<Rightarrow> (addr \<Rightarrow> uint32) \<times> loc_api" where
  "adapter_updateEvtMask a event isEnabled = (\<lambda>(evt, s).
     (let evt' = evt(a := (if isEnabled then or (evt a) event else and (evt a) (not event)))
      in (evt', updateEvtMask evt' s)))"

definition saveSupportedMsgList :: "uint64 \<Rightarrow> loc_api \<Rightarrow> loc_api" where
  "saveSupportedMsgList l s = s\<lparr>mSupportedMsg := l\<rparr>"

text \<open>
  \<open>isMessageSupported\<close>: \<open>1 << msgID\<close> is a shift of an \<open>int\<close>, without a meaning for 32 and more,
  which is \<open>None\<close>.
\<close>

definition isMessageSupported :: "nat \<Rightarrow> loc_api \<Rightarrow> bool option" where
  "isMessageSupported msgID s =
     (if msgID > push_bit 3 8 then Some False
      else if msgID \<ge> 32 then None
      else (let messageChecker = push_bit msgID 1 :: uint32
            in Some (and (ucast messageChecker) (mSupportedMsg s) = (ucast messageChecker :: uint64))))"

section \<open>The table as a list\<close>

text \<open>The adapters fill the front of the table; behind them there are only free slots.\<close>

definition slots :: "addr list \<Rightarrow> addr option list" where
  "slots xs = map Some xs @ replicate (MAX_ADAPTERS - length xs) None"

lemma slots_nth: "i < MAX_ADAPTERS \<Longrightarrow> slots xs ! i = (if i < length xs then Some (xs ! i) else None)"
  by (auto simp: slots_def nth_append)

lemma slots_None: "length xs \<le> i \<Longrightarrow> i < MAX_ADAPTERS \<Longrightarrow> slots xs ! i = None"
  by (simp add: slots_nth)

lemma length_slots: "length xs \<le> MAX_ADAPTERS \<Longrightarrow> length (slots xs) = MAX_ADAPTERS"
  by (simp add: slots_def)

lemma to_all_slots:
  assumes "length xs \<le> MAX_ADAPTERS"
  shows "to_all call i (slots xs) s = fold call (drop i xs) s"
proof (induction "MAX_ADAPTERS - i" arbitrary: i s rule: less_induct)
  case less
  show ?case
  proof (cases "i < length xs")
    case True
    then have "i < MAX_ADAPTERS" using assms by simp
    moreover have "drop i xs = xs ! i # drop (i + 1) xs" using True by (simp add: Cons_nth_drop_Suc)
    ultimately show ?thesis
      using True less [of "i + 1"] by (subst to_all.simps) (simp add: slots_nth)
  next
    case False
    then show ?thesis by (subst to_all.simps) (simp add: slots_None)
  qed
qed

fun first_handling :: "(addr \<Rightarrow> 's \<Rightarrow> bool \<times> 's) \<Rightarrow> addr list \<Rightarrow> 's \<Rightarrow> 's" where
  "first_handling call [] s = s"
| "first_handling call (a # as) s =
     (if fst (call a s) then snd (call a s) else first_handling call as (snd (call a s)))"

lemma to_1st_slots:
  assumes "length xs \<le> MAX_ADAPTERS"
  shows "to_1st_handling call i (slots xs) s = first_handling call (drop i xs) s"
proof (induction "MAX_ADAPTERS - i" arbitrary: i s rule: less_induct)
  case less
  show ?case
  proof (cases "i < length xs")
    case True
    then have "i < MAX_ADAPTERS" using assms by simp
    moreover have "drop i xs = xs ! i # drop (i + 1) xs" using True by (simp add: Cons_nth_drop_Suc)
    ultimately show ?thesis
      using True less [of "i + 1"] by (subst to_1st_handling.simps) (simp add: slots_nth case_prod_beta Let_def)
  next
    case False
    then show ?thesis by (subst to_1st_handling.simps) (simp add: slots_None)
  qed
qed

lemma in_session_slots:
  assumes "length xs \<le> MAX_ADAPTERS"
  shows "is_in_session sess b i (slots xs) \<longleftrightarrow> b \<or> (\<exists>a \<in> set (drop i xs). sess a)"
proof (induction "MAX_ADAPTERS - i" arbitrary: i b rule: less_induct)
  case less
  show ?case
  proof (cases "i < length xs")
    case True
    then have "i < MAX_ADAPTERS" using assms by simp
    moreover have "drop i xs = xs ! i # drop (i + 1) xs" using True by (simp add: Cons_nth_drop_Suc)
    ultimately show ?thesis
      using True less [of "i + 1"] by (subst is_in_session.simps) (simp add: slots_nth)
  next
    case False
    then show ?thesis by (subst is_in_session.simps) (simp add: slots_None)
  qed
qed

text \<open>The operations on the list.\<close>

definition add_list :: "addr \<Rightarrow> addr list \<Rightarrow> addr list" where
  "add_list a xs = (if a \<in> set xs \<or> length xs = MAX_ADAPTERS then xs else xs @ [a])"

lemma add_loop_slots:
  assumes "length xs \<le> MAX_ADAPTERS" "mLocAdapters s = slots xs" "i \<le> length xs" "a \<notin> set (take i xs)"
  shows "add_loop evt a i s =
    (if a \<in> set xs \<or> length xs = MAX_ADAPTERS then s
     else api_send (LocOpenMsg (evt a)) (s\<lparr>mLocAdapters := slots (xs @ [a])\<rparr>))"
  using assms(3,4)
proof (induction "MAX_ADAPTERS - i" arbitrary: i rule: less_induct)
  case less
  show ?case
  proof (cases "i < length xs")
    case True
    then have i: "i < MAX_ADAPTERS" "slots xs ! i = Some (xs ! i)" using assms(1) by (simp_all add: slots_nth)
    show ?thesis
    proof (cases "xs ! i = a")
      case True
      then show ?thesis using \<open>i < length xs\<close> i by (subst add_loop.simps) (auto simp: assms(2))
    next
      case False
      then have "a \<notin> set (take (i + 1) xs)" using less.prems \<open>i < length xs\<close> by (simp add: take_Suc_conv_app_nth)
      then show ?thesis
        using less.hyps [of "i + 1"] i False \<open>i < length xs\<close> by (subst add_loop.simps) (simp add: assms(2))
    qed
  next
    case False
    then have i: "i = length xs" "a \<notin> set xs" using less.prems by simp_all
    show ?thesis
    proof (cases "length xs < MAX_ADAPTERS")
      case True
      then have "slots xs ! i = None" using i by (simp add: slots_nth)
      moreover have "(slots xs)[i := Some a] = slots (xs @ [a])"
        using True i by (simp add: slots_def list_update_append Suc_diff_Suc flip: replicate_Suc)
          (metis Suc_diff_Suc list_update_code(2) replicate_Suc)
      ultimately show ?thesis using True i by (subst add_loop.simps) (simp add: assms(2))
    next
      case False
      then show ?thesis using i assms(1) by (subst add_loop.simps) simp
    qed
  qed
qed

definition remove_list :: "addr \<Rightarrow> addr list \<Rightarrow> addr list" where
  "remove_list a xs =
     (if a \<in> set xs then butlast (xs[length (takeWhile (\<lambda>x. x \<noteq> a) xs) := last xs]) else xs)"

lemma last_used_slots:
  assumes "length xs \<le> MAX_ADAPTERS" "j \<le> i" "i < length xs"
  shows "last_used i ((slots xs)[j := None]) = length xs - 1"
  using assms(2,3)
proof (induction "MAX_ADAPTERS - i" arbitrary: i rule: less_induct)
  case less
  then have nth: "i + 1 < MAX_ADAPTERS \<Longrightarrow> (slots xs)[j := None] ! (i + 1) = slots xs ! (i + 1)" by simp
  show ?case
  proof (cases "i + 1 < length xs")
    case True
    then have "i + 1 < MAX_ADAPTERS" using assms(1) by simp
    moreover from this have "(slots xs)[j := None] ! (i + 1) \<noteq> None" using True nth by (simp add: slots_nth)
    ultimately show ?thesis using less True by (subst last_used.simps) simp
  next
    case False
    then have "\<not> (i + 1 < MAX_ADAPTERS \<and> (slots xs)[j := None] ! (i + 1) \<noteq> None)"
      using nth slots_None [of xs "i + 1"] by auto
    then have "last_used i ((slots xs)[j := None]) = i" by (subst last_used.simps) (simp only: if_False)
    then show ?thesis using less.prems False by simp
  qed
qed

lemma remove_slot_slots:
  assumes "length xs \<le> MAX_ADAPTERS" "j < length xs"
  shows "remove_slot j (slots xs) = slots (butlast (xs[j := last xs]))"
proof (rule nth_equalityI)
  have k: "last_used j ((slots xs)[j := None]) = length xs - 1" using last_used_slots assms by blast
  have ne: "xs \<noteq> []" using assms(2) by auto
  show len: "length (remove_slot j (slots xs)) = length (slots (butlast (xs[j := last xs])))"
    using assms length_slots by (simp add: remove_slot_def Let_def)
  fix i assume "i < length (remove_slot j (slots xs))"
  then have i: "i < MAX_ADAPTERS" using assms(1) length_slots by (simp add: remove_slot_def Let_def)
  have l: "length xs - 1 < MAX_ADAPTERS" "j < MAX_ADAPTERS" using assms by simp_all
  show "remove_slot j (slots xs) ! i = slots (butlast (xs[j := last xs])) ! i"
  proof (cases "i = length xs - 1")
    case True
    then show ?thesis using i assms length_slots [OF assms(1)]
      by (simp add: remove_slot_def Let_def k slots_nth)
  next
    case False
    then have "remove_slot j (slots xs) ! i =
        (if i = j then (if j = length xs - 1 then None else slots xs ! (length xs - 1)) else slots xs ! i)"
      using i l length_slots [OF assms(1)] by (simp add: remove_slot_def Let_def k)
    also have "\<dots> = slots (butlast (xs[j := last xs])) ! i"
      using i False assms(2) l ne by (auto simp: slots_nth nth_butlast last_conv_nth)
    finally show ?thesis .
  qed
qed

lemma remove_loop_absent:
  assumes "length xs \<le> MAX_ADAPTERS" "mLocAdapters s = slots xs" "a \<notin> set (drop i xs)"
  shows "remove_loop evt a i s = s"
  using assms(3)
proof (induction "MAX_ADAPTERS - i" arbitrary: i rule: less_induct)
  case less
  show ?case
  proof (cases "i < length xs")
    case True
    then have i: "i < MAX_ADAPTERS" "slots xs ! i = Some (xs ! i)" using assms(1) by (simp_all add: slots_nth)
    have "drop i xs = xs ! i # drop (i + 1) xs" using True by (simp add: Cons_nth_drop_Suc)
    then have "xs ! i \<noteq> a" "a \<notin> set (drop (i + 1) xs)" using less.prems by auto
    then show ?thesis using less.hyps [of "i + 1"] i by (subst remove_loop.simps) (simp add: assms(2))
  next
    case False
    then have "\<not> (i < MAX_ADAPTERS \<and> mLocAdapters s ! i \<noteq> None)" by (auto simp: assms(2) slots_None)
    then show ?thesis by (subst remove_loop.simps) (simp only: if_False)
  qed
qed

lemma remove_loop_slots:
  assumes "length xs \<le> MAX_ADAPTERS" "mLocAdapters s = slots xs" "distinct xs" "i \<le> length xs"
    "a \<notin> set (take i xs)" "a \<in> set xs"
  shows "\<exists>s1. mLocAdapters s1 = slots (remove_list a xs) \<and> mExcludedMask s1 = mExcludedMask s \<and>
    remove_loop evt a i s =
      (if length xs = 1 then s1\<lparr>api_calls := api_calls s @ [Api_close], api_queue := api_queue s\<rparr>
       else s1\<lparr>api_calls := api_calls s, api_queue := api_queue s @ [LocOpenMsg (getEvtMask evt s1)]\<rparr>)"
  using assms(4,5)
proof (induction "MAX_ADAPTERS - i" arbitrary: i rule: less_induct)
  case less
  have "i < length xs" using less.prems assms(6) by (cases "i = length xs") auto
  then have i: "i < MAX_ADAPTERS" "slots xs ! i = Some (xs ! i)" using assms(1) by (simp_all add: slots_nth)
  show ?case
  proof (cases "xs ! i = a")
    case True
    have "length (takeWhile (\<lambda>x. x \<noteq> a) xs) = i"
    proof -
      have "xs = take i xs @ a # drop (i + 1) xs" using True \<open>i < length xs\<close> by (metis Suc_eq_plus1 id_take_nth_drop)
      moreover have "takeWhile (\<lambda>x. x \<noteq> a) (take i xs @ a # drop (i + 1) xs) = take i xs"
        using less.prems(2) by (auto simp: takeWhile_append)
      ultimately have "takeWhile (\<lambda>x. x \<noteq> a) xs = take i xs" by simp
      then show ?thesis using \<open>i < length xs\<close> by simp
    qed
    then have rm: "remove_list a xs = butlast (xs[i := last xs])" using assms(6) by (simp add: remove_list_def)
    let ?k = "length xs - 1"
    have k: "last_used i ((slots xs)[i := None]) = ?k" using last_used_slots assms(1) \<open>i < length xs\<close> by blast
    define s1 where "s1 = s\<lparr>mLocAdapters := remove_slot i (slots xs)\<rparr>"
    have s1: "mLocAdapters s1 = slots (remove_list a xs)"
      using remove_slot_slots [OF assms(1) \<open>i < length xs\<close>] by (simp add: s1_def rm)
    define s2 where "s2 = (if ?k = 0 then s1\<lparr>api_calls := api_calls s1 @ [Api_close]\<rparr>
      else api_send (LocOpenMsg (getEvtMask evt s1)) s1)"
    have "remove_loop evt a i s = remove_loop evt a (?k + 1) s2"
      using i True by (subst remove_loop.simps) (simp add: assms(2) k Let_def s1_def [symmetric] s2_def)
    also have "\<dots> = s2"
    proof (rule remove_loop_absent)
      show "length (remove_list a xs) \<le> MAX_ADAPTERS" using assms(1) by (simp add: rm)
      show "mLocAdapters s2 = slots (remove_list a xs)" using s1 by (simp add: s2_def api_send_def)
      show "a \<notin> set (drop (?k + 1) (remove_list a xs))" by (simp add: rm)
    qed
    finally have eq: "remove_loop evt a i s = s2" .
    show ?thesis
    proof (intro exI conjI)
      show "mExcludedMask s1 = mExcludedMask s" by (simp add: s1_def)
      show "remove_loop evt a i s =
          (if length xs = 1 then s1\<lparr>api_calls := api_calls s @ [Api_close], api_queue := api_queue s\<rparr>
           else s1\<lparr>api_calls := api_calls s, api_queue := api_queue s @ [LocOpenMsg (getEvtMask evt s1)]\<rparr>)"
        using \<open>i < length xs\<close> unfolding eq by (auto simp: s2_def s1_def api_send_def)
    qed (rule s1)
  next
    case False
    then have "a \<notin> set (take (i + 1) xs)" using less.prems \<open>i < length xs\<close> by (simp add: take_Suc_conv_app_nth)
    have eq: "remove_loop evt a i s = remove_loop evt a (i + 1) s"
      using i False by (subst remove_loop.simps) (simp add: assms(2))
    show ?thesis
      unfolding eq using less.hyps [of "i + 1"] i(1) \<open>i < length xs\<close> \<open>a \<notin> set (take (i + 1) xs)\<close> by simp
  qed
qed

text \<open>
  The contract of a register with room for a number of entries, and what a client may rely on after
  any calls: the entries are those that were added and not removed, each once.
\<close>

locale register =
  fixes rep :: "'r \<Rightarrow> 'a list \<Rightarrow> bool" and put :: "'a \<Rightarrow> 'r \<Rightarrow> 'r" and del :: "'a \<Rightarrow> 'r \<Rightarrow> 'r" and room :: nat
  assumes put_rep: "rep r xs \<Longrightarrow>
      \<exists>ys. rep (put a r) ys \<and> set ys = (if card (set xs) < room then insert a (set xs) else set xs)"
    and del_rep: "rep r xs \<Longrightarrow> \<exists>ys. rep (del a r) ys \<and> set ys = set xs - {a}"
    and rep_distinct: "rep r xs \<Longrightarrow> distinct xs"
begin

definition step :: "'a + 'a \<Rightarrow> 'r \<Rightarrow> 'r" where
  "step x = (case x of Inl a \<Rightarrow> put a | Inr a \<Rightarrow> del a)"

definition entries :: "('a + 'a) list \<Rightarrow> 'a set \<Rightarrow> 'a set" where
  "entries ops A = fold (\<lambda>x A. case x of
     Inl a \<Rightarrow> if card A < room then insert a A else A | Inr a \<Rightarrow> A - {a}) ops A"

lemma run_entries: "rep r xs \<Longrightarrow> \<exists>ys. rep (fold step ops r) ys \<and> set ys = entries ops (set xs)"
proof (induction ops arbitrary: r xs)
  case (Cons x ops)
  have "\<exists>ys. rep (step x r) ys \<and> set ys = (case x of
      Inl a \<Rightarrow> if card (set xs) < room then insert a (set xs) else set xs | Inr a \<Rightarrow> set xs - {a})"
    using put_rep [OF Cons.prems] del_rep [OF Cons.prems] by (auto simp: step_def split: sum.split)
  then obtain ys where "rep (step x r) ys" and ys: "set ys = (case x of
      Inl a \<Rightarrow> if card (set xs) < room then insert a (set xs) else set xs | Inr a \<Rightarrow> set xs - {a})" by blast
  from Cons.IH [OF this(1)] show ?case unfolding ys by (simp add: entries_def split: sum.splits)
qed (auto simp: entries_def)

end

definition api_rep :: "loc_api \<Rightarrow> addr list \<Rightarrow> bool" where
  "api_rep s xs \<longleftrightarrow> mLocAdapters s = slots xs \<and> distinct xs \<and> length xs \<le> MAX_ADAPTERS"

lemma addAdapter_rep:
  assumes "api_rep s xs"
  shows "api_rep (addAdapter evt a s) (add_list a xs)"
proof -
  have "addAdapter evt a s = (if a \<in> set xs \<or> length xs = MAX_ADAPTERS then s
     else api_send (LocOpenMsg (evt a)) (s\<lparr>mLocAdapters := slots (xs @ [a])\<rparr>))"
    using assms unfolding addAdapter_def api_rep_def by (intro add_loop_slots) auto
  then show ?thesis using assms by (auto simp: api_rep_def add_list_def api_send_def)
qed

lemma set_remove_list:
  assumes "distinct xs" "a \<in> set xs"
  shows "distinct (remove_list a xs)" "set (remove_list a xs) = set xs - {a}"
    "length (remove_list a xs) \<le> length xs"
proof -
  define ys where "ys = takeWhile (\<lambda>x. x \<noteq> a) xs"
  obtain zs where xs: "xs = ys @ a # zs"
    using assms(2) unfolding ys_def by (metis (mono_tags, lifting) dropWhile_eq_Cons_conv dropWhile_eq_Nil_conv
      list.exhaust takeWhile_dropWhile_id)
  have rm: "remove_list a xs = butlast (xs[length ys := last xs])" using assms(2) by (simp add: remove_list_def ys_def)
  have "remove_list a xs = (if zs = [] then ys else ys @ last zs # butlast zs)"
    unfolding rm unfolding xs by (simp add: butlast_append)
  moreover have "zs \<noteq> [] \<Longrightarrow> set zs = insert (last zs) (set (butlast zs)) \<and> last zs \<notin> set (butlast zs)
      \<and> distinct (butlast zs)"
    using assms(1) unfolding xs by (cases zs rule: rev_cases) auto
  ultimately show "distinct (remove_list a xs)" "set (remove_list a xs) = set xs - {a}"
      "length (remove_list a xs) \<le> length xs"
    using assms(1) unfolding xs by (auto dest: in_set_butlastD)
qed

lemma removeAdapter_rep:
  assumes "api_rep s xs"
  shows "api_rep (removeAdapter evt a s) (remove_list a xs)"
proof (cases "a \<in> set xs")
  case True
  from assms True obtain s1 where "mLocAdapters s1 = slots (remove_list a xs)"
    and "removeAdapter evt a s =
      (if length xs = 1 then s1\<lparr>api_calls := api_calls s @ [Api_close], api_queue := api_queue s\<rparr>
       else s1\<lparr>api_calls := api_calls s, api_queue := api_queue s @ [LocOpenMsg (getEvtMask evt s1)]\<rparr>)"
    unfolding removeAdapter_def api_rep_def using remove_loop_slots [of xs s 0 a evt] by auto
  then have "mLocAdapters (removeAdapter evt a s) = slots (remove_list a xs)" by simp
  then show ?thesis using assms set_remove_list [OF _ True] by (simp add: api_rep_def)
next
  case False
  then have "removeAdapter evt a s = s"
    using assms unfolding removeAdapter_def api_rep_def by (intro remove_loop_absent) auto
  then show ?thesis using assms False by (simp add: remove_list_def)
qed

interpretation adapters: register api_rep "addAdapter evt" "removeAdapter evt" MAX_ADAPTERS for evt
proof
  fix s xs a assume rep: "api_rep s xs"
  then have len: "distinct xs" "length xs \<le> MAX_ADAPTERS" by (simp_all add: api_rep_def)
  then have "set (add_list a xs) = (if card (set xs) < MAX_ADAPTERS then insert a (set xs) else set xs)"
    by (auto simp: add_list_def distinct_card)
  then show "\<exists>ys. api_rep (addAdapter evt a s) ys \<and>
      set ys = (if card (set xs) < MAX_ADAPTERS then insert a (set xs) else set xs)"
    using addAdapter_rep [OF rep] by blast
  have "set (remove_list a xs) = set xs - {a}"
    using set_remove_list(2) [OF len(1)] by (cases "a \<in> set xs") (auto simp: remove_list_def)
  then show "\<exists>ys. api_rep (removeAdapter evt a s) ys \<and> set ys = set xs - {a}"
    using removeAdapter_rep [OF rep] by blast
  show "distinct xs" by (rule len(1))
qed

section \<open>Delivery\<close>

definition api_step :: "(addr \<Rightarrow> uint32) \<Rightarrow> addr + addr \<Rightarrow> loc_api \<Rightarrow> loc_api" where
  "api_step evt x = (case x of Inl a \<Rightarrow> addAdapter evt a | Inr a \<Rightarrow> removeAdapter evt a)"

text \<open>The adapters after a number of additions and removals; an eleventh adapter is not taken.\<close>

definition registered :: "(addr + addr) list \<Rightarrow> addr set" where
  "registered ops = fold (\<lambda>x A. case x of
     Inl a \<Rightarrow> if card A < MAX_ADAPTERS then insert a A else A | Inr a \<Rightarrow> A - {a}) ops {}"

lemma new_rep: "api_rep (new_LocApiBase ex) []"
  by (simp add: api_rep_def new_LocApiBase_def slots_def)

lemma api_run_rep:
  obtains xs where "api_rep (fold (api_step evt) ops (new_LocApiBase ex)) xs" "set xs = registered ops"
proof -
  have "adapters.step evt = api_step evt" by (rule ext) (simp add: adapters.step_def api_step_def)
  with adapters.run_entries [OF new_rep [of ex], of evt ops] show ?thesis
    using that by (auto simp: adapters.entries_def registered_def)
qed

lemma api_step_excluded: "mExcludedMask (api_step evt x s) = mExcludedMask s"
proof -
  have "mExcludedMask (add_loop evt a i s) = mExcludedMask s" for a i
    by (induction evt a i s rule: add_loop.induct) (subst add_loop.simps, simp add: api_send_def)
  moreover have "mExcludedMask (remove_loop evt a i s) = mExcludedMask s" for a i
  proof (induction evt a i s rule: remove_loop.induct)
    case (1 evt a i s)
    then show ?case by (subst remove_loop.simps) (simp add: api_send_def Let_def)
  qed
  ultimately show ?thesis by (simp add: api_step_def addAdapter_def removeAdapter_def split: sum.split)
qed

lemma fold_log: "fold (\<lambda>a l. l @ [a]) xs l = l @ xs"
  by (induction xs arbitrary: l) auto

text \<open>What a request that stops at the first handler shows of the adapters.\<close>

definition up_to_handler :: "('a \<Rightarrow> bool) \<Rightarrow> 'a list \<Rightarrow> 'a list" where
  "up_to_handler h xs = takeWhile (\<lambda>a. \<not> h a) xs @ take 1 (dropWhile (\<lambda>a. \<not> h a) xs)"

lemma first_handling_log:
  "first_handling (\<lambda>a l. (h a, l @ [a])) xs l = l @ up_to_handler h xs"
  by (induction xs arbitrary: l) (auto simp: up_to_handler_def)

definition broadcast :: "api_upcall \<Rightarrow> bool" where
  "broadcast u \<longleftrightarrow>
     u \<in> {reportPosition, reportSv, reportStatus, reportNmea, reportGpsMeasurementData}"

lemma upcall_two_ways:
  "upcall call u s w =
     (if broadcast u then report_all (\<lambda>a w. snd (call a u w)) s w else request_first (\<lambda>a. call a u) s w)"
  by (cases u) (simp_all add: broadcast_def)

text \<open>
  C13: After any additions and removals the adapters that are registered are in the table once each, and
  what comes from the modem is shown to them in the order of the table: a position, a satellite, state, NMEA or
  measurement report to all of them, anything else to those in front of the first that handles it and to this
  one.
\<close>

theorem api_upcalls_delivered:
  "\<exists>xs. distinct xs \<and> set xs = registered ops \<and>
     (\<forall>u handles. upcall (\<lambda>a u l. (handles a u, l @ [a])) u (fold (api_step evt) ops (new_LocApiBase ex)) [] =
        (if broadcast u then xs else up_to_handler (\<lambda>a. handles a u) xs))"
proof -
  let ?s = "fold (api_step evt) ops (new_LocApiBase ex)"
  obtain xs where xs: "api_rep ?s xs" "set xs = registered ops" by (rule api_run_rep)
  then have "upcall (\<lambda>a u l. (handles a u, l @ [a])) u ?s [] =
      (if broadcast u then xs else up_to_handler (\<lambda>a. handles a u) xs)" for u handles
    by (simp add: upcall_two_ways report_all_def request_first_def api_rep_def to_all_slots to_1st_slots fold_log
        first_handling_log)
  then show ?thesis using xs by (auto simp: api_rep_def)
qed

lemma event_mask_of_rep:
  assumes "api_rep s xs"
  shows "bit (getEvtMask evt s) n \<longleftrightarrow> (\<exists>a \<in> set xs. bit (evt a) n) \<and> \<not> bit (mExcludedMask s) n"
proof -
  have ors: "bit (fold (\<lambda>a m. or m (evt a)) xs m) n \<longleftrightarrow> bit m n \<or> (\<exists>a \<in> set xs. bit (evt a) n)" for xs m
    by (induction xs arbitrary: m) (auto simp: bit_or_iff)
  have "bit (evt a) n \<Longrightarrow> n < 32" for a using bit_imp_le_length [of "evt a" n] by simp
  then show ?thesis
    using assms by (auto simp: getEvtMask_def api_rep_def to_all_slots ors bit_and_iff bit_not_iff)
qed

lemma run_excluded: "mExcludedMask (fold (api_step evt) ops (new_LocApiBase ex)) = ex"
proof -
  have "mExcludedMask (fold (api_step evt) ops s) = mExcludedMask s" for s
    by (induction ops arbitrary: s) (simp_all add: api_step_excluded)
  then show ?thesis by (simp add: new_LocApiBase_def)
qed

lemma event_mask_bits:
  assumes "api_rep (fold (api_step evt) ops (new_LocApiBase ex)) xs" "set xs = registered ops"
  shows "bit (getEvtMask evt (fold (api_step evt) ops (new_LocApiBase ex))) n \<longleftrightarrow>
    (\<exists>a \<in> registered ops. bit (evt a) n) \<and> \<not> bit ex n"
  by (simp add: event_mask_of_rep [OF assms(1)] assms(2) run_excluded)

text \<open>The events that are asked of the modem: those an adapter wants and the context does not exclude.\<close>

theorem api_event_mask:
  "bit (getEvtMask evt (fold (api_step evt) ops (new_LocApiBase ex))) n \<longleftrightarrow>
   (\<exists>a \<in> registered ops. bit (evt a) n) \<and> \<not> bit ex n"
  using api_run_rep event_mask_bits by metis

lemma removeAdapter_effect:
  assumes "api_rep s xs" "a \<in> set xs"
  shows "\<exists>s1. api_rep s1 (remove_list a xs) \<and> mExcludedMask s1 = mExcludedMask s \<and>
    removeAdapter evt a s =
      (if length xs = 1 then s1\<lparr>api_calls := api_calls s @ [Api_close], api_queue := api_queue s\<rparr>
       else s1\<lparr>api_calls := api_calls s, api_queue := api_queue s @ [LocOpenMsg (getEvtMask evt s1)]\<rparr>)"
proof -
  have len: "mLocAdapters s = slots xs" "distinct xs" "length xs \<le> MAX_ADAPTERS"
    using assms(1) by (simp_all add: api_rep_def)
  from remove_loop_slots [OF len(3,1,2), of 0 a evt] assms(2) obtain s1 where
    s1: "mLocAdapters s1 = slots (remove_list a xs)" "mExcludedMask s1 = mExcludedMask s"
      "removeAdapter evt a s =
        (if length xs = 1 then s1\<lparr>api_calls := api_calls s @ [Api_close], api_queue := api_queue s\<rparr>
         else s1\<lparr>api_calls := api_calls s, api_queue := api_queue s @ [LocOpenMsg (getEvtMask evt s1)]\<rparr>)"
    unfolding removeAdapter_def by auto
  have "api_rep s1 (remove_list a xs)"
    using s1(1) set_remove_list [OF len(2) assms(2)] len(3) by (simp add: api_rep_def)
  with s1(2,3) show ?thesis by blast
qed

text \<open>
  Taking out an adapter asks the modem for the events that the others still want, and closes the
  connection exactly when it was the last.
\<close>

theorem api_remove_renegotiates:
  assumes "a \<in> registered ops"
    and "removeAdapter evt a (fold (api_step evt) ops (new_LocApiBase ex)) = s'"
  shows "(registered ops = {a} \<longrightarrow>
      api_calls s' = api_calls (fold (api_step evt) ops (new_LocApiBase ex)) @ [Api_close]) \<and>
    (registered ops \<noteq> {a} \<longrightarrow> (\<exists>m. api_queue s' = api_queue (fold (api_step evt) ops (new_LocApiBase ex)) @ [LocOpenMsg m]
       \<and> (\<forall>n. bit m n \<longleftrightarrow> (\<exists>b \<in> registered ops - {a}. bit (evt b) n) \<and> \<not> bit ex n)))"
proof -
  let ?s = "fold (api_step evt) ops (new_LocApiBase ex)"
  obtain xs where xs: "api_rep ?s xs" "set xs = registered ops" by (rule api_run_rep)
  then obtain s1 where s1: "api_rep s1 (remove_list a xs)" "mExcludedMask s1 = mExcludedMask ?s"
    and s': "s' = (if length xs = 1 then s1\<lparr>api_calls := api_calls ?s @ [Api_close], api_queue := api_queue ?s\<rparr>
       else s1\<lparr>api_calls := api_calls ?s, api_queue := api_queue ?s @ [LocOpenMsg (getEvtMask evt s1)]\<rparr>)"
    using removeAdapter_effect [of ?s xs a evt] assms by auto
  have "distinct xs" using xs(1) by (simp add: api_rep_def)
  have "length xs = card (registered ops)" using distinct_card [OF \<open>distinct xs\<close>] xs(2) by simp
  moreover have "card (registered ops) = 1 \<longleftrightarrow> registered ops = {a}"
  proof
    assume "card (registered ops) = 1"
    then obtain x where "registered ops = {x}" by (rule card_1_singletonE)
    then show "registered ops = {a}" using assms(1) by simp
  qed simp
  ultimately have len: "length xs = 1 \<longleftrightarrow> registered ops = {a}" by (simp only:)
  have "set (remove_list a xs) = registered ops - {a}"
    using set_remove_list [OF \<open>distinct xs\<close>, of a] assms(1) xs(2) by simp
  then have "bit (getEvtMask evt s1) n \<longleftrightarrow> (\<exists>b \<in> registered ops - {a}. bit (evt b) n) \<and> \<not> bit ex n" for n
    using event_mask_of_rep [OF s1(1), of evt n] s1(2) by (simp add: run_excluded)
  then show ?thesis unfolding s' using len by simp
qed

theorem api_remove_renegotiates_witness:
  "\<exists>m. api_queue (removeAdapter (\<lambda>a. if a = 1 then 3 else 6) 1
       (fold (api_step (\<lambda>a. if a = 1 then 3 else 6)) [Inl 1, Inl 2] (new_LocApiBase 2))) =
     api_queue (fold (api_step (\<lambda>a. if a = 1 then 3 else 6)) [Inl 1, Inl 2] (new_LocApiBase 2)) @ [LocOpenMsg m]
     \<and> (\<forall>n. bit m n \<longleftrightarrow> (\<exists>b \<in> {2 :: addr}. bit (if b = 1 then 3 else 6 :: uint32) n) \<and> \<not> bit (2 :: uint32) n)"
proof -
  have reg: "registered [Inl 1, Inl 2] = {1, 2 :: addr}" by (simp add: registered_def MAX_ADAPTERS_def insert_commute)
  then have "1 \<in> registered [Inl 1, Inl 2]" "registered [Inl 1, Inl 2] \<noteq> {1}"
    "registered [Inl 1, Inl 2] - {1} = {2}" by auto
  then show ?thesis
    using api_remove_renegotiates [of 1 "[Inl 1, Inl 2]" "\<lambda>a. if a = 1 then 3 else 6" 2, OF _ refl] by (simp only: simp_thms)
qed

theorem message_supported_bits:
  "isMessageSupported msgID s =
     (if msgID > 64 then Some False else if msgID \<ge> 32 then None else Some (bit (mSupportedMsg s) msgID))"
proof (cases "msgID < 32")
  case True
  have one: "ucast (push_bit msgID 1 :: uint32) = (push_bit msgID 1 :: uint64)"
    using True by (intro bit_eqI) (auto simp: bit_simps)
  have "(and (push_bit msgID 1) m = push_bit msgID 1) \<longleftrightarrow> bit m msgID" for m :: uint64
  proof
    assume h: "and (push_bit msgID 1) m = push_bit msgID 1"
    have "bit (push_bit msgID 1 :: uint64) msgID" using True by (simp add: bit_simps)
    then show "bit m msgID" using h by (metis bit_and_iff)
  next
    assume "bit m msgID"
    then show "and (push_bit msgID 1) m = push_bit msgID 1"
      by (intro bit_eqI) (auto simp: bit_simps bit_1_iff)
  qed
  then show ?thesis using True unfolding isMessageSupported_def Let_def one by simp
next
  case False
  then show ?thesis by (simp add: isMessageSupported_def push_bit_eq_mult)
qed

section \<open>Conversions\<close>

text \<open>
  \<open>hexcode\<close>: the bytes whose two digits fit the string with its end, and their number.  With none,
  the string is left as it is.
\<close>

fun hex_loop :: "int \<Rightarrow> nat \<Rightarrow> uint8 list \<Rightarrow> string \<Rightarrow> nat \<times> string" where
  "hex_loop string_size i [] hexstring = (i, hexstring)"
| "hex_loop string_size i (ch # bytes) hexstring =
     (if int i * 2 + 3 \<le> string_size
      then hex_loop string_size (i + 1) bytes
             (hexstring @ [hex_digit (unat ch div 16), hex_digit (unat ch mod 16)])
      else (i, hexstring))"

definition hexcode :: "int \<Rightarrow> uint8 list \<Rightarrow> nat \<times> string" where
  "hexcode string_size bytes = hex_loop string_size 0 bytes []"

text \<open>
  \<open>decodeAddress\<close>: the digits of a packed address, low half first, that fit the string.  \<open>None\<close> is a
  read or write outside of the arrays: there is always a first byte read, and an end written.
\<close>

fun decode_loop :: "int \<Rightarrow> uint8 list \<Rightarrow> string \<Rightarrow> string" where
  "decode_loop string_size [] out = out"
| "decode_loop string_size (ch # bytes) out =
     (let low = unat (and ch 0x0F); hi = unat (drop_bit 4 ch);
          out1 = (if low \<le> 9 \<and> int (length out) < string_size - 1 then out @ [char_of (low + 48)] else out);
          out2 = (if hi \<le> 9 \<and> int (length out1) < string_size - 1 then out1 @ [char_of (hi + 48)] else out1)
      in decode_loop string_size bytes out2)"

definition decodeAddress :: "int \<Rightarrow> uint8 list \<Rightarrow> (nat \<times> string) option" where
  "decodeAddress string_size bytes =
     (case bytes of
        [] \<Rightarrow> None
      | b # bs \<Rightarrow>
          if string_size \<le> 0 then None
          else if b \<noteq> 0x91 then Some (0, [])
          else (let out = decode_loop string_size bs [] in Some (length out, out)))"

fun unhex :: "string \<Rightarrow> uint8 list" where
  "unhex (h # l # s) =
     (case (digit_of h, digit_of l) of
        (Some a, Some b) \<Rightarrow> word_of_int (a * 16 + b) # unhex s
      | _ \<Rightarrow> [])"
| "unhex _ = []"

lemma digit_of_hex: "d < 16 \<Longrightarrow> digit_of (hex_digit d) = Some (int d)"
proof -
  have "list_all (\<lambda>d. digit_of (hex_digit d) = Some (int d)) [0..<16]" by code_simp
  then show "d < 16 \<Longrightarrow> ?thesis" by (simp add: list_all_iff del: upt_rec_numeral)
qed

lemma unhex_append:
  "unhex s = bs \<Longrightarrow> length s = 2 * length bs \<Longrightarrow>
   unhex (s @ [hex_digit (unat ch div 16), hex_digit (unat ch mod 16)]) = bs @ [ch]"
proof (induction s arbitrary: bs rule: unhex.induct)
  case (1 h l s)
  then show ?case by (auto split: option.splits)
next
  case "2_1"
  have "unat ch < 2 ^ LENGTH(8)" by (rule unsigned_less)
  then have "unat ch < 256" by simp
  then have "unat ch div 16 < 16" by (simp add: div_less_iff_less_mult)
  moreover have "word_of_int (int (unat ch div 16) * 16 + int (unat ch mod 16)) = ch"
  proof -
    have "int (unat ch div 16) * 16 + int (unat ch mod 16) = int (unat ch)" by presburger
    then show ?thesis by (simp only: uint_nat [symmetric] word_of_int_uint)
  qed
  ultimately show ?case using "2_1" by (simp add: digit_of_hex)
qed simp

lemma hex_loop_result:
  assumes "unhex out = done_bytes" "length out = 2 * i" "length done_bytes = i"
  shows "\<exists>n s. hex_loop sz i bytes out = (i + n, s) \<and> n = min (length bytes) (nat ((sz - 1) div 2) - i) \<and>
    length s = 2 * (i + n) \<and> unhex s = done_bytes @ take n bytes"
  using assms
proof (induction bytes arbitrary: i out done_bytes)
  case (Cons ch bytes)
  let ?out = "out @ [hex_digit (unat ch div 16), hex_digit (unat ch mod 16)]"
  show ?case
  proof (cases "int i * 2 + 3 \<le> sz")
    case True
    have "unhex ?out = done_bytes @ [ch]" using unhex_append [OF Cons.prems(1)] Cons.prems by simp
    then have "\<exists>n s. hex_loop sz (i + 1) bytes ?out = (i + 1 + n, s) \<and>
        n = min (length bytes) (nat ((sz - 1) div 2) - (i + 1)) \<and> length s = 2 * (i + 1 + n) \<and>
        unhex s = (done_bytes @ [ch]) @ take n bytes"
      by (rule Cons.IH) (use Cons.prems in simp_all)
    then obtain n s where n: "hex_loop sz (i + 1) bytes ?out = (i + 1 + n, s)" "n = min (length bytes) (nat ((sz - 1) div 2) - (i + 1))"
      "length s = 2 * (i + 1 + n)" "unhex s = (done_bytes @ [ch]) @ take n bytes" by blast
    have "i + 1 \<le> nat ((sz - 1) div 2)" using True by linarith
    moreover have "k + 1 = min (Suc l) (m - i)" if "i + 1 \<le> m" "k = min l (m - (i + 1))" for k l m :: nat
      using that by (auto simp: min_def)
    ultimately have "n + 1 = min (length (ch # bytes)) (nat ((sz - 1) div 2) - i)" using n(2) by simp
    moreover have "hex_loop sz i (ch # bytes) out = (i + (n + 1), s)" using True n(1) by simp
    moreover have "length s = 2 * (i + (n + 1))" "unhex s = done_bytes @ take (n + 1) (ch # bytes)"
      using n(3,4) by simp_all
    ultimately show ?thesis by blast
  next
    case False
    then have "nat ((sz - 1) div 2) \<le> i" by linarith
    then show ?thesis using False Cons.prems by auto
  qed
qed auto

text \<open>
  The conversion writes as many bytes as have room for two digits each and the end of the string, says
  how many, and is undone by reading the digits.
\<close>

theorem hexcode_roundtrip:
  "let (n, s) = hexcode string_size bytes
   in n = min (length bytes) (nat ((string_size - 1) div 2)) \<and> length s = 2 * n \<and> unhex s = take n bytes"
  using hex_loop_result [of "[]" "[]" 0 string_size bytes] by (auto simp: hexcode_def)

text \<open>The packing of digits: two in a byte, the first in the low half, a missing last one as 15.\<close>

fun packed :: "nat list \<Rightarrow> uint8 list" where
  "packed [] = []"
| "packed [d] = [of_nat (0xF0 + d)]"
| "packed (d # e # ds) = of_nat (16 * e + d) # packed ds"

lemma halves:
  assumes "d < 16" "e < 16"
  shows "unat (and (of_nat (16 * e + d)) 0x0F :: uint8) = d" "unat (drop_bit 4 (of_nat (16 * e + d) :: uint8)) = e"
proof -
  have u: "unat (of_nat (16 * e + d) :: uint8) = 16 * e + d"
    using assms by (simp only: unat_of_nat) simp
  have "and (of_nat (16 * e + d)) 0x0F = take_bit 4 (of_nat (16 * e + d) :: uint8)"
    by (simp add: take_bit_eq_mask mask_eq_exp_minus_1)
  then show "unat (and (of_nat (16 * e + d)) 0x0F :: uint8) = d"
    using u assms by (simp add: unsigned_take_bit_eq take_bit_nat_def)
  show "unat (drop_bit 4 (of_nat (16 * e + d) :: uint8)) = e"
    using assms by (simp only: unsigned_drop_bit_eq u) (simp add: drop_bit_eq_div take_bit_eq_mod)
qed

lemma decode_packed:
  assumes "list_all (\<lambda>d. d < 10) ds" "int (length out) + int (length ds) < sz"
  shows "decode_loop sz (packed ds) out = out @ map (\<lambda>d. char_of (d + 48)) ds"
  using assms
proof (induction ds arbitrary: out rule: packed.induct)
  case (2 d)
  then show ?case using halves [of d 15] by (simp add: Let_def)
next
  case (3 d e ds)
  then show ?case using halves [of d e] by (simp add: Let_def)
qed simp

text \<open>A packed address is decoded to its digits, when they fit the string with its end.\<close>

theorem decode_address_roundtrip:
  assumes "list_all (\<lambda>d. d < 10) ds" "int (length ds) < string_size"
  shows "decodeAddress string_size (0x91 # packed ds) =
    Some (length ds, map (\<lambda>d. char_of (d + 48)) ds)"
  using decode_packed [of ds "[]" string_size] assms by (simp add: decodeAddress_def Let_def)

theorem decode_address_roundtrip_witness:
  "decodeAddress 16 (0x91 # packed [4, 9, 3, 0, 1]) =
    Some (length [4, 9, 3, 0, 1 :: nat], map (\<lambda>d. char_of (d + 48)) [4, 9, 3, 0, 1 :: nat])"
  by (rule decode_address_roundtrip) simp_all

section \<open>The contexts\<close>

definition mFgExclMask :: uint32 where "mFgExclMask = 0"

text \<open>The bits of the events by their index in \<open>loc_api_adapter_event_index\<close>.\<close>

definition event_bit :: "nat \<Rightarrow> uint32" where
  "event_bit i = push_bit i 1"

definition LOC_API_ADAPTER_BIT_PARSED_POSITION_REPORT :: uint32 where
  "LOC_API_ADAPTER_BIT_PARSED_POSITION_REPORT = event_bit 0"
definition LOC_API_ADAPTER_BIT_SATELLITE_REPORT :: uint32 where
  "LOC_API_ADAPTER_BIT_SATELLITE_REPORT = event_bit 1"
definition LOC_API_ADAPTER_BIT_NMEA_1HZ_REPORT :: uint32 where
  "LOC_API_ADAPTER_BIT_NMEA_1HZ_REPORT = event_bit 2"
definition LOC_API_ADAPTER_BIT_NMEA_POSITION_REPORT :: uint32 where
  "LOC_API_ADAPTER_BIT_NMEA_POSITION_REPORT = event_bit 3"
definition LOC_API_ADAPTER_BIT_NI_NOTIFY_VERIFY_REQUEST :: uint32 where
  "LOC_API_ADAPTER_BIT_NI_NOTIFY_VERIFY_REQUEST = event_bit 4"
definition LOC_API_ADAPTER_BIT_ASSISTANCE_DATA_REQUEST :: uint32 where
  "LOC_API_ADAPTER_BIT_ASSISTANCE_DATA_REQUEST = event_bit 5"
definition LOC_API_ADAPTER_BIT_LOCATION_SERVER_REQUEST :: uint32 where
  "LOC_API_ADAPTER_BIT_LOCATION_SERVER_REQUEST = event_bit 6"
definition LOC_API_ADAPTER_BIT_IOCTL_REPORT :: uint32 where
  "LOC_API_ADAPTER_BIT_IOCTL_REPORT = event_bit 7"
definition LOC_API_ADAPTER_BIT_STATUS_REPORT :: uint32 where
  "LOC_API_ADAPTER_BIT_STATUS_REPORT = event_bit 8"
definition LOC_API_ADAPTER_BIT_GEOFENCE_GEN_ALERT :: uint32 where
  "LOC_API_ADAPTER_BIT_GEOFENCE_GEN_ALERT = event_bit 14"
definition LOC_API_ADAPTER_BIT_GNSS_MEASUREMENT :: uint32 where
  "LOC_API_ADAPTER_BIT_GNSS_MEASUREMENT = event_bit 24"

definition mBgExclMask :: uint32 where
  "mBgExclMask = fold or
     [LOC_API_ADAPTER_BIT_PARSED_POSITION_REPORT, LOC_API_ADAPTER_BIT_SATELLITE_REPORT,
      LOC_API_ADAPTER_BIT_NMEA_1HZ_REPORT, LOC_API_ADAPTER_BIT_NMEA_POSITION_REPORT,
      LOC_API_ADAPTER_BIT_IOCTL_REPORT, LOC_API_ADAPTER_BIT_STATUS_REPORT,
      LOC_API_ADAPTER_BIT_GEOFENCE_GEN_ALERT, LOC_API_ADAPTER_BIT_GNSS_MEASUREMENT] 0"

text \<open>
  \<open>createLocApi\<close>: the library the modem is reached through.  \<open>lbs\<close> is what the LBS proxy gives; the
  two libraries may be missing, or lack the function \<open>getLocApi\<close>, or give \<open>NULL\<close>, all of which but the first
  are \<open>Some None\<close>.  The result \<open>None\<close> is the class \<open>LocApiBase\<close> itself, which does nothing.
\<close>

definition createLocApi :: "bool \<Rightarrow> 'p option \<Rightarrow> 'p option option \<Rightarrow> 'p option option \<Rightarrow> 'p option" where
  "createLocApi is_MPQ lbs v02 rpc =
     (if is_MPQ then None
      else case lbs of
        Some p \<Rightarrow> Some p
      | None \<Rightarrow>
          (case v02 of
             Some p \<Rightarrow> p
           | None \<Rightarrow> (case rpc of Some p \<Rightarrow> p | None \<Rightarrow> None)))"

text \<open>
  The static members of \<open>LocDualContext\<close>, and what is made and injected through them.  The functions
  that give a context hold the mutex but for the first message.
\<close>

datatype context_kind = FgContext | BgContext

record dual_context =
  mMsgTask :: bool
  mFgContext :: bool
  mBgContext :: bool
  mInjectContext :: "context_kind option"
  tasks_made :: nat
  contexts_made :: "context_kind list"
  injected :: "context_kind list"
  first_msgs :: "nat list"

definition no_context :: dual_context where
  "no_context = \<lparr>mMsgTask = False, mFgContext = False, mBgContext = False, mInjectContext = None,
     tasks_made = 0, contexts_made = [], injected = [], first_msgs = []\<rparr>"

definition getMsgTask :: "dual_context \<Rightarrow> dual_context" where
  "getMsgTask c = (if mMsgTask c then c else c\<lparr>mMsgTask := True, tasks_made := tasks_made c + 1\<rparr>)"

definition injectFeatureConfig :: "context_kind \<Rightarrow> dual_context \<Rightarrow> dual_context" where
  "injectFeatureConfig k c =
     (if mInjectContext c = Some k then c\<lparr>injected := injected c @ [k]\<rparr> else c)"

definition send_first :: "nat option \<Rightarrow> dual_context \<Rightarrow> dual_context" where
  "send_first m c = (case m of None \<Rightarrow> c | Some n \<Rightarrow> c\<lparr>first_msgs := first_msgs c @ [n]\<rparr>)"

definition getLocFgContext :: "nat option \<Rightarrow> dual_context \<Rightarrow> dual_context" where
  "getLocFgContext firstMsg c =
     (let c1 = (if mFgContext c then c
                else (let c0 = getMsgTask c
                      in c0\<lparr>mFgContext := True, contexts_made := contexts_made c0 @ [FgContext]\<rparr>));
          c2 = (if mInjectContext c1 = None
                then injectFeatureConfig FgContext (c1\<lparr>mInjectContext := Some FgContext\<rparr>) else c1)
      in send_first firstMsg c2)"

definition getLocBgContext :: "nat option \<Rightarrow> dual_context \<Rightarrow> dual_context" where
  "getLocBgContext firstMsg c =
     (let c1 = (if mBgContext c then c
                else (let c0 = getMsgTask c
                      in c0\<lparr>mBgContext := True, contexts_made := contexts_made c0 @ [BgContext]\<rparr>));
          c2 = (if mInjectContext c1 = None
                then injectFeatureConfig BgContext (c1\<lparr>mInjectContext := Some BgContext\<rparr>) else c1)
      in send_first firstMsg c2)"

fun get_context :: "context_kind \<times> nat option \<Rightarrow> dual_context \<Rightarrow> dual_context" where
  "get_context (FgContext, m) = getLocFgContext m"
| "get_context (BgContext, m) = getLocBgContext m"

definition contexts_ok :: "(context_kind \<times> nat option) list \<Rightarrow> dual_context \<Rightarrow> bool" where
  "contexts_ok rs c \<longleftrightarrow>
     distinct (contexts_made c) \<and> set (contexts_made c) = set (map fst rs) \<and>
     tasks_made c = (if rs = [] then 0 else 1) \<and> injected c = take 1 (map fst rs) \<and>
     first_msgs c = concat (map (\<lambda>r. case snd r of None \<Rightarrow> [] | Some n \<Rightarrow> [n]) rs)"

text \<open>
  However often the contexts are asked for, each is made once and only if asked for, they share
  one message thread, the feature configuration is injected once, into the first context, and the first
  messages arrive in the order of the calls.
\<close>

theorem contexts_made_once:
  "contexts_ok rs (fold get_context rs no_context)"
proof -
  let ?inv = "\<lambda>rs c. contexts_ok rs c \<and> mMsgTask c = (rs \<noteq> []) \<and> mFgContext c = (FgContext \<in> set (map fst rs)) \<and>
    mBgContext c = (BgContext \<in> set (map fst rs)) \<and> mInjectContext c = hd_opt (map fst rs)"
  have "?inv rs (fold get_context rs no_context)"
  proof (induction rs rule: rev_induct)
    case Nil
    then show ?case by (simp add: contexts_ok_def no_context_def)
  next
    case (snoc r rs)
    define c where "c = fold get_context rs no_context"
    have inv: "?inv rs c" using snoc by (simp add: c_def)
    obtain k m where r: "r = (k, m)" by fastforce
    show ?case
    proof (cases rs)
      case Nil
      then have "c = no_context" by (simp add: c_def)
      then show ?thesis
        using Nil r by (cases k; cases m) (simp_all add: contexts_ok_def no_context_def getLocFgContext_def
          getLocBgContext_def getMsgTask_def injectFeatureConfig_def send_first_def)
    next
      case (Cons x rs')
      then have c: "mMsgTask c" "mInjectContext c \<noteq> None" using inv by auto
      have made: "get_context r c = send_first m
          (case k of
             FgContext \<Rightarrow> if mFgContext c then c
               else c\<lparr>mFgContext := True, contexts_made := contexts_made c @ [FgContext]\<rparr>
           | BgContext \<Rightarrow> if mBgContext c then c
               else c\<lparr>mBgContext := True, contexts_made := contexts_made c @ [BgContext]\<rparr>)"
        using c by (cases k) (auto simp: r getLocFgContext_def getLocBgContext_def getMsgTask_def Let_def)
      have "fold get_context (rs @ [r]) no_context = get_context r c" by (simp add: c_def)
      then show ?thesis
        using inv unfolding made
        by (cases k; cases m) (simp_all add: Cons r contexts_ok_def send_first_def insert_commute insert_absorb)
    qed
  qed
  then show ?thesis by blast
qed

text \<open>An adapter of the background context never gets the events of the foreground asked for.\<close>

theorem background_events_excluded:
  "\<not> bit (getEvtMask evt (fold (api_step evt) ops (new_LocApiBase mBgExclMask))) 0 \<and>
   (bit (getEvtMask evt (fold (api_step evt) ops (new_LocApiBase mBgExclMask))) 4 \<longleftrightarrow>
     (\<exists>a \<in> registered ops. bit (evt a) 4))"
proof -
  have "bit mBgExclMask 0" "\<not> bit mBgExclMask 4" by code_simp+
  moreover obtain xs where xs: "api_rep (fold (api_step evt) ops (new_LocApiBase mBgExclMask)) xs" "set xs = registered ops"
    by (rule api_run_rep)
  ultimately show ?thesis by (simp add: event_mask_bits [OF xs])
qed

end
