(* ===== verification/Loc_Iface.thy ===== *)
theory Loc_Iface
  imports Loc_Target Loc_Api Loc_Eng_Safe
begin

text \<open>
  The interface of the library to the framework (\<open>src/gps/loc_api/libloc_api_50001/loc.cpp\<close>): the tables
  of functions it hands out, each of them on the one engine of the process, and the two callbacks that stand between
  the engine and the framework.

  A callback of the framework is a number, so that one client can be told from another.  Where a function
  follows a pointer that may be \<open>NULL\<close>, its result is an option, and \<open>None\<close> is the fault.
\<close>

section \<open>The state\<close>

datatype hal_out = To_location nat UlpLocation | To_sv nat nat | To_framework client_call

record hal =
  eng :: loc_eng
  gps_loc_cb :: "nat option"
  gps_sv_cb :: "nat option"
  sGnssType :: uint32
  gTarget :: uint32
  configAlreadyRead :: bool
  log_conf :: log_params
  gss_fd :: int
  hal_out :: "hal_out list"

definition new_hal :: hal where
  "new_hal = \<lparr>eng = loc_afw_data, gps_loc_cb = None, gps_sv_cb = None, sGnssType = GNSS_UNKNOWN,
     gTarget = no_target, configAlreadyRead = False, log_conf = \<lparr>DEBUG_LEVEL = 0, TIMESTAMP = 0\<rparr>, gss_fd = -1,
     hal_out = []\<rparr>"

text \<open>\<open>local_loc_cb\<close> and \<open>local_sv_cb\<close>; the other callbacks are the framework's own.\<close>

fun local_cb :: "hal \<Rightarrow> client_call \<Rightarrow> hal_out list" where
  "local_cb h (C_location location) =
     (case location of
        None \<Rightarrow> []
      | Some l \<Rightarrow> (case gps_loc_cb h of None \<Rightarrow> [] | Some k \<Rightarrow> [To_location k l]))"
| "local_cb h (C_sv sv) = (case gps_sv_cb h of None \<Rightarrow> [] | Some k \<Rightarrow> [To_sv k sv])"
| "local_cb h c = [To_framework c]"

text \<open>The engine goes on to \<open>e\<close>, and what it has told its client in between goes through the callbacks.\<close>

definition with_eng :: "hal \<Rightarrow> loc_eng \<Rightarrow> hal" where
  "with_eng h e = h\<lparr>eng := e,
     hal_out := hal_out h @ concat (map (local_cb h) (drop (length (client (eng h))) (client e)))\<rparr>"

section \<open>Opening the library\<close>

record config_files =
  atof :: "string \<Rightarrow> rat"
  gps_conf_file :: "string option"
  sap_conf_file :: "string option"

definition loc_eng_read_config :: "config_files \<Rightarrow> hal \<Rightarrow> hal" where
  "loc_eng_read_config f h =
     (if configAlreadyRead h then h
      else
        (let e = eng h;
             (gps, log1) = loc_read_conf (atof f) 0 gps_conf_table (gps_conf_file f)
               (default_gps (gps_conf e), log_conf h);
             (sap, log2) = loc_read_conf (atof f) 0 sap_conf_table (sap_conf_file f) (default_sap 0, log1)
         in h\<lparr>eng := e\<lparr>gps_conf := gps, sap_conf := sap\<rparr>, log_conf := log2, configAlreadyRead := True\<rparr>))"

text \<open>Taking the two assisted modes out of the capabilities.\<close>

definition clear_ms :: "loc_eng \<Rightarrow> loc_eng" where
  "clear_ms e = e\<lparr>gps_conf := (gps_conf e)\<lparr>CAPABILITIES :=
     CAPABILITIES (gps_conf e) AND NOT (GPS_CAPABILITY_MSA OR GPS_CAPABILITY_MSB)\<rparr>\<rparr>"

text \<open>\<open>get_gps_interface\<close>: whether it gives the interface; \<open>fd\<close> is what opening \<open>/dev/gss\<close> returns.\<close>

definition get_gps_interface :: "config_files \<Rightarrow> platform \<Rightarrow> int \<Rightarrow> hal \<Rightarrow> bool \<times> hal" where
  "get_gps_interface f pf fd h =
     (let h1 = loc_eng_read_config f h;
          target = loc_get_target pf (gTarget h1);
          h2 = h1\<lparr>gTarget := target, sGnssType := getTargetGnssType target\<rparr>
      in if sGnssType h2 = GNSS_GSS \<or> sGnssType h2 = GNSS_AUTO
         then (True, h2\<lparr>eng := clear_ms (eng h2), gss_fd := fd\<rparr>)
         else if sGnssType h2 = GNSS_NONE then (False, h2)
         else if sGnssType h2 = GNSS_QCA1530 then (True, h2\<lparr>eng := clear_ms (eng h2)\<rparr>)
         else (True, h2))"

text \<open>\<open>gps_get_hardware_interface\<close>, the older way to it, with the property that disables it.\<close>

definition gps_get_hardware_interface :: "config_files \<Rightarrow> string \<Rightarrow> hal \<Rightarrow> bool \<times> hal" where
  "gps_get_hardware_interface f gps_disable h =
     (let h1 = loc_eng_read_config f h
      in (\<not> begins ''1'' gps_disable, loc_eng_read_config f h1))"

section \<open>The engine's life\<close>

record hal_callbacks =
  hc_location :: "nat option"
  hc_sv_status :: "nat option"
  hc_status :: bool
  hc_nmea :: bool
  hc_set_capabilities :: bool
  hc_request_utc_time :: bool

definition loc_init_event :: uint32 where
  "loc_init_event = fold or
     [LOC_API_ADAPTER_BIT_PARSED_POSITION_REPORT, LOC_API_ADAPTER_BIT_SATELLITE_REPORT,
      LOC_API_ADAPTER_BIT_LOCATION_SERVER_REQUEST, LOC_API_ADAPTER_BIT_ASSISTANCE_DATA_REQUEST,
      LOC_API_ADAPTER_BIT_IOCTL_REPORT, LOC_API_ADAPTER_BIT_STATUS_REPORT, LOC_API_ADAPTER_BIT_NMEA_1HZ_REPORT,
      LOC_API_ADAPTER_BIT_NI_NOTIFY_VERIFY_REQUEST] 0"

definition clientCallbacks :: "hal_callbacks \<Rightarrow> callbacks" where
  "clientCallbacks c = \<lparr>cb_location = True, cb_status = hc_status c, cb_sv_status = True, cb_nmea = hc_nmea c,
     cb_set_capabilities = hc_set_capabilities c, cb_request_utc_time = hc_request_utc_time c\<rparr>"

text \<open>\<open>loc_init\<close>; \<open>agps\<close> and \<open>cpi\<close> are the extended capabilities of the context.\<close>

definition loc_init :: "platform \<Rightarrow> bool \<Rightarrow> bool \<Rightarrow> hal_callbacks option \<Rightarrow> hal \<Rightarrow> (int \<times> hal) option" where
  "loc_init pf agps cpi callbacks h =
     (case callbacks of
        None \<Rightarrow> Some (-1, h)
      | Some c \<Rightarrow>
          (let h1 = h\<lparr>gps_loc_cb := hc_location c, gps_sv_cb := hc_sv_status c\<rparr>;
               (retVal, e1) = loc_eng_init (Some (clientCallbacks c)) loc_init_event (eng h1)
           in if \<not> adapter e1 then None
              else
                (let e2 = setGpsLockMsg 0 (set_features agps cpi e1);
                     e3 = setXtraUserAgent (requestUlp (getCarrierCapabilities (gps_conf e2)) e2)
                 in if retVal \<noteq> 0 then Some (retVal, with_eng h1 e3)
                    else
                      (let target = loc_get_target pf (gTarget h1);
                           e4 = setPowerVote True (setPowerVoteRight (target = TARGET_QCA1530) e3)
                       in Some (retVal, (with_eng h1 e4)\<lparr>gTarget := target\<rparr>)))))"

definition loc_cleanup :: "hal \<Rightarrow> hal option" where
  "loc_cleanup h =
     (if \<not> adapter (eng h) then None
      else
        (let e1 = setPowerVote False (eng h);
             e2 = loc_eng_cleanup (setGpsLockMsg (GPS_LOCK (gps_conf e1)) e1)
         in Some ((with_eng h e2)\<lparr>gps_loc_cb := None, gps_sv_cb := None\<rparr>)))"

text \<open>A function that only passes its call on to the engine.\<close>

definition pass_on :: "(loc_eng \<Rightarrow> 'r \<times> loc_eng) \<Rightarrow> hal \<Rightarrow> 'r \<times> hal" where
  "pass_on f h = (let (r, e) = f (eng h) in (r, with_eng h e))"

definition loc_start :: "hal \<Rightarrow> int \<times> hal" where
  "loc_start = pass_on loc_eng_start"

definition loc_stop :: "hal \<Rightarrow> int \<times> hal" where
  "loc_stop = pass_on loc_eng_stop"

definition LOC_POSITION_MODE_MS_BASED :: int where "LOC_POSITION_MODE_MS_BASED = 1"
definition LOC_POSITION_MODE_MS_ASSISTED :: int where "LOC_POSITION_MODE_MS_ASSISTED = 2"

text \<open>The framework's enumeration, with its other values in one.\<close>

datatype GpsPositionMode =
  GPS_POSITION_MODE_MS_BASED | GPS_POSITION_MODE_MS_ASSISTED | GPS_POSITION_MODE_other

definition locMode_of :: "GpsPositionMode \<Rightarrow> int" where
  "locMode_of mode =
     (case mode of
        GPS_POSITION_MODE_MS_BASED \<Rightarrow> LOC_POSITION_MODE_MS_BASED
      | GPS_POSITION_MODE_MS_ASSISTED \<Rightarrow> LOC_POSITION_MODE_MS_ASSISTED
      | GPS_POSITION_MODE_other \<Rightarrow> LOC_POSITION_MODE_STANDALONE)"

definition loc_set_position_mode ::
  "GpsPositionMode \<Rightarrow> GpsPositionRecurrence \<Rightarrow> uint32 \<Rightarrow> uint32 \<Rightarrow> uint32 \<Rightarrow> hal \<Rightarrow> int \<times> hal" where
  "loc_set_position_mode mode recur interval accu time =
     pass_on (loc_eng_set_position_mode (new_LocPosMode (locMode_of mode) recur interval accu time))"

definition loc_inject_time :: "int \<Rightarrow> hal \<Rightarrow> int \<times> hal" where
  "loc_inject_time t = pass_on (loc_eng_inject_time t)"

definition loc_inject_location :: "nat \<Rightarrow> hal \<Rightarrow> int \<times> hal" where
  "loc_inject_location l = pass_on (loc_eng_inject_location l)"

definition loc_delete_aiding_data :: "uint32 \<Rightarrow> hal \<Rightarrow> hal" where
  "loc_delete_aiding_data f h = with_eng h (loc_eng_delete_aiding_data f (eng h))"

section \<open>The extensions\<close>

text \<open>
  The names of the interfaces are constants of the framework's header; \<open>None\<close> is any other name.
  \<open>geofence\<close> tells whether \<open>libgeofence.so\<close> gives an interface.
\<close>

datatype gps_interface =
    GPS_XTRA_INTERFACE | AGPS_INTERFACE | GPS_NI_INTERFACE | AGPS_RIL_INTERFACE | GPS_GEOFENCING_INTERFACE
  | SUPL_CERTIFICATE_INTERFACE | GNSS_CONFIGURATION_INTERFACE | GPS_MEASUREMENT_INTERFACE

definition GPS_CAPABILITY_GEOFENCING :: uint32 where "GPS_CAPABILITY_GEOFENCING = 0x20"

definition loc_get_extension :: "gps_interface option \<Rightarrow> string \<Rightarrow> bool \<Rightarrow> hal \<Rightarrow> gps_interface option" where
  "loc_get_extension name baseband geofence h =
     (case name of
        None \<Rightarrow> None
      | Some AGPS_RIL_INTERFACE \<Rightarrow> if baseband = ''csfb'' then name else None
      | Some GPS_GEOFENCING_INTERFACE \<Rightarrow>
          (let caps = CAPABILITIES (gps_conf (eng h))
           in if caps OR GPS_CAPABILITY_GEOFENCING = caps \<and> geofence then name else None)
      | Some i \<Rightarrow> name)"

definition loc_agps_init :: "(string \<Rightarrow> uint32 option) \<Rightarrow> bool \<Rightarrow> hal \<Rightarrow> hal" where
  "loc_agps_init resolve callbacks h = with_eng h (loc_eng_agps_init resolve callbacks (eng h))"

abbreviation "AGPS_TYPE_C2K \<equiv> (2 :: int)"
abbreviation "AGPS_APN_BEARER_IPV4 \<equiv> (0 :: int)"
abbreviation "AGPS_APN_BEARER_IPV6 \<equiv> (1 :: int)"
abbreviation "AGPS_APN_BEARER_IPV4V6 \<equiv> (2 :: int)"

text \<open>The framework's enumeration, with its other values in one.\<close>

datatype ApnIpType = APN_IP_IPV4 | APN_IP_IPV6 | APN_IP_IPV4V6 | APN_IP_other

definition loc_agps_open :: "string option \<Rightarrow> hal \<Rightarrow> int \<times> hal" where
  "loc_agps_open apn = pass_on (loc_eng_agps_open AGPS_TYPE_SUPL apn AGPS_APN_BEARER_IPV4)"

definition bearer_of :: "ApnIpType \<Rightarrow> int" where
  "bearer_of apnIpType =
     (case apnIpType of
        APN_IP_IPV4 \<Rightarrow> AGPS_APN_BEARER_IPV4
      | APN_IP_IPV6 \<Rightarrow> AGPS_APN_BEARER_IPV6
      | APN_IP_IPV4V6 \<Rightarrow> AGPS_APN_BEARER_IPV4V6
      | APN_IP_other \<Rightarrow> AGPS_APN_BEARER_INVALID)"

definition loc_agps_open_with_apniptype :: "string option \<Rightarrow> ApnIpType \<Rightarrow> hal \<Rightarrow> int \<times> hal" where
  "loc_agps_open_with_apniptype apn apnIpType =
     pass_on (loc_eng_agps_open AGPS_TYPE_SUPL apn (bearer_of apnIpType))"

definition loc_agps_closed :: "hal \<Rightarrow> int \<times> hal" where
  "loc_agps_closed = pass_on (loc_eng_agps_closed AGPS_TYPE_SUPL)"

definition loc_agps_open_failed :: "hal \<Rightarrow> int \<times> hal" where
  "loc_agps_open_failed = pass_on (loc_eng_agps_open_failed AGPS_TYPE_SUPL)"

definition serverType_of :: "int \<Rightarrow> LocServerType" where
  "serverType_of type =
     (if type = AGPS_TYPE_SUPL then LOC_AGPS_SUPL_SERVER
      else if type = AGPS_TYPE_C2K then LOC_AGPS_CDMA_PDE_SERVER else LOC_AGPS_SUPL_SERVER)"

definition loc_agps_set_server ::
  "(string \<Rightarrow> uint32 option) \<Rightarrow> int \<Rightarrow> string \<Rightarrow> int \<Rightarrow> hal \<Rightarrow> int \<times> hal" where
  "loc_agps_set_server resolve type hostname port =
     pass_on (loc_eng_set_server_proxy resolve (serverType_of type) hostname port)"

text \<open>\<open>callbacks\<close>: whether the framework's structure has a function for downloads.\<close>

definition loc_xtra_init :: "bool option \<Rightarrow> hal \<Rightarrow> (int \<times> hal) option" where
  "loc_xtra_init callbacks h =
     (case callbacks of
        None \<Rightarrow> None
      | Some download \<Rightarrow> Some (pass_on (loc_eng_xtra_init (Some (download, False))) h))"

definition XTRA_DATA_MAX_SIZE :: uint32 where "XTRA_DATA_MAX_SIZE = 100000"

text \<open>The length is an \<open>int\<close>, compared as an unsigned number.\<close>

definition loc_xtra_inject_data :: "nat option \<Rightarrow> int \<Rightarrow> hal \<Rightarrow> (int \<times> hal) option" where
  "loc_xtra_inject_data data len h =
     (case data of
        None \<Rightarrow> Some (-1, h)
      | Some d \<Rightarrow>
          if (word_of_int len :: uint32) \<le> XTRA_DATA_MAX_SIZE
          then map_option (\<lambda>(r, e). (r, with_eng h e)) (loc_eng_xtra_inject_data d (eng h))
          else Some (-1, h))"

definition loc_gps_measurement_init :: "bool option \<Rightarrow> hal \<Rightarrow> measurement_result \<times> hal" where
  "loc_gps_measurement_init callbacks = pass_on (loc_eng_gps_measurement_init callbacks)"

definition loc_gps_measurement_close :: "hal \<Rightarrow> hal" where
  "loc_gps_measurement_close h = with_eng h (loc_eng_gps_measurement_close (eng h))"

definition loc_ni_init :: "bool \<Rightarrow> hal \<Rightarrow> hal" where
  "loc_ni_init callbacks h = with_eng h ((eng h)\<lparr>ni := loc_eng_ni_init callbacks (ni (eng h))\<rparr>)"

definition loc_ni_respond :: "uint32 \<Rightarrow> ni_response \<Rightarrow> hal \<Rightarrow> hal" where
  "loc_ni_respond notif_id user_response h =
     with_eng h ((eng h)\<lparr>ni := loc_eng_ni_respond notif_id user_response (ni (eng h))\<rparr>)"

definition loc_agps_ril_update_network_availability :: "int \<Rightarrow> string option \<Rightarrow> hal \<Rightarrow> hal" where
  "loc_agps_ril_update_network_availability available apn h =
     with_eng h (loc_eng_agps_ril_update_network_availability available apn (eng h))"

definition loc_agps_install_certificates :: "nat list \<Rightarrow> hal \<Rightarrow> cert_result \<times> hal" where
  "loc_agps_install_certificates lengths = pass_on (loc_eng_agps_install_certificates lengths)"

definition loc_agps_revoke_certificates :: "hal \<Rightarrow> cert_result \<times> hal" where
  "loc_agps_revoke_certificates h = (AGPS_CERTIFICATE_ERROR_GENERIC, h)"

definition loc_configuration_update :: "string \<Rightarrow> hal \<Rightarrow> hal" where
  "loc_configuration_update config_data h =
     (let h1 = with_eng h (loc_eng_configuration_update config_data (eng h))
      in if sGnssType h1 = GNSS_GSS \<or> sGnssType h1 = GNSS_AUTO \<or> sGnssType h1 = GNSS_QCA1530
         then h1\<lparr>eng := clear_ms (eng h1)\<rparr> else h1)"

section \<open>Runs through the interface\<close>

text \<open>
  The calls of the framework, and what else happens: the reports of the modem, the calls of a proxy and of
  the daemons, the threads of the NI module and the message thread.
\<close>

datatype hal_op =
    H_init platform bool bool "hal_callbacks option" | H_cleanup | H_start | H_stop
  | H_mode GpsPositionMode GpsPositionRecurrence uint32 uint32 uint32 | H_inject_time int | H_inject_location nat
  | H_delete_aiding uint32 | H_agps_init "string \<Rightarrow> uint32 option" bool | H_agps_open "string option"
  | H_agps_open_type "string option" ApnIpType | H_agps_closed | H_agps_failed
  | H_set_server "string \<Rightarrow> uint32 option" int string int | H_xtra_init "bool option"
  | H_xtra_inject "nat option" int | H_measurement_init "bool option" | H_measurement_close | H_ni_init bool
  | H_ni_respond uint32 ni_response | H_network int "string option" | H_certs "nat list" | H_revoke
  | H_config string
  | E_report report | E_internal internal_call | E_if_request if_request | E_if_release if_request
  | E_ni ni_event | E_handle answers

definition env_step :: "eng_op \<Rightarrow> hal \<Rightarrow> hal option" where
  "env_step x h = map_option (with_eng h) (eng_apply x (eng h))"

fun hal_apply :: "hal_op \<Rightarrow> hal \<Rightarrow> hal option" where
  "hal_apply (H_init pf agps cpi cb) h = map_option snd (loc_init pf agps cpi cb h)"
| "hal_apply H_cleanup h = loc_cleanup h"
| "hal_apply H_start h = Some (snd (loc_start h))"
| "hal_apply H_stop h = Some (snd (loc_stop h))"
| "hal_apply (H_mode m r i a t) h = Some (snd (loc_set_position_mode m r i a t h))"
| "hal_apply (H_inject_time t) h = Some (snd (loc_inject_time t h))"
| "hal_apply (H_inject_location l) h = Some (snd (loc_inject_location l h))"
| "hal_apply (H_delete_aiding f) h = Some (loc_delete_aiding_data f h)"
| "hal_apply (H_agps_init r cb) h = Some (loc_agps_init r cb h)"
| "hal_apply (H_agps_open apn) h = Some (snd (loc_agps_open apn h))"
| "hal_apply (H_agps_open_type apn t) h = Some (snd (loc_agps_open_with_apniptype apn t h))"
| "hal_apply H_agps_closed h = Some (snd (loc_agps_closed h))"
| "hal_apply H_agps_failed h = Some (snd (loc_agps_open_failed h))"
| "hal_apply (H_set_server r t n p) h = Some (snd (loc_agps_set_server r t n p h))"
| "hal_apply (H_xtra_init cb) h = map_option snd (loc_xtra_init cb h)"
| "hal_apply (H_xtra_inject d l) h = map_option snd (loc_xtra_inject_data d l h)"
| "hal_apply (H_measurement_init cb) h = Some (snd (loc_gps_measurement_init cb h))"
| "hal_apply H_measurement_close h = Some (loc_gps_measurement_close h)"
| "hal_apply (H_ni_init cb) h = Some (loc_ni_init cb h)"
| "hal_apply (H_ni_respond i r) h = Some (loc_ni_respond i r h)"
| "hal_apply (H_network av apn) h = Some (loc_agps_ril_update_network_availability av apn h)"
| "hal_apply (H_certs ls) h = Some (snd (loc_agps_install_certificates ls h))"
| "hal_apply H_revoke h = Some (snd (loc_agps_revoke_certificates h))"
| "hal_apply (H_config d) h = Some (loc_configuration_update d h)"
| "hal_apply (E_report r) h = env_step (Op_report r) h"
| "hal_apply (E_internal c) h = env_step (Op_internal c) h"
| "hal_apply (E_if_request r) h = env_step (Op_if_request r) h"
| "hal_apply (E_if_release r) h = env_step (Op_if_release r) h"
| "hal_apply (E_ni v) h = env_step (Op_ni v) h"
| "hal_apply (E_handle a) h = env_step (Op_handle a) h"

inductive hal_run :: "hal \<Rightarrow> hal_op list \<Rightarrow> hal \<Rightarrow> bool" where
  hal_run_Nil: "hal_run h [] h"
| hal_run_Cons: "\<lbrakk>hal_apply x h = Some h1; hal_run h1 xs h'\<rbrakk> \<Longrightarrow> hal_run h (x # xs) h'"

code_pred hal_run .

inductive_simps hal_run_Nil_iff [simp]: "hal_run h [] h'"
inductive_simps hal_run_Cons_iff [simp]: "hal_run h (x # xs) h'"

end
