(* ===== verification/Loc_Iface_Runs.thy ===== *)
theory Loc_Iface_Runs
  imports Loc_Iface
begin

text \<open>
  What the framework can rely on in every run through the interface: to which machine its answers go, what
  a target without assistance never does, and who is told the positions.
\<close>

section \<open>The machines the framework cannot answer for\<close>

definition ungranted :: "agps_sm option \<Rightarrow> bool" where
  "ungranted n \<longleftrightarrow> (case n of None \<Rightarrow> True | Some m \<Rightarrow> mStatePtr m \<noteq> AcquiredState)"

lemma ungranted_simps [simp]:
  "ungranted None" "ungranted (Some m) \<longleftrightarrow> mStatePtr m \<noteq> AcquiredState"
  by (simp_all add: ungranted_def)

text \<open>An answer of the framework that waits in the queue is one for the SUPL machine.\<close>

fun supl_answer :: "loc_msg \<Rightarrow> bool" where
  "supl_answer (LocEngAtlOpenSuccess n apn b) = (n \<in> {None, Some Agnss})"
| "supl_answer (LocEngAtlClosed n) = (n \<in> {None, Some Agnss})"
| "supl_answer (LocEngAtlOpenFailed n) = (n \<in> {None, Some Agnss})"
| "supl_answer m = True"

definition no_ms :: "gps_cfg \<Rightarrow> bool" where
  "no_ms c \<longleftrightarrow> CAPABILITIES c AND GPS_CAPABILITY_MSA = 0 \<and> CAPABILITIES c AND GPS_CAPABILITY_MSB = 0"

text \<open>
  How a step may change the engine: the Internet and the Wi-Fi machine are not granted, the SUPL
  machine is not created without the capabilities, and only harmless messages are added.
\<close>

definition keeps_nets :: "loc_eng \<Rightarrow> loc_eng \<Rightarrow> bool" where
  "keeps_nets e e' \<longleftrightarrow>
     (no_ms (gps_conf e) \<and> agnss_nif e = None \<longrightarrow> no_ms (gps_conf e') \<and> agnss_nif e' = None) \<and>
     (ungranted (internet_nif e) \<longrightarrow> ungranted (internet_nif e')) \<and>
     (ungranted (wifi_nif e) \<longrightarrow> ungranted (wifi_nif e'))"

definition evolves :: "loc_eng \<Rightarrow> loc_eng \<Rightarrow> bool" where
  "evolves e e' \<longleftrightarrow> keeps_nets e e' \<and> (\<exists>ms. queue e' = queue e @ ms \<and> list_all supl_answer ms)"

lemma keeps_nets_trans: "\<lbrakk>keeps_nets e e1; keeps_nets e1 e2\<rbrakk> \<Longrightarrow> keeps_nets e e2"
  unfolding keeps_nets_def by satx

lemma evolves_refl [simp, intro]: "evolves e e"
  by (simp add: evolves_def keeps_nets_def)

lemma evolves_trans [trans]: "\<lbrakk>evolves e e1; evolves e1 e2\<rbrakk> \<Longrightarrow> evolves e e2"
proof -
  assume a: "evolves e e1" "evolves e1 e2"
  obtain ms where ms: "queue e1 = queue e @ ms" "list_all supl_answer ms" using a(1) unfolding evolves_def by blast
  obtain ns where ns: "queue e2 = queue e1 @ ns" "list_all supl_answer ns" using a(2) unfolding evolves_def by blast
  have "queue e2 = queue e @ (ms @ ns)" "list_all supl_answer (ms @ ns)" using ms ns by simp_all
  then have "\<exists>ms. queue e2 = queue e @ ms \<and> list_all supl_answer ms" by blast
  moreover have "keeps_nets e e2" using a keeps_nets_trans by (simp add: evolves_def) blast
  ultimately show ?thesis by (simp add: evolves_def)
qed

lemma evolves_same:
  "\<lbrakk>ptrs e' = ptrs e; gps_conf e' = gps_conf e; queue e' = queue e\<rbrakk> \<Longrightarrow> evolves e e'"
  by (simp add: evolves_def keeps_nets_def ptrs_def)

lemma evolves_more:
  "\<lbrakk>ptrs e' = ptrs e; gps_conf e' = gps_conf e; queue e' = queue e @ ms; list_all supl_answer ms\<rbrakk> \<Longrightarrow> evolves e e'"
  by (simp add: evolves_def keeps_nets_def ptrs_def)

lemma evolves_send: "supl_answer m \<Longrightarrow> evolves e (sendMsg m e)"
  by (rule evolves_more [where ms = "[m]"]) simp_all

lemma send_all_ptrs [simp]: "ptrs (send_all ms e) = ptrs e" "gps_conf (send_all ms e) = gps_conf e"
  unfolding send_all_def by (induction ms arbitrary: e) simp_all

lemma conf_updates [simp]:
  "gps_conf (set_mute w e) = gps_conf e" "gps_conf (put_nif n m e) = gps_conf e"
  "gps_conf (requestPowerVote e) = gps_conf e" "ptrs (requestPowerVote e) = ptrs e"
  by (cases n; simp add: set_mute_def requestPowerVote_def)+

section \<open>The machines\<close>

lemma emit_state [simp]: "mStatePtr (emit x m) = mStatePtr m"
  by (simp add: emit_def)

lemma informStatus_state [simp]: "mStatePtr (informStatus st i m) = mStatePtr m"
  by (cases st) simp_all

lemma rsrc_reaction_state: "rsrc_reaction s st m = Some m' \<Longrightarrow> mStatePtr m' = mStatePtr m"
  by (cases s) (auto simp: Let_def split: if_splits)

lemma notifySubscriber_state [simp]: "mStatePtr (snd (notifySubscriber n s m)) = mStatePtr m"
  by (auto simp: notifySubscriber_def notifyRsrcStatus_def split_beta dest: rsrc_reaction_state split: option.split)

lemma dispatch_state: "mStatePtr (dispatch ret ev d m) = fst (state_onRsrcEvent (mStatePtr m) ret ev d m)"
  by (simp add: dispatch_def split_beta)

text \<open>Only a grant leads to the acquired state.\<close>

lemma no_grant_state:
  assumes "mStatePtr m \<noteq> AcquiredState" "ev \<noteq> RSRC_GRANTED"
  shows "mStatePtr (dispatch ret ev d m) \<noteq> AcquiredState"
proof (cases "mStatePtr m")
  case ReleasedState
  then show ?thesis
    by (simp add: dispatch_state released_onRsrcEvent_def split_beta split: AgpsRsrcStatus.split option.split)
next
  case PendingState
  then show ?thesis using assms(2)
    by (simp add: dispatch_state pending_onRsrcEvent_def Let_def split: AgpsRsrcStatus.split event_data.split)
next
  case ReleasingState
  then show ?thesis
    by (simp add: dispatch_state releasing_onRsrcEvent_def Let_def split: AgpsRsrcStatus.split event_data.split)
qed (use assms in simp)

lemma subscribe_ungranted [simp]:
  "mStatePtr m \<noteq> AcquiredState \<Longrightarrow> mStatePtr (subscribeRsrc ret s m) \<noteq> AcquiredState"
  "mStatePtr m \<noteq> AcquiredState \<Longrightarrow> mStatePtr (snd (unsubscribeRsrc ret s m)) \<noteq> AcquiredState"
  by (simp_all add: subscribeRsrc_def unsubscribeRsrc_def no_grant_state split: option.split)

lemma drop_ungranted [simp]: "mStatePtr (dropAllSubscribers m) = mStatePtr m"
  by (simp add: dropAllSubscribers_def)

section \<open>The messages\<close>

lemma put_nif_evolves:
  assumes "nif_of n e = Some m" "n = Internet \<or> n = Wifi \<longrightarrow> mStatePtr m \<noteq> AcquiredState \<longrightarrow> mStatePtr m' \<noteq> AcquiredState"
  shows "evolves e (put_nif n m' e)"
  using assms by (cases n) (auto simp: evolves_def keeps_nets_def)

lemma on_nif_evolves:
  assumes "on_nif k f e = Some e'" "k = None \<or> k = Some Agnss \<or> k = Some Ds \<or>
    (\<forall>m. mStatePtr m \<noteq> AcquiredState \<longrightarrow> mStatePtr (f m) \<noteq> AcquiredState)"
  shows "evolves e e'"
  using assms put_nif_evolves [of _ e _ "f _"] by (auto simp: on_nif_def split: option.splits)

lemma request_evolves:
  "request_atl r i t e = Some e' \<Longrightarrow> evolves e e'" "request_supl_es r i e = Some e' \<Longrightarrow> evolves e e'"
  "req_rel_wifi r t s ss pw b e = Some e' \<Longrightarrow> evolves e e'" "req_rel_bit r t v4 v6 b e = Some e' \<Longrightarrow> evolves e e'"
  by (auto simp: request_atl_def request_supl_es_def req_rel_wifi_def req_rel_bit_def Let_def evolves_same
      split: option.splits if_splits elim!: on_nif_evolves)

lemma try_release_evolves: "try_release r n s e = (b, e') \<Longrightarrow> evolves e e'"
  by (auto simp: try_release_def split: option.splits prod.splits
      intro!: put_nif_evolves dest: arg_cong [where f = snd])
    (metis snd_conv subscribe_ungranted(2))+

lemma release_evolves: "evolves e (release_atl r i e)"
proof -
  obtain b1 e1 where 1: "try_release r Agnss (ATLSubscriber i False) e = (b1, e1)" by fastforce
  obtain b2 e2 where 2: "try_release r Internet (ATLSubscriber i False) e1 = (b2, e2)" by fastforce
  obtain b3 e3 where 3: "try_release r Ds (DSSubscriber i False) e2 = (b3, e3)" by fastforce
  have k: "evolves e e1" "evolves e e2" "evolves e e3"
    using try_release_evolves [OF 1] try_release_evolves [OF 2] try_release_evolves [OF 3] evolves_trans by blast+
  have "evolves e (call_modem (M_atlCloseStatus i 0) e3)"
    by (rule evolves_trans [OF k(3)]) (simp add: evolves_same)
  with k 1 2 3 show ?thesis by (simp add: release_atl_def)
qed

lemma reinit_evolves: "evolves e (loc_eng_reinit e)"
  unfolding loc_eng_reinit_def
  by (rule evolves_more [where ms = "reinit_msgs e"]) (simp_all add: reinit_msgs_def)

lemma set_server_evolves: "evolves e (snd (loc_eng_set_server r t h p e))"
  by (auto simp: loc_eng_set_server_def evolves_send split: option.split)

lemma agps_reinit_evolves: "evolves e (loc_eng_agps_reinit r e)"
proof -
  let ?e1 = "case supl_host e of None \<Rightarrow> e
    | Some (h, p) \<Rightarrow> snd (loc_eng_set_server r LOC_AGPS_SUPL_SERVER (Some h) p e)"
  have "evolves e ?e1" by (auto simp: set_server_evolves split: option.splits)
  also have "evolves ?e1 (loc_eng_agps_reinit r e)"
    by (auto simp: loc_eng_agps_reinit_def Let_def set_server_evolves split: option.splits prod.splits)
  finally show ?thesis .
qed

lemma engine_up_evolves: "evolves e (loc_eng_handle_engine_up r e)"
proof -
  let ?e1 = "requestPowerVote (loc_eng_reinit e)"
  let ?d = "?e1\<lparr>agnss_nif := map_option dropAllSubscribers (agnss_nif ?e1),
      internet_nif := map_option dropAllSubscribers (internet_nif ?e1)\<rparr>"
  let ?e2 = "if agps_status_cb ?e1 then loc_eng_agps_reinit r ?d else ?e1"
  have "evolves (loc_eng_reinit e) ?e1"
    by (rule evolves_same) (simp_all add: requestPowerVote_def)
  from evolves_trans [OF reinit_evolves this] have "evolves e ?e1" .
  also have "evolves ?e1 ?d"
    by (cases "internet_nif ?e1") (simp_all add: evolves_def keeps_nets_def)
  from evolves_trans [OF this agps_reinit_evolves] have "evolves ?e1 ?e2" by simp
  also have "evolves ?e2 (loc_eng_handle_engine_up r e)"
    using evolves_trans [OF evolves_same evolves_send]
    by (simp add: loc_eng_handle_engine_up_def Let_def)
  finally show ?thesis .
qed

lemma status_facts [simp]:
  "ptrs (loc_eng_report_status st e) = ptrs e" "gps_conf (loc_eng_report_status st e) = gps_conf e"
  by (simp_all add: loc_eng_report_status_def Let_def loc_inform_gps_status_def)

lemma aiding_facts [simp]:
  "ptrs (update_aiding_data_for_deletion e) = ptrs e" "gps_conf (update_aiding_data_for_deletion e) = gps_conf e"
  "queue (update_aiding_data_for_deletion e) = queue e"
  by (simp_all add: update_aiding_data_for_deletion_def)

lemma report_position_evolves: "evolves e (report_position l st tech e)"
  by (rule evolves_same) (auto simp: report_position_def Let_def stopFix_def split: option.split)

text \<open>The answers of the modem do not bring the assisted modes back.\<close>

definition clean_answers :: "answers \<Rightarrow> bool" where
  "clean_answers a \<longleftrightarrow> CAPABILITY_MEASUREMENTS a AND (GPS_CAPABILITY_MSA OR GPS_CAPABILITY_MSB) = 0"

lemma clean_or:
  assumes "m AND (a OR b) = 0" "c AND a = 0" "c AND b = 0"
  shows "(c OR m) AND a = 0 \<and> (c OR m) AND b = (0 :: uint32)"
proof -
  have "m AND a = 0 \<and> m AND b = 0"
    using assms(1) by (simp add: bit.conj_disj_distrib or_eq_0_iff)
  then show ?thesis using assms(2,3) by (simp add: bit.conj_disj_distrib2)
qed

lemma constellation_evolves:
  assumes "clean_answers a"
  shows "evolves e (proc_GnssConstellationConfig a e)"
proof -
  have "evolves e (call_modem M_gnssConstellationConfig e)" by (simp add: evolves_same)
  also have "evolves (call_modem M_gnssConstellationConfig e) (proc_GnssConstellationConfig a e)"
    using assms clean_or [of "CAPABILITY_MEASUREMENTS a" GPS_CAPABILITY_MSA GPS_CAPABILITY_MSB]
    by (auto simp: evolves_def keeps_nets_def no_ms_def clean_answers_def Let_def)
  finally show ?thesis .
qed

lemma proc_evolves:
  assumes "proc a m e = Some e'" "supl_answer m" "clean_answers a"
  shows "evolves e e'"
proof (cases m)
  case LocEngGnssConstellationConfig
  then show ?thesis using constellation_evolves [OF assms(3), of e] assms(1) by (simp del: proc_GnssConstellationConfig_def)
next
  case LocEngInit
  then show ?thesis using evolves_trans [OF reinit_evolves evolves_send] assms(1) by auto
next
  case LocEngUp
  then show ?thesis using engine_up_evolves assms(1) by auto
next
  case (LocEngReleaseATL i)
  then show ?thesis using release_evolves assms(1) by auto
next
  case (LocEngReportPosition l st tech)
  then show ?thesis using report_position_evolves assms(1) by auto
next
  case LocEngDataClientInit
  then show ?thesis using assms(1) by (auto simp: evolves_def keeps_nets_def Let_def call_modem_def)
next
  case (LocSetUlpProxy p)
  then show ?thesis using assms(1) by (auto simp: setUlpProxy_def evolves_def keeps_nets_def Let_def)
qed (use assms in \<open>auto simp: loc_eng_start_handler_def loc_eng_stop_handler_def startFix_def stopFix_def setPositionMode_def
    report_sv_def report_measurement_def setXtraVersionCheck_def setTime_def loc_eng_handle_engine_down_def
    loc_eng_get_zpp_handler_def Let_def split_beta split: option.splits if_splits
    intro: evolves_same request_evolves elim!: on_nif_evolves\<close>)

section \<open>The invariant of the runs\<close>

definition net_inv :: "bool \<Rightarrow> loc_eng \<Rightarrow> bool" where
  "net_inv sa e \<longleftrightarrow> (sa \<longrightarrow> no_ms (gps_conf e) \<and> agnss_nif e = None) \<and>
     ungranted (internet_nif e) \<and> ungranted (wifi_nif e) \<and> list_all supl_answer (queue e)"

lemma evolves_inv: "\<lbrakk>evolves e e'; net_inv sa e\<rbrakk> \<Longrightarrow> net_inv sa e'"
  by (auto simp: evolves_def keeps_nets_def net_inv_def)

lemma handle_inv:
  assumes "handle a e = Some e'" "net_inv sa e" "clean_answers a"
  shows "net_inv sa e'"
proof (cases "queue e")
  case Nil
  then show ?thesis using assms by (simp add: handle_def)
next
  case (Cons m ms)
  then have "proc a m (e\<lparr>queue := ms\<rparr>) = Some e'" "supl_answer m" "net_inv sa (e\<lparr>queue := ms\<rparr>)"
    using assms by (simp_all add: handle_def net_inv_def)
  then show ?thesis using proc_evolves [OF _ _ assms(3)] evolves_inv by blast
qed

lemma calls_evolve:
  "evolves e (snd (loc_eng_start e))" "evolves e (snd (loc_eng_stop e))" "evolves e (loc_eng_cleanup e)"
  "evolves e (snd (loc_eng_set_position_mode m e))" "evolves e (snd (loc_eng_inject_time t e))"
  "evolves e (snd (loc_eng_inject_location l e))" "evolves e (loc_eng_delete_aiding_data f e)"
  "evolves e (loc_eng_agps_ril_update_network_availability av apn e)"
  "evolves e (snd (loc_eng_agps_install_certificates ls e))" "evolves e (setGpsLockMsg g e)"
  by (auto simp: loc_eng_start_def loc_eng_stop_def loc_eng_cleanup_def loc_eng_set_position_mode_def
      loc_eng_inject_time_def loc_eng_inject_location_def loc_eng_delete_aiding_data_def
      loc_eng_agps_ril_update_network_availability_def loc_eng_agps_install_certificates_def
      setGpsLockMsg_def Let_def split_beta evolves_same split: option.split
      intro!: evolves_send evolves_trans [OF evolves_same evolves_send])

lemma votes_evolve: "evolves e (setPowerVote v e)" "evolves e (setPowerVoteRight v e)"
  "evolves e (set_features agps cpi e)" "evolves e (requestUlp caps e)" "evolves e (setXtraUserAgent e)"
  "evolves e (snd (loc_eng_xtra_init xcb e))" "evolves e (e\<lparr>ni := n\<rparr>)"
  by (auto simp: setPowerVote_def setPowerVoteRight_def set_features_def requestUlp_def setXtraUserAgent_def
      loc_eng_xtra_init_def requestPowerVote_def split: option.split intro!: evolves_same evolves_send simp: ptrs_def
      call_modem_def)

lemma measurement_evolves:
  "evolves e (snd (loc_eng_gps_measurement_init mcb e))" "evolves e (loc_eng_gps_measurement_close e)"
proof -
  have "evolves e ((sendMsg (LocEngUpdateRegistrationMask b) e)\<lparr>gps_measurement_cb := c\<rparr>)" for b c
    by (rule evolves_trans [OF evolves_send evolves_same]) simp_all
  then show "evolves e (snd (loc_eng_gps_measurement_init mcb e))" "evolves e (loc_eng_gps_measurement_close e)"
    by (auto simp: loc_eng_gps_measurement_init_def loc_eng_gps_measurement_close_def split: option.split)
qed

lemma reports_evolve: "evolves e (snd (modem_reports r e))"
proof -
  have "evolves e (snd (agps_request m e))" if "supl_answer m" for m
    using that by (simp add: agps_request_def evolves_send)
  moreover have "evolves e (report_to_ulp c m e)" if "supl_answer m" for c m
    using that evolves_trans [OF evolves_same evolves_send]
    by (simp add: report_to_ulp_def Let_def split_beta evolves_same)
  ultimately show ?thesis by (cases r) (auto simp: evolves_send)
qed

lemma set_server_proxy_evolves: "evolves e (snd (loc_eng_set_server_proxy r t h p e))"
proof -
  have "evolves e (e\<lparr>supl_host := a\<rparr>)" "evolves e (e\<lparr>c2k_host := a\<rparr>)" for a
    by (simp_all add: evolves_same)
  then show ?thesis
    using evolves_trans [OF _ set_server_evolves]
    by (auto simp: loc_eng_set_server_proxy_def Let_def set_server_evolves split: LocServerType.split)
qed

lemma clear_ms_evolves: "evolves e (clear_ms e)"
proof -
  have "(c AND x) AND a = 0" if "c AND a = 0" for c x a :: uint32
  proof -
    have "(c AND x) AND a = (c AND a) AND x" by (simp only: and.assoc and.commute and.left_commute)
    then show ?thesis using that by simp
  qed
  then show ?thesis by (simp add: clear_ms_def evolves_def keeps_nets_def no_ms_def)
qed

text \<open>A configuration update puts the capabilities back.\<close>

lemma config_evolves: "evolves e (loc_eng_configuration_update d e)"
proof -
  define old new where "old = gps_conf e" and "new = snd (loc_update_conf (\<lambda>s. ()) () gps_conf_table (Some d) old)"
  define e1 where "e1 = e\<lparr>gps_conf := new\<rparr>"
  define ms where "ms = (if adapter e1 then config_msgs old new (ulp_ptr e1) else [])"
  define e2 where "e2 = (if adapter e1 then send_all (config_msgs old new (ulp_ptr e1)) e1 else e1)"
  define last where "last = old\<lparr>SUPL_VER := SUPL_VER new, LPP_PROFILE := LPP_PROFILE new,
      A_GLONASS_POS_PROTOCOL_SELECT := A_GLONASS_POS_PROTOCOL_SELECT new, GPS_LOCK := GPS_LOCK new\<rparr>"
  have "list_all supl_answer ms" by (simp add: ms_def config_msgs_def)
  moreover have "queue e2 = queue e @ ms" "ptrs e2 = ptrs e" by (simp_all add: e2_def ms_def e1_def)
  moreover have "CAPABILITIES last = CAPABILITIES (gps_conf e)" by (simp add: last_def old_def)
  ultimately have "evolves e (e2\<lparr>gps_conf := last\<rparr>)"
    by (simp add: evolves_def keeps_nets_def no_ms_def ptrs_def)
  moreover have "loc_eng_configuration_update d e = (if d = [] then e else e2\<lparr>gps_conf := last\<rparr>)"
    by (simp only: loc_eng_configuration_update_def Let_def e2_def e1_def old_def new_def last_def)
  ultimately show ?thesis by simp
qed

lemma agps_init_evolves: "evolves e (loc_eng_agps_init r cb e)"
proof (cases "\<not> adapter e \<or> agps_status_cb e \<or> \<not> cb")
  case False
  define e1 where "e1 = e\<lparr>agps_status_cb := True,
    internet_nif := Some (new_AgpsStateMachine servicerTypeAgps AGPS_TYPE_WWAN_ANY False),
    wifi_nif := Some (new_AgpsStateMachine servicerTypeAgps AGPS_TYPE_WIFI True)\<rparr>"
  define e2 where "e2 = e1\<lparr>agnss_nif := Some (new_AgpsStateMachine servicerTypeAgps AGPS_TYPE_SUPL False)\<rparr>"
  define e3 where "e3 = (if mSupportsAgpsRequests e2 \<and> USE_EMERGENCY_PDN_FOR_EMERGENCY_SUPL (gps_conf e2) \<noteq> 0
    then sendMsg LocEngDataClientInit e2 else e2)"
  define e4 where "e4 = (if mSupportsAgpsRequests e3 then e3\<lparr>loc_api_handle := True\<rparr> else e3)"
  have 1: "evolves e e1"
    by (simp add: e1_def evolves_def keeps_nets_def new_AgpsStateMachine_def)
  have eq: "loc_eng_agps_init r cb e =
    (if CAPABILITIES (gps_conf e1) AND GPS_CAPABILITY_MSA \<noteq> 0 \<or> CAPABILITIES (gps_conf e1) AND GPS_CAPABILITY_MSB \<noteq> 0
     then loc_eng_agps_reinit r e4 else e1)"
    by (simp only: loc_eng_agps_init_def Let_def e4_def e3_def e2_def e1_def False if_False)
  show ?thesis
  proof (cases "no_ms (gps_conf e1)")
    case True
    then show ?thesis using 1 by (simp add: eq no_ms_def)
  next
    case False
    then have "evolves e1 e2" by (simp add: e2_def evolves_def keeps_nets_def)
    also have "evolves e2 e3" unfolding e3_def by (simp add: evolves_send)
    also have "evolves e3 e4" unfolding e4_def by (simp add: evolves_def keeps_nets_def)
    finally have "evolves e e4" by (rule evolves_trans [OF 1])
    from evolves_trans [OF this agps_reinit_evolves] 1 show ?thesis by (simp add: eq)
  qed
qed (simp add: loc_eng_agps_init_def)

text \<open>The answers of the framework are for the SUPL machine.\<close>

lemma agps_answers_evolve:
  "evolves e (snd (loc_eng_agps_open AGPS_TYPE_SUPL apn b e))" "evolves e (snd (loc_eng_agps_closed AGPS_TYPE_SUPL e))"
  "evolves e (snd (loc_eng_agps_open_failed AGPS_TYPE_SUPL e))"
proof -
  have "getAgpsStateMachine AGPS_TYPE_SUPL e \<in> {None, Some Agnss}" by (simp add: getAgpsStateMachine_def)
  then show "evolves e (snd (loc_eng_agps_open AGPS_TYPE_SUPL apn b e))"
    "evolves e (snd (loc_eng_agps_closed AGPS_TYPE_SUPL e))"
    "evolves e (snd (loc_eng_agps_open_failed AGPS_TYPE_SUPL e))"
    by (auto simp: loc_eng_agps_open_def loc_eng_agps_closed_def loc_eng_agps_open_failed_def evolves_send
        split: option.split)
qed

lemma init_evolves: "evolves e (snd (loc_eng_init cb ev e))"
proof -
  have "evolves e (sendMsg LocEngInit ((cleared_eng e)\<lparr>location_cb := a, status_cb := b, sv_status_cb := c, nmea_cb := d,
      set_capabilities_cb := f, request_utc_time_cb := g, intermediateFix := i, generateNmea := n\<rparr>))" for a b c d f g i n
    by (rule evolves_trans [OF _ evolves_send]) (simp_all add: cleared_eng_def evolves_def keeps_nets_def)
  then show ?thesis by (auto simp: loc_eng_init_def split: option.split)
qed

section \<open>Every run of the interface\<close>

text \<open>The targets on which the capabilities for assistance are cleared.\<close>

definition standalone :: "hal \<Rightarrow> bool" where
  "standalone h \<longleftrightarrow> sGnssType h \<in> {GNSS_GSS, GNSS_AUTO, GNSS_QCA1530}"

fun clean_op :: "hal_op \<Rightarrow> bool" where
  "clean_op (E_handle a) = clean_answers a"
| "clean_op x = True"

lemma eng_with_eng [simp]: "eng (with_eng h e) = e" "sGnssType (with_eng h e) = sGnssType h"
  "gps_loc_cb (with_eng h e) = gps_loc_cb h" "gps_sv_cb (with_eng h e) = gps_sv_cb h"
  by (simp_all add: with_eng_def)

lemma pass_on_eng [simp]: "eng (snd (pass_on f h)) = snd (f (eng h))" "sGnssType (snd (pass_on f h)) = sGnssType h"
  by (simp_all add: pass_on_def split_beta)

lemma loc_init_evolves:
  assumes "loc_init pf agps cpi cb h = Some (r, h')"
  shows "evolves (eng h) (eng h') \<and> sGnssType h' = sGnssType h"
proof (cases cb)
  case None
  then show ?thesis using assms by (simp add: loc_init_def)
next
  case (Some c)
  let ?e1 = "snd (loc_eng_init (Some (clientCallbacks c)) loc_init_event (eng h))"
  let ?e2 = "setGpsLockMsg 0 (set_features agps cpi ?e1)"
  let ?e3 = "setXtraUserAgent (requestUlp (getCarrierCapabilities (gps_conf ?e2)) ?e2)"
  have "evolves (eng h) ?e1" by (rule init_evolves)
  also have "evolves ?e1 ?e2" by (rule evolves_trans [OF votes_evolve(3) calls_evolve(10)])
  also have "evolves ?e2 ?e3" by (rule evolves_trans [OF votes_evolve(4,5)])
  finally have 3: "evolves (eng h) ?e3" .
  have "evolves ?e3 (setPowerVote True (setPowerVoteRight b ?e3))" for b
    by (rule evolves_trans [OF votes_evolve(2,1)])
  with 3 have 4: "evolves (eng h) (setPowerVote True (setPowerVoteRight b ?e3))" for b by (rule evolves_trans)
  show ?thesis using assms Some 3 4 by (auto simp: loc_init_def Let_def split_beta split: if_splits)
qed

lemma loc_cleanup_evolves:
  assumes "loc_cleanup h = Some h'"
  shows "evolves (eng h) (eng h') \<and> sGnssType h' = sGnssType h"
proof -
  let ?e1 = "setPowerVote False (eng h)"
  have "evolves (eng h) ?e1" by (rule votes_evolve)
  also have "evolves ?e1 (setGpsLockMsg (GPS_LOCK (gps_conf ?e1)) ?e1)" by (rule calls_evolve)
  also have "evolves \<dots> (loc_eng_cleanup \<dots>)" by (rule calls_evolve)
  finally show ?thesis using assms by (auto simp: loc_cleanup_def Let_def split: if_splits)
qed

lemma if_handlers_evolve:
  "loc_eng_dmn_conn_loc_api_server_if_request_handler r e = Some x \<Longrightarrow> evolves e (snd x)"
  "loc_eng_dmn_conn_loc_api_server_if_release_handler r e = Some x \<Longrightarrow> evolves e (snd x)"
  by (auto simp: loc_eng_dmn_conn_loc_api_server_if_request_handler_def if_request_msg_def
      loc_eng_dmn_conn_loc_api_server_if_release_handler_def split: if_splits option.splits intro!: evolves_send)

lemma config_update_evolves:
  "evolves (eng h) (eng (loc_configuration_update d h)) \<and> sGnssType (loc_configuration_update d h) = sGnssType h"
  using evolves_trans [OF config_evolves clear_ms_evolves] config_evolves
  by (simp add: loc_configuration_update_def Let_def)

lemma internal_evolves: "evolves e (sendMsg (internal_msg c) e)"
  by (cases c) (simp_all add: evolves_send)

text \<open>Each operation but the message thread only lets the engine evolve.\<close>

lemma hal_apply_evolves:
  assumes "hal_apply x h = Some h'" "\<nexists>a. x = E_handle a"
  shows "evolves (eng h) (eng h') \<and> sGnssType h' = sGnssType h"
proof (cases x)
  case (H_init pf agps cpi cb)
  then show ?thesis using assms(1) loc_init_evolves by auto
next
  case H_cleanup
  then show ?thesis using assms(1) loc_cleanup_evolves by simp
next
  case (H_config d)
  then show ?thesis using assms(1) config_update_evolves by auto
next
  case (H_xtra_init cb)
  then show ?thesis using assms(1) votes_evolve(6) by (auto simp: loc_xtra_init_def pass_on_def split_beta split: option.splits)
next
  case (H_xtra_inject d l)
  then show ?thesis using assms(1)
    by (auto simp: loc_xtra_inject_data_def loc_eng_xtra_inject_data_def evolves_send split: option.splits if_splits)
next
  case (E_if_request r)
  then show ?thesis using assms(1) if_handlers_evolve(1) by (auto simp: env_step_def)
next
  case (E_if_release r)
  then show ?thesis using assms(1) if_handlers_evolve(2) by (auto simp: env_step_def)
next
  case (E_handle a)
  then show ?thesis using assms(2) by simp
qed (use assms in \<open>auto simp: env_step_def loc_start_def loc_stop_def loc_set_position_mode_def loc_inject_time_def
    loc_inject_location_def loc_delete_aiding_data_def loc_agps_init_def loc_agps_open_def
    loc_agps_open_with_apniptype_def loc_agps_closed_def loc_agps_open_failed_def loc_agps_set_server_def
    loc_gps_measurement_init_def loc_gps_measurement_close_def loc_ni_init_def loc_ni_respond_def
    loc_agps_ril_update_network_availability_def loc_agps_install_certificates_def loc_agps_revoke_certificates_def
    calls_evolve votes_evolve measurement_evolves reports_evolve set_server_proxy_evolves agps_init_evolves
    agps_answers_evolve internal_evolves\<close>)

lemma hal_apply_inv:
  assumes "hal_apply x h = Some h'" "clean_op x" "net_inv (standalone h) (eng h)"
  shows "net_inv (standalone h') (eng h')"
proof (cases "\<exists>a. x = E_handle a")
  case True
  then show ?thesis using assms handle_inv by (auto simp: env_step_def standalone_def)
next
  case False
  then have "evolves (eng h) (eng h')" "sGnssType h' = sGnssType h" using hal_apply_evolves [OF assms(1)] by simp_all
  then show ?thesis using evolves_inv assms(3) by (simp add: standalone_def)
qed

lemma hal_run_inv:
  "\<lbrakk>hal_run h ops h'; list_all clean_op ops; net_inv (standalone h) (eng h)\<rbrakk> \<Longrightarrow> net_inv (standalone h') (eng h')"
  by (induction rule: hal_run.induct) (auto dest: hal_apply_inv)

lemma hal_run_type: "\<lbrakk>hal_run h ops h'; list_all clean_op ops\<rbrakk> \<Longrightarrow> sGnssType h' = sGnssType h"
proof (induction rule: hal_run.induct)
  case (hal_run_Cons x h h1 xs h')
  have "sGnssType h1 = sGnssType h"
  proof (cases "\<exists>a. x = E_handle a")
    case True
    then show ?thesis using hal_run_Cons.hyps(1) by (auto simp: env_step_def)
  next
    case False
    then show ?thesis using hal_apply_evolves [OF hal_run_Cons.hyps(1)] by simp
  qed
  then show ?case using hal_run_Cons by simp
qed simp

lemma no_ms_clear [simp]: "no_ms (gps_conf (clear_ms e))"
proof -
  have "(c AND NOT (a OR b)) AND a = 0" "(c AND NOT (a OR b)) AND b = 0" for a b c :: uint32
    by (auto simp: bit_eq_iff bit_simps)
  then show ?thesis by (simp only: clear_ms_def no_ms_def) simp
qed

lemma read_config_facts [simp]:
  "agnss_nif (eng (loc_eng_read_config f h)) = agnss_nif (eng h)"
  "internet_nif (eng (loc_eng_read_config f h)) = internet_nif (eng h)"
  "wifi_nif (eng (loc_eng_read_config f h)) = wifi_nif (eng h)"
  "queue (eng (loc_eng_read_config f h)) = queue (eng h)"
  by (simp_all add: loc_eng_read_config_def Let_def split_beta)

lemma clear_ms_facts [simp]:
  "agnss_nif (clear_ms e) = agnss_nif e" "internet_nif (clear_ms e) = internet_nif e"
  "wifi_nif (clear_ms e) = wifi_nif e" "queue (clear_ms e) = queue e"
  by (simp_all add: clear_ms_def)

lemma opened_inv:
  assumes "get_gps_interface f pf fd new_hal = (True, h)"
  shows "net_inv (standalone h) (eng h)"
proof -
  have "agnss_nif loc_afw_data = None" "internet_nif loc_afw_data = None" "wifi_nif loc_afw_data = None"
    "queue loc_afw_data = []"
    by (simp_all add: loc_afw_data_def)
  then show ?thesis
    using assms by (auto simp: get_gps_interface_def Let_def new_hal_def net_inv_def standalone_def split: if_splits)
qed


lemma mode_forced:
  assumes "no_ms (gps_conf e)" "adapter e" "\<not> takes (mUlp e)"
  shows "\<exists>p. queue (snd (loc_eng_set_position_mode m e)) = queue e @ [LocEngPositionMode p] \<and>
    pmode p = LOC_POSITION_MODE_STANDALONE"
  using assms by (auto simp: loc_eng_set_position_mode_def no_ms_def sendFixMode_def Let_def)

text \<open>
  C14: On a target without assistance the SUPL machine is never created, the two capabilities stay
  cleared, and every mode the framework asks for is sent on as the stand-alone mode.
\<close>

theorem standalone_target_stays_standalone:
  assumes "get_gps_interface f pf fd new_hal = (True, h)" "standalone h" "hal_run h ops h'" "list_all clean_op ops"
  shows "agnss_nif (eng h') = None \<and>
    CAPABILITIES (gps_conf (eng h')) AND (GPS_CAPABILITY_MSA OR GPS_CAPABILITY_MSB) = 0 \<and>
    (adapter (eng h') \<longrightarrow> \<not> takes (mUlp (eng h')) \<longrightarrow>
       (\<exists>p. queue (eng (snd (loc_set_position_mode mode recur interval accu time h'))) =
          queue (eng h') @ [LocEngPositionMode p] \<and> pmode p = LOC_POSITION_MODE_STANDALONE))"
proof -
  have "standalone h'" using assms(2) hal_run_type [OF assms(3,4)] by (simp add: standalone_def)
  then have inv: "no_ms (gps_conf (eng h'))" "agnss_nif (eng h') = None"
    using hal_run_inv [OF assms(3,4) opened_inv [OF assms(1)]] by (simp_all add: net_inv_def)
  moreover have "CAPABILITIES (gps_conf (eng h')) AND (GPS_CAPABILITY_MSA OR GPS_CAPABILITY_MSB) = 0"
    using inv(1) by (simp add: no_ms_def bit.conj_disj_distrib)
  ultimately show ?thesis using mode_forced by (simp add: loc_set_position_mode_def)
qed

text \<open>A stand-alone board without configuration files, and a framework with all callbacks.\<close>

definition no_files :: config_files where
  "no_files = \<lparr>atof = (\<lambda>s. 0), gps_conf_file = None, sap_conf_file = None\<rparr>"

definition apq_board :: platform where
  "apq_board = \<lparr>qca1530_readings = (\<lambda>i. Some ''no''), ro_baseband = ''apq'', accessible = (\<lambda>f. False),
     contents_of = (\<lambda>f. None)\<rparr>"

definition framework :: "nat \<Rightarrow> hal_callbacks" where
  "framework k = \<lparr>hc_location = Some k, hc_sv_status = Some k, hc_status = True, hc_nmea = True,
     hc_set_capabilities = True, hc_request_utc_time = True\<rparr>"

definition opened :: hal where
  "opened = snd (get_gps_interface no_files apq_board 3 new_hal)"

lemma opened_facts:
  "get_gps_interface no_files apq_board 3 new_hal = (True, opened)" "standalone opened"
  "\<not> adapter (eng opened)" "\<not> agps_status_cb (eng opened)" "no_ms (gps_conf (eng opened))"
proof -
  have t: "loc_get_target apq_board no_target = TARGET_APQ_SA"
    by (simp add: loc_get_target_def is_qca1530_def qca1530_loop.simps apq_board_def no_target_def Let_def begins_def
        line_is_def soc_file_def read_a_line_def)
  have g: "getTargetGnssType TARGET_APQ_SA = GNSS_GSS"
    using gnss_of_target(1) [of GNSS_GSS NO_SSC] by (simp add: TARGET_APQ_SA_def GNSS_GSS_def NO_SSC_def)
  have o: "get_gps_interface no_files apq_board 3 new_hal =
      (True, (loc_eng_read_config no_files new_hal)\<lparr>gTarget := TARGET_APQ_SA, sGnssType := GNSS_GSS,
         eng := clear_ms (eng (loc_eng_read_config no_files new_hal)), gss_fd := 3\<rparr>)"
    using t g by (simp add: get_gps_interface_def Let_def new_hal_def loc_eng_read_config_def split_beta)
  have "adapter (clear_ms e) = adapter e" "agps_status_cb (clear_ms e) = agps_status_cb e" for e
    by (simp_all add: clear_ms_def)
  moreover have "adapter (eng (loc_eng_read_config no_files new_hal)) = False"
    "agps_status_cb (eng (loc_eng_read_config no_files new_hal)) = False"
    by (simp_all add: loc_eng_read_config_def new_hal_def loc_afw_data_def Let_def split_beta)
  ultimately show "get_gps_interface no_files apq_board 3 new_hal = (True, opened)" "standalone opened"
    "\<not> adapter (eng opened)" "\<not> agps_status_cb (eng opened)" "no_ms (gps_conf (eng opened))"
    by (simp_all add: opened_def o standalone_def)
qed

text \<open>The first initialisation does not fail and leaves an adapter behind; a later one keeps it.\<close>

lemma loc_init_total:
  "\<exists>r h'. loc_init pf agps cpi cb h = Some (r, h') \<and> (cb \<noteq> None \<longrightarrow> r = 0 \<and> adapter (eng h') \<and>
     (\<not> adapter (eng h) \<longrightarrow> \<not> agps_status_cb (eng h') \<and> gps_conf (eng h') = gps_conf (eng h)))"
proof (cases cb)
  case (Some c)
  have ev: "loc_init_event \<noteq> 0" by code_simp
  let ?p = "loc_eng_init (Some (clientCallbacks c)) loc_init_event (eng h)"
  have init: "fst ?p = 0" "adapter (snd ?p)" "\<not> adapter (eng h) \<Longrightarrow> \<not> agps_status_cb (snd ?p) \<and> gps_conf (snd ?p) = gps_conf (eng h)"
    using ev by (simp_all add: loc_eng_init_def cleared_eng_def)
  have keep: "adapter (setPowerVote b e) = adapter e" "agps_status_cb (setPowerVote b e) = agps_status_cb e"
    "gps_conf (setPowerVote b e) = gps_conf e"
    "adapter (setPowerVoteRight b e) = adapter e" "agps_status_cb (setPowerVoteRight b e) = agps_status_cb e"
    "gps_conf (setPowerVoteRight b e) = gps_conf e" for b e
    by (simp_all add: setPowerVote_def setPowerVoteRight_def requestPowerVote_def)
  show ?thesis
    using init Some by (auto simp: loc_init_def Let_def split_beta keep setXtraUserAgent_def requestUlp_def
      setGpsLockMsg_def set_features_def)
qed (simp add: loc_init_def)

lemma opened_in_service:
  "\<exists>h. hal_run opened [H_init apq_board False False (Some (framework 1)), H_agps_init (\<lambda>n. None) True] h \<and>
     nif_of Internet (eng h) = Some (new_AgpsStateMachine servicerTypeAgps AGPS_TYPE_WWAN_ANY False)"
proof -
  obtain h1 where h1: "loc_init apq_board False False (Some (framework 1)) opened = Some (0, h1)" "adapter (eng h1)"
    "\<not> agps_status_cb (eng h1)" "gps_conf (eng h1) = gps_conf (eng opened)"
    using loc_init_total [of apq_board False False "Some (framework 1)" opened] opened_facts(3) by auto
  have "CAPABILITIES (gps_conf (eng h1)) AND GPS_CAPABILITY_MSA = 0" "CAPABILITIES (gps_conf (eng h1)) AND GPS_CAPABILITY_MSB = 0"
    using opened_facts(5) by (simp_all add: h1(4) no_ms_def)
  then have "internet_nif (loc_eng_agps_init (\<lambda>n. None) True (eng h1)) =
      Some (new_AgpsStateMachine servicerTypeAgps AGPS_TYPE_WWAN_ANY False)"
    using h1(2,3) by (simp add: loc_eng_agps_init_def Let_def)
  then have "internet_nif (eng (loc_agps_init (\<lambda>n. None) True h1)) =
      Some (new_AgpsStateMachine servicerTypeAgps AGPS_TYPE_WWAN_ANY False)"
    by (simp add: loc_agps_init_def)
  moreover have "hal_apply (H_init apq_board False False (Some (framework 1))) opened = Some h1"
    unfolding hal_apply.simps h1(1) by simp
  then have "hal_run opened [H_init apq_board False False (Some (framework 1)), H_agps_init (\<lambda>n. None) True]
      (loc_agps_init (\<lambda>n. None) True h1)"
    by (rule hal_run_Cons [OF _ hal_run_Cons [OF _ hal_run_Nil]]) simp
  ultimately show ?thesis unfolding nif_of.simps by blast
qed


theorem standalone_target_stays_standalone_witness:
  "\<exists>h. hal_run opened [H_init apq_board False False (Some (framework 1)), H_agps_init (\<lambda>n. None) True] h \<and>
     agnss_nif (eng h) = None"
  using opened_in_service standalone_target_stays_standalone [OF opened_facts(1,2), of
    "[H_init apq_board False False (Some (framework 1)), H_agps_init (\<lambda>n. None) True]"] by fastforce

section \<open>Who is told the positions\<close>

fun changes_callbacks :: "hal_op \<Rightarrow> bool" where
  "changes_callbacks (H_init pf agps cpi cb) = True"
| "changes_callbacks H_cleanup = True"
| "changes_callbacks x = False"

text \<open>What has been told in between went to the callbacks that were installed.\<close>

definition tells :: "hal \<Rightarrow> hal \<Rightarrow> bool" where
  "tells h h' \<longleftrightarrow> gps_loc_cb h' = gps_loc_cb h \<and> gps_sv_cb h' = gps_sv_cb h \<and>
     (\<exists>os. hal_out h' = hal_out h @ os \<and>
        (\<forall>k l. To_location k l \<in> set os \<longrightarrow> gps_loc_cb h = Some k) \<and>
        (\<forall>k sv. To_sv k sv \<in> set os \<longrightarrow> gps_sv_cb h = Some k))"

lemma tells_refl [simp]: "tells h h"
  by (simp add: tells_def)

lemma tells_trans:
  assumes "tells h h1" "tells h1 h2"
  shows "tells h h2"
proof -
  obtain os where os: "hal_out h1 = hal_out h @ os" "\<forall>k l. To_location k l \<in> set os \<longrightarrow> gps_loc_cb h = Some k"
    "\<forall>k sv. To_sv k sv \<in> set os \<longrightarrow> gps_sv_cb h = Some k"
    using assms(1) unfolding tells_def by blast
  obtain ps where ps: "hal_out h2 = hal_out h1 @ ps" "\<forall>k l. To_location k l \<in> set ps \<longrightarrow> gps_loc_cb h1 = Some k"
    "\<forall>k sv. To_sv k sv \<in> set ps \<longrightarrow> gps_sv_cb h1 = Some k"
    using assms(2) unfolding tells_def by blast
  have cbs: "gps_loc_cb h1 = gps_loc_cb h" "gps_sv_cb h1 = gps_sv_cb h" "gps_loc_cb h2 = gps_loc_cb h"
    "gps_sv_cb h2 = gps_sv_cb h"
    using assms by (simp_all add: tells_def)
  have "hal_out h2 = hal_out h @ (os @ ps)" using os(1) ps(1) by simp
  moreover have "\<forall>k l. To_location k l \<in> set (os @ ps) \<longrightarrow> gps_loc_cb h = Some k"
    "\<forall>k sv. To_sv k sv \<in> set (os @ ps) \<longrightarrow> gps_sv_cb h = Some k"
    using os(2,3) ps(2,3) cbs(1,2) by auto
  ultimately show ?thesis using cbs(3,4) unfolding tells_def by blast
qed

lemma local_cb_tells:
  "To_location k l \<in> set (local_cb h c) \<Longrightarrow> gps_loc_cb h = Some k"
  "To_sv k sv \<in> set (local_cb h c) \<Longrightarrow> gps_sv_cb h = Some k"
  by (cases c; auto split: option.splits)+

lemma with_eng_tells [simp]: "tells h (with_eng h e)"
  unfolding tells_def with_eng_def using local_cb_tells by fastforce

lemma pass_on_tells [simp]: "tells h (snd (pass_on f h))"
  by (simp add: pass_on_def split_beta)

lemma hal_apply_tells:
  assumes "hal_apply x h = Some h'" "\<not> changes_callbacks x"
  shows "tells h h'"
proof (cases x)
  case (H_config d)
  have "tells h ((with_eng h e)\<lparr>eng := e'\<rparr>)" for e e'
    by (rule tells_trans [OF with_eng_tells [of h e]]) (simp add: tells_def)
  then show ?thesis using assms(1) H_config by (auto simp: loc_configuration_update_def Let_def)
next
  case (H_xtra_init cb)
  then show ?thesis using assms(1) pass_on_tells [of h] by (auto simp: loc_xtra_init_def pass_on_def split_beta split: option.splits)
next
  case (H_xtra_inject d l)
  then show ?thesis using assms(1)
    by (auto simp: loc_xtra_inject_data_def loc_eng_xtra_inject_data_def split: option.splits if_splits)
qed (use assms in \<open>auto simp: env_step_def loc_start_def loc_stop_def loc_set_position_mode_def loc_inject_time_def
    loc_inject_location_def loc_delete_aiding_data_def loc_agps_init_def loc_agps_open_def
    loc_agps_open_with_apniptype_def loc_agps_closed_def loc_agps_open_failed_def loc_agps_set_server_def
    loc_gps_measurement_init_def loc_gps_measurement_close_def loc_ni_init_def loc_ni_respond_def
    loc_agps_ril_update_network_availability_def loc_agps_install_certificates_def loc_agps_revoke_certificates_def\<close>)

lemma hal_run_tells:
  "\<lbrakk>hal_run h ops h'; list_all (\<lambda>x. \<not> changes_callbacks x) ops\<rbrakk> \<Longrightarrow> tells h h'"
  by (induction rule: hal_run.induct) (auto dest: hal_apply_tells intro: tells_trans)

text \<open>
  C20: After the clean-up, whatever messages are still waiting and whatever the modem reports, no position
  and no satellite reaches the framework until it initialises the library again.
\<close>

theorem silent_after_cleanup:
  assumes "loc_cleanup h = Some h1" "hal_run h1 ops h2" "list_all (\<lambda>x. \<not> changes_callbacks x) ops"
  shows "\<exists>os. hal_out h2 = hal_out h1 @ os \<and>
    (\<nexists>k l. To_location k l \<in> set os) \<and> (\<nexists>k sv. To_sv k sv \<in> set os)"
proof -
  have "gps_loc_cb h1 = None" "gps_sv_cb h1 = None"
    using assms(1) by (auto simp: loc_cleanup_def Let_def split: if_splits)
  with hal_run_tells [OF assms(2,3)] show ?thesis unfolding tells_def by auto
qed

theorem silent_after_cleanup_witness:
  "\<exists>h h1 h2 os. loc_init apq_board False False (Some (framework 1)) opened = Some (0, h) \<and> loc_cleanup h = Some h1 \<and>
     hal_run h1 [E_report (R_position \<lparr>has_accuracy = False, accuracy = 0, pos_id = 7\<rparr> LOC_SESS_SUCCESS 1), H_stop] h2 \<and>
     hal_out h2 = hal_out h1 @ os \<and> (\<nexists>k l. To_location k l \<in> set os)"
proof -
  obtain h where h: "loc_init apq_board False False (Some (framework 1)) opened = Some (0, h)" "adapter (eng h)"
    using loc_init_total [of apq_board False False "Some (framework 1)" opened] by auto
  obtain h1 where h1: "loc_cleanup h = Some h1" using h(2) by (simp add: loc_cleanup_def Let_def)
  let ?ops = "[E_report (R_position \<lparr>has_accuracy = False, accuracy = 0, pos_id = 7\<rparr> LOC_SESS_SUCCESS 1), H_stop]"
  obtain h2 where h2: "hal_run h1 ?ops h2" by (simp add: env_step_def)
  from silent_after_cleanup [OF h1 h2] h h1 h2 show ?thesis by (auto 0 3)
qed

end
