(* ===== verification/Loc_Thread.thy ===== *)
theory Loc_Thread
  imports Prelude
begin

text \<open>
  The threads of the library (\<open>src/gps/utils/LocThread.cpp\<close>, \<open>LocThread.h\<close>).

  A \<open>LocThreadDelegate\<close> is used by two threads, the one that owns the \<open>LocThread\<close> and the one it has
  spawned, and is deleted by the last of them to call \<open>destroy\<close>.  Each access of one of them to the
  delegate, each call of the runnable and each critical section is one step, and the steps of the two threads
  may be interleaved in every way.  An access to a deleted delegate is the outcome \<open>Fault\<close>.  A delegate,
  its spawned thread and how far the owner has come with it are one \<open>life\<close>; a \<open>LocThread\<close> goes through
  one life for every successful creation.  The owner's calls are made one after the other, and not by the
  spawned thread itself.
\<close>

section \<open>Delegate and runnable\<close>

datatype 'a outcome = Blocked | Fault | Moves 'a

datatype tev = Prerun | Run_once bool | Postrun | Deleted

datatype caller = In_create | In_stop

datatype owner_pc =
    O_check
  | O_held
  | O_bye
  | O_stop
  | O_join_check
  | O_join
  | O_destroy caller
  | O_lock caller
  | O_delete caller
  | O_left

datatype child_pc =
    C_none
  | C_start
  | C_pre
  | C_prerun
  | C_loop
  | C_run
  | C_post
  | C_postrun
  | C_null
  | C_free
  | C_destroy
  | C_lock
  | C_delete
  | C_done

record delegate =
  mRunnable :: "addr option"
  mJoinable :: bool
  mThandle :: bool
  mRefCount :: int

record life =
  dlg :: "delegate option"
  frees :: nat
  owner :: owner_pc
  spawned :: child_pc
  story :: "tev list"
  wants_join :: bool
  handed :: "bool option"

definition isRunning :: "delegate \<Rightarrow> bool" where
  "isRunning d = (mRunnable d \<noteq> None)"

definition with_dlg :: "(delegate \<Rightarrow> life outcome) \<Rightarrow> life \<Rightarrow> life outcome" where
  "with_dlg f l = (case dlg l of None \<Rightarrow> Fault | Some d \<Rightarrow> f d)"

text \<open>
  The constructor of the delegate: \<open>ok\<close> says whether the creator or \<open>pthread_create\<close> gives a thread.  From
  then on the spawned thread may run, and what the constructor still does (the name, the detaching) touches the
  thread only.
\<close>

definition new_delegate :: "addr \<Rightarrow> bool \<Rightarrow> bool \<Rightarrow> delegate" where
  "new_delegate runnable joinable ok =
     (let d = \<lparr>mRunnable = Some runnable, mJoinable = joinable, mThandle = False, mRefCount = 2\<rparr>
      in if ok then d\<lparr>mThandle := True\<rparr>
         else d\<lparr>mThandle := False, mRunnable := None, mJoinable := False, mRefCount := 1\<rparr>)"

definition new_life :: "addr \<Rightarrow> bool \<Rightarrow> bool \<Rightarrow> life" where
  "new_life runnable joinable ok =
     \<lparr>dlg = Some (new_delegate runnable joinable ok), frees = 0, owner = O_check,
      spawned = (if ok then C_start else C_none), story = [], wants_join = joinable, handed = None\<rparr>"

text \<open>The name of the thread: \<open>memcpy\<close> takes 15 characters of it, whatever its length (\<open>None\<close> beyond its end).\<close>

definition thread_name :: "string option \<Rightarrow> string option" where
  "thread_name threadName =
     (let name = (case threadName of None \<Rightarrow> ''LocThread'' | Some n \<Rightarrow> n) in
      if length name + 1 < 15 then None else Some (takeWhile (\<lambda>c. c \<noteq> CHR 0x00) (take 15 (name @ [CHR 0x00]))))"

section \<open>The owner's side\<close>

definition leave :: "caller \<Rightarrow> life \<Rightarrow> life" where
  "leave a l = l\<lparr>owner := O_left, handed := (if a = In_create then Some False else handed l)\<rparr>"

text \<open>\<open>create\<close> after the constructor, \<open>bye\<close>, \<open>stop\<close> and \<open>destroy\<close> as the owner executes them.\<close>

definition owner_step :: "life \<Rightarrow> life outcome" where
  "owner_step l = (case owner l of
     O_check \<Rightarrow> with_dlg (\<lambda>d.
       if isRunning d then Moves (l\<lparr>owner := O_held, handed := Some True\<rparr>)
       else Moves (l\<lparr>owner := O_destroy In_create\<rparr>)) l
   | O_held \<Rightarrow> Blocked
   | O_bye \<Rightarrow> with_dlg (\<lambda>d. Moves (l\<lparr>owner := (if mJoinable d then O_stop else O_destroy In_stop)\<rparr>)) l
   | O_stop \<Rightarrow> with_dlg (\<lambda>d.
       Moves (l\<lparr>dlg := Some (if isRunning d then d\<lparr>mRunnable := None\<rparr> else d), owner := O_join_check\<rparr>)) l
   | O_join_check \<Rightarrow> with_dlg (\<lambda>d.
       if mJoinable d then Moves (l\<lparr>dlg := Some (d\<lparr>mJoinable := False\<rparr>), owner := O_join\<rparr>)
       else Moves (l\<lparr>owner := O_destroy In_stop\<rparr>)) l
   | O_join \<Rightarrow> with_dlg (\<lambda>d. if spawned l = C_done then Moves (l\<lparr>owner := O_destroy In_stop\<rparr>) else Blocked) l
   | O_destroy a \<Rightarrow> with_dlg (\<lambda>d.
       if mRefCount d > 0 then Moves (l\<lparr>owner := O_lock a\<rparr>) else Moves (leave a l)) l
   | O_lock a \<Rightarrow> with_dlg (\<lambda>d.
       let l' = l\<lparr>dlg := Some (d\<lparr>mRefCount := mRefCount d - 1\<rparr>)\<rparr>
       in if 1 = mRefCount d then Moves (l'\<lparr>owner := O_delete a\<rparr>) else Moves (leave a l')) l
   | O_delete a \<Rightarrow> with_dlg (\<lambda>d. Moves (leave a (l\<lparr>dlg := None, frees := frees l + 1\<rparr>))) l
   | O_left \<Rightarrow> Blocked)"

section \<open>The spawned thread's side\<close>

definition tell :: "tev \<Rightarrow> life \<Rightarrow> life" where
  "tell e l = l\<lparr>story := story l @ [e]\<rparr>"

text \<open>\<open>threadMain\<close>; \<open>again\<close> is what the next call of the runnable's \<open>run\<close> returns.\<close>

definition child_step :: "bool \<Rightarrow> life \<Rightarrow> life outcome" where
  "child_step again l = (case spawned l of
     C_none \<Rightarrow> Blocked
   | C_start \<Rightarrow> with_dlg (\<lambda>d. Moves (l\<lparr>spawned := (if mRunnable d \<noteq> None then C_pre else C_destroy)\<rparr>)) l
   | C_pre \<Rightarrow> with_dlg (\<lambda>d. Moves (l\<lparr>spawned := (if isRunning d then C_prerun else C_loop)\<rparr>)) l
   | C_prerun \<Rightarrow> Moves (tell Prerun (l\<lparr>spawned := C_loop\<rparr>))
   | C_loop \<Rightarrow> with_dlg (\<lambda>d. Moves (l\<lparr>spawned := (if isRunning d then C_run else C_post)\<rparr>)) l
   | C_run \<Rightarrow> Moves (tell (Run_once again) (l\<lparr>spawned := (if again then C_loop else C_post)\<rparr>))
   | C_post \<Rightarrow> with_dlg (\<lambda>d. Moves (l\<lparr>spawned := (if isRunning d then C_postrun else C_null)\<rparr>)) l
   | C_postrun \<Rightarrow> Moves (tell Postrun (l\<lparr>spawned := C_null\<rparr>))
   | C_null \<Rightarrow> with_dlg (\<lambda>d. Moves (l\<lparr>dlg := Some (d\<lparr>mRunnable := None\<rparr>), spawned := C_free\<rparr>)) l
   | C_free \<Rightarrow> Moves (tell Deleted (l\<lparr>spawned := C_destroy\<rparr>))
   | C_destroy \<Rightarrow> with_dlg (\<lambda>d. Moves (l\<lparr>spawned := (if mRefCount d > 0 then C_lock else C_done)\<rparr>)) l
   | C_lock \<Rightarrow> with_dlg (\<lambda>d.
       Moves (l\<lparr>dlg := Some (d\<lparr>mRefCount := mRefCount d - 1\<rparr>),
                spawned := (if 1 = mRefCount d then C_delete else C_done)\<rparr>)) l
   | C_delete \<Rightarrow> with_dlg (\<lambda>d. Moves (l\<lparr>dlg := None, frees := frees l + 1, spawned := C_done\<rparr>)) l
   | C_done \<Rightarrow> Blocked)"

section \<open>The thread object\<close>

record loc_thread =
  lives :: "life list"
  mThread :: "nat option"
  gone :: bool

definition new_thread :: loc_thread where
  "new_thread = \<lparr>lives = [], mThread = None, gone = False\<rparr>"

text \<open>The calls of the owner, its next step inside a call, and the next step of the spawned thread of a life.\<close>

datatype act =
    Start "addr option" bool bool
  | Stop
  | Destroy
  | Owner
  | Child nat bool

definition in_call :: "loc_thread \<Rightarrow> bool" where
  "in_call t = (lives t \<noteq> [] \<and> owner (last (lives t)) \<noteq> O_held \<and> owner (last (lives t)) \<noteq> O_left)"

definition LocThread_start :: "addr option \<Rightarrow> bool \<Rightarrow> bool \<Rightarrow> loc_thread \<Rightarrow> loc_thread" where
  "LocThread_start runnable joinable ok t =
     (if mThread t = None
      then (case runnable of
              None \<Rightarrow> t
            | Some r \<Rightarrow> t\<lparr>lives := lives t @ [new_life r joinable ok]\<rparr>)
      else t)"

definition LocThread_stop :: "loc_thread \<Rightarrow> loc_thread" where
  "LocThread_stop t = (case mThread t of
     None \<Rightarrow> t
   | Some i \<Rightarrow> t\<lparr>lives := (lives t)[i := (lives t ! i)\<lparr>owner := O_stop\<rparr>]\<rparr>)"

definition LocThread_delete :: "loc_thread \<Rightarrow> loc_thread" where
  "LocThread_delete t = (case mThread t of
     None \<Rightarrow> t\<lparr>gone := True\<rparr>
   | Some i \<Rightarrow> t\<lparr>lives := (lives t)[i := (lives t ! i)\<lparr>owner := O_bye\<rparr>], gone := True\<rparr>)"

definition owner_moves :: "loc_thread \<Rightarrow> loc_thread outcome" where
  "owner_moves t = (if lives t = [] then Blocked else
     let i = length (lives t) - 1 in
     case owner_step (lives t ! i) of
       Blocked \<Rightarrow> Blocked
     | Fault \<Rightarrow> Fault
     | Moves l \<Rightarrow> Moves (t\<lparr>lives := (lives t)[i := l],
                          mThread := (if owner l = O_held then Some i
                                      else if owner l = O_left then None else mThread t)\<rparr>))"

definition thread_step :: "act \<Rightarrow> loc_thread \<Rightarrow> loc_thread outcome" where
  "thread_step a t = (case a of
     Start r j ok \<Rightarrow> if gone t \<or> in_call t then Blocked else Moves (LocThread_start r j ok t)
   | Stop \<Rightarrow> if gone t \<or> in_call t then Blocked else Moves (LocThread_stop t)
   | Destroy \<Rightarrow> if gone t \<or> in_call t then Blocked else Moves (LocThread_delete t)
   | Owner \<Rightarrow> owner_moves t
   | Child i again \<Rightarrow>
       if i < length (lives t) then
         (case child_step again (lives t ! i) of
            Blocked \<Rightarrow> Blocked
          | Fault \<Rightarrow> Fault
          | Moves l \<Rightarrow> Moves (t\<lparr>lives := (lives t)[i := l]\<rparr>))
       else Blocked)"

text \<open>A run: an action that is blocked has no effect, and \<open>None\<close> is a fault.\<close>

fun thread_run :: "act list \<Rightarrow> loc_thread \<Rightarrow> loc_thread option" where
  "thread_run [] t = Some t"
| "thread_run (a # as) t =
     (case thread_step a t of
        Blocked \<Rightarrow> thread_run as t
      | Fault \<Rightarrow> None
      | Moves t' \<Rightarrow> thread_run as t')"

section \<open>The invariant of a life\<close>

text \<open>Each side holds one of the counted references until it has given it back in \<open>destroy\<close>.\<close>

fun owner_holds :: "owner_pc \<Rightarrow> int" where
  "owner_holds (O_delete a) = 0"
| "owner_holds O_left = 0"
| "owner_holds _ = 1"

fun child_holds :: "child_pc \<Rightarrow> int" where
  "child_holds C_none = 0"
| "child_holds C_delete = 0"
| "child_holds C_done = 0"
| "child_holds _ = 1"

fun owner_deletes :: "owner_pc \<Rightarrow> bool" where
  "owner_deletes (O_delete a) = True"
| "owner_deletes _ = False"

definition counted :: "life \<Rightarrow> bool" where
  "counted l = (case dlg l of
     None \<Rightarrow> frees l = 1 \<and> owner l = O_left \<and> (spawned l = C_none \<or> spawned l = C_done)
   | Some d \<Rightarrow> frees l = 0 \<and> mRefCount d = owner_holds (owner l) + child_holds (spawned l) \<and>
       (mRefCount d = 0) = (owner_deletes (owner l) \<noteq> (spawned l = C_delete)))"

lemma holds_nonneg [simp]: "0 \<le> owner_holds o1" "0 \<le> child_holds c"
  by (cases o1; simp) (cases c; simp)

lemma counted_step_owner: "counted l \<Longrightarrow> owner_step l \<noteq> Fault \<and> (\<forall>l'. owner_step l = Moves l' \<longrightarrow> counted l')"
  by (cases "owner l"; cases "dlg l"; cases "spawned l")
    (auto simp: counted_def owner_step_def with_dlg_def leave_def Let_def)

lemma counted_step_child: "counted l \<Longrightarrow> child_step b l \<noteq> Fault \<and> (\<forall>l'. child_step b l = Moves l' \<longrightarrow> counted l')"
  by (cases "spawned l"; cases "dlg l"; cases "owner l")
    (auto simp: counted_def child_step_def with_dlg_def tell_def)

text \<open>
  Where the owner is, what \<open>start\<close> has returned, and whether it has waited for a thread it wants to join.
\<close>

fun creating :: "owner_pc \<Rightarrow> bool" where
  "creating O_check = True"
| "creating (O_destroy a) = (a = In_create)"
| "creating (O_lock a) = (a = In_create)"
| "creating (O_delete a) = (a = In_create)"
| "creating _ = False"

fun before_join :: "owner_pc \<Rightarrow> bool" where
  "before_join O_check = True"
| "before_join O_held = True"
| "before_join O_bye = True"
| "before_join O_stop = True"
| "before_join O_join_check = True"
| "before_join _ = False"

definition handed_ok :: "life \<Rightarrow> bool" where
  "handed_ok l =
     ((creating (owner l) \<longrightarrow> handed l = None) \<and>
      (\<not> creating (owner l) \<and> owner l \<noteq> O_left \<longrightarrow> handed l = Some True) \<and>
      (owner l = O_left \<longrightarrow> handed l \<noteq> None) \<and>
      (spawned l = C_none \<longrightarrow> handed l \<noteq> Some True \<and> (\<forall>d. dlg l = Some d \<longrightarrow> mRunnable d = None)))"

definition joined_ok :: "life \<Rightarrow> bool" where
  "joined_ok l =
     (wants_join l \<longrightarrow> spawned l = C_none \<or>
       (before_join (owner l) \<longrightarrow> (\<forall>d. dlg l = Some d \<longrightarrow> mJoinable d)) \<and>
       (\<not> before_join (owner l) \<and> owner l \<noteq> O_join \<and> \<not> creating (owner l) \<and> handed l = Some True \<longrightarrow>
          spawned l = C_done))"

lemma handed_step_owner: "\<lbrakk>owner_step l = Moves l'; handed_ok l\<rbrakk> \<Longrightarrow> handed_ok l'"
  by (cases "owner l"; cases "dlg l")
    (auto simp: handed_ok_def owner_step_def with_dlg_def leave_def Let_def isRunning_def split: if_splits)

lemma child_step_frame:
  "child_step b l = Moves l' \<Longrightarrow>
   owner l' = owner l \<and> handed l' = handed l \<and> wants_join l' = wants_join l \<and>
   spawned l' \<noteq> C_none \<and> spawned l \<noteq> C_none \<and> spawned l \<noteq> C_done \<and>
   (\<forall>d'. dlg l' = Some d' \<longrightarrow> (\<exists>d. dlg l = Some d \<and> mJoinable d' = mJoinable d))"
  by (cases "spawned l")
    (auto simp: child_step_def with_dlg_def tell_def split: if_splits option.splits)

lemma handed_step_child: "\<lbrakk>child_step b l = Moves l'; handed_ok l\<rbrakk> \<Longrightarrow> handed_ok l'"
  using child_step_frame [of b l l'] by (simp add: handed_ok_def)

lemma joined_step_owner:
  "\<lbrakk>owner_step l = Moves l'; joined_ok l; handed_ok l\<rbrakk> \<Longrightarrow> joined_ok l'"
  by (cases "owner l"; cases "dlg l")
    (auto simp: joined_ok_def handed_ok_def owner_step_def with_dlg_def leave_def Let_def split: if_splits)

lemma joined_step_child:
  "\<lbrakk>child_step b l = Moves l'; joined_ok l\<rbrakk> \<Longrightarrow> joined_ok l'"
  using child_step_frame [of b l l'] by (auto simp: joined_ok_def)

text \<open>
  What the runnable sees: \<open>prerun\<close>, then \<open>run\<close> until it says no, then \<open>postrun\<close>, then its deletion.
\<close>

definition running_story :: "tev list \<Rightarrow> bool" where
  "running_story s = (\<exists>n. s = Prerun # replicate n (Run_once True))"

definition ended_story :: "tev list \<Rightarrow> bool" where
  "ended_story s = (running_story s \<or> (\<exists>r. running_story r \<and> s = r @ [Run_once False]))"

definition closed_story :: "tev list \<Rightarrow> bool" where
  "closed_story s = (s = [] \<or> ended_story s \<or> (\<exists>r. ended_story r \<and> s = r @ [Postrun]))"

definition full_story :: "tev list \<Rightarrow> bool" where
  "full_story s = (\<exists>r. closed_story r \<and> s = r @ [Deleted])"

definition story_at :: "child_pc \<Rightarrow> bool \<Rightarrow> tev list \<Rightarrow> bool" where
  "story_at c running s = (case c of
     C_none \<Rightarrow> s = []
   | C_start \<Rightarrow> s = []
   | C_pre \<Rightarrow> s = []
   | C_prerun \<Rightarrow> s = []
   | C_loop \<Rightarrow> running_story s \<or> s = [] \<and> \<not> running
   | C_run \<Rightarrow> running_story s
   | C_post \<Rightarrow> ended_story s \<or> s = [] \<and> \<not> running
   | C_postrun \<Rightarrow> ended_story s
   | C_null \<Rightarrow> closed_story s
   | C_free \<Rightarrow> closed_story s \<and> \<not> running
   | _ \<Rightarrow> (s = [] \<or> full_story s) \<and> \<not> running)"

definition runs_on :: "life \<Rightarrow> bool" where
  "runs_on l = (case dlg l of None \<Rightarrow> False | Some d \<Rightarrow> isRunning d)"

definition story_ok :: "life \<Rightarrow> bool" where
  "story_ok l = story_at (spawned l) (runs_on l) (story l)"

lemma story_at_stopped: "story_at c b s \<Longrightarrow> story_at c False s"
  by (cases c) (auto simp: story_at_def)

lemma running_more: "running_story s \<Longrightarrow> running_story (s @ [Run_once True])"
  unfolding running_story_def by (metis append_Cons replicate_append_same replicate_Suc)

lemma prerun_story: "running_story [Prerun]"
  unfolding running_story_def by (rule exI [of _ 0]) simp

lemma story_step_owner: "\<lbrakk>owner_step l = Moves l'; story_ok l\<rbrakk> \<Longrightarrow> story_ok l'"
proof -
  assume st: "owner_step l = Moves l'" and ok: "story_ok l"
  have "spawned l' = spawned l" "story l' = story l" "runs_on l' = runs_on l \<or> \<not> runs_on l'"
    using st by (auto simp: owner_step_def with_dlg_def leave_def Let_def runs_on_def isRunning_def
        split: owner_pc.splits option.splits if_splits)
  then show "story_ok l'" using ok story_at_stopped [of "spawned l" "runs_on l" "story l"] unfolding story_ok_def by fastforce
qed

lemma ended_stories:
  "running_story s \<Longrightarrow> ended_story s" "running_story s \<Longrightarrow> ended_story (s @ [Run_once False])"
  "closed_story []" "ended_story s \<Longrightarrow> closed_story s" "ended_story s \<Longrightarrow> closed_story (s @ [Postrun])"
  "closed_story s \<Longrightarrow> full_story (s @ [Deleted])"
  unfolding ended_story_def closed_story_def full_story_def by blast+

lemma story_step_child: "\<lbrakk>child_step b l = Moves l'; story_ok l\<rbrakk> \<Longrightarrow> story_ok l'"
  by (cases "spawned l"; cases "dlg l"; cases b)
    (auto simp: story_ok_def story_at_def child_step_def with_dlg_def tell_def runs_on_def isRunning_def
      running_more prerun_story ended_stories split: if_splits)

section \<open>The invariant of the thread object\<close>

definition life_inv :: "life \<Rightarrow> bool" where
  "life_inv l = (counted l \<and> handed_ok l \<and> joined_ok l \<and> story_ok l)"

lemma life_inv_owner: "life_inv l \<Longrightarrow> owner_step l \<noteq> Fault \<and> (\<forall>l'. owner_step l = Moves l' \<longrightarrow> life_inv l')"
  unfolding life_inv_def
  using counted_step_owner handed_step_owner joined_step_owner story_step_owner by blast

lemma life_inv_child: "life_inv l \<Longrightarrow> child_step b l \<noteq> Fault \<and> (\<forall>l'. child_step b l = Moves l' \<longrightarrow> life_inv l')"
  unfolding life_inv_def
  using counted_step_child handed_step_child joined_step_child story_step_child by blast

lemma life_inv_new: "life_inv (new_life r j ok)"
  by (simp add: life_inv_def counted_def handed_ok_def joined_ok_def story_ok_def story_at_def new_life_def
      new_delegate_def)

definition in_use :: "owner_pc \<Rightarrow> bool" where
  "in_use o1 = (\<not> creating o1 \<and> o1 \<noteq> O_left)"

definition thread_inv :: "loc_thread \<Rightarrow> bool" where
  "thread_inv t =
     (list_all life_inv (lives t) \<and>
      (let pcs = map owner (lives t) in
        list_all (\<lambda>p. p = O_left) (butlast pcs) \<and>
        mThread t = (if pcs \<noteq> [] \<and> in_use (last pcs) then Some (length pcs - 1) else None)))"

lemma thread_inv_new: "thread_inv new_thread"
  by (simp add: thread_inv_def new_thread_def)

lemma thread_inv_snoc:
  "thread_inv \<lparr>lives = ls @ [l], mThread = m, gone = g\<rparr> \<longleftrightarrow>
   list_all life_inv ls \<and> life_inv l \<and> list_all (\<lambda>p. p = O_left) (map owner ls) \<and>
   m = (if in_use (owner l) then Some (length ls) else None)"
  by (simp add: thread_inv_def)

lemma life_inv_called: "\<lbrakk>life_inv l; owner l = O_held\<rbrakk> \<Longrightarrow> life_inv (l\<lparr>owner := O_stop\<rparr>) \<and> life_inv (l\<lparr>owner := O_bye\<rparr>)"
  by (cases "dlg l")
    (auto simp: life_inv_def counted_def handed_ok_def joined_ok_def story_ok_def runs_on_def)

lemma thread_inv_start:
  assumes inv: "thread_inv t" and idle: "\<not> in_call t"
  shows "thread_inv (LocThread_start r j ok t)"
proof (cases "mThread t = None \<and> r \<noteq> None")
  case True
  then obtain x where r: "r = Some x" and m: "mThread t = None" by auto
  obtain ls m' g where t: "t = \<lparr>lives = ls, mThread = m', gone = g\<rparr>" by (cases t)
  have left: "list_all (\<lambda>p. p = O_left) (map owner ls)"
  proof (cases ls rule: rev_cases)
    case (snoc ks k)
    have "\<not> in_use (owner k)" using inv m by (simp add: t snoc thread_inv_snoc split: if_splits)
    then have "owner k = O_left" using idle by (cases "owner k") (auto simp: t snoc in_call_def in_use_def)
    then show ?thesis using inv by (simp add: t snoc thread_inv_snoc)
  qed simp
  then show ?thesis using inv m life_inv_new [of x j ok]
    by (simp add: t r LocThread_start_def thread_inv_def Let_def new_life_def in_use_def)
next
  case False
  then show ?thesis using inv by (auto simp: LocThread_start_def)
qed

lemma in_use_idle:
  assumes inv: "thread_inv t" and idle: "\<not> in_call t" and m: "mThread t = Some i"
  obtains ls l where "lives t = ls @ [l]" "i = length ls" "owner l = O_held"
proof (cases "lives t" rule: rev_cases)
  case Nil
  then show ?thesis using inv m by (simp add: thread_inv_def)
next
  case (snoc ls l)
  have "in_use (owner l)" "i = length ls" using inv m by (auto simp: snoc thread_inv_def split: if_splits)
  moreover from this have "owner l = O_held" using idle by (cases "owner l") (auto simp: snoc in_call_def in_use_def)
  ultimately show ?thesis using that snoc by blast
qed

lemma thread_inv_ended:
  assumes inv: "thread_inv t" and idle: "\<not> in_call t"
  shows "thread_inv (LocThread_stop t)" "thread_inv (LocThread_delete t)"
proof -
  have "thread_inv (LocThread_stop t) \<and> thread_inv (LocThread_delete t)"
  proof (cases "mThread t")
    case None
    then show ?thesis using inv by (simp add: LocThread_stop_def LocThread_delete_def thread_inv_def)
  next
    case (Some i)
    then obtain ls l where l: "lives t = ls @ [l]" "i = length ls" "owner l = O_held"
      using in_use_idle [OF inv idle] by blast
    show ?thesis using inv Some life_inv_called [of l]
      by (simp add: l LocThread_stop_def LocThread_delete_def thread_inv_def in_use_def)
  qed
  then show "thread_inv (LocThread_stop t)" "thread_inv (LocThread_delete t)" by blast+
qed

lemma owner_step_in_use:
  assumes "owner_step l = Moves l'"
  shows "owner l' = O_held \<and> owner l = O_check \<or> owner l' = O_left \<or> owner l' \<noteq> O_held \<and> in_use (owner l') = in_use (owner l)"
  using assms
  by (auto simp: owner_step_def with_dlg_def leave_def Let_def in_use_def
      split: owner_pc.splits option.splits if_splits)

lemma thread_inv_owner:
  assumes inv: "thread_inv t"
  shows "owner_moves t \<noteq> Fault \<and> (\<forall>t'. owner_moves t = Moves t' \<longrightarrow> thread_inv t')"
proof (cases "lives t" rule: rev_cases)
  case Nil
  then show ?thesis by (simp add: owner_moves_def)
next
  case (snoc ls l)
  have l: "life_inv l" "list_all life_inv ls" "list_all (\<lambda>p. p = O_left) (map owner ls)"
    "mThread t = (if in_use (owner l) then Some (length ls) else None)"
    using inv by (simp_all add: snoc thread_inv_def)
  show ?thesis
  proof (cases "owner_step l")
    case (Moves l')
    have "life_inv l'" using life_inv_owner [OF l(1)] Moves by blast
    moreover have "in_use O_held" "\<not> in_use O_left" by (simp_all add: in_use_def)
    ultimately show ?thesis using l owner_step_in_use [OF Moves]
      by (auto simp: owner_moves_def snoc Moves thread_inv_def)
  qed (use life_inv_owner [OF l(1)] in \<open>auto simp: owner_moves_def snoc\<close>)
qed

lemma thread_inv_child:
  assumes inv: "thread_inv t" and i: "i < length (lives t)" and st: "child_step b (lives t ! i) = Moves l'"
  shows "thread_inv (t\<lparr>lives := (lives t)[i := l']\<rparr>)"
proof -
  have "life_inv (lives t ! i)" using inv i by (simp add: thread_inv_def list_all_length)
  then have "life_inv l'" using life_inv_child st by blast
  then have all: "list_all life_inv ((lives t)[i := l'])"
    using inv i by (simp add: thread_inv_def list_all_length nth_list_update)
  have "map owner ((lives t)[i := l']) = map owner (lives t)"
    using child_step_frame [OF st] i by (simp add: map_update nth_list_update list_eq_iff_nth_eq)
  then show ?thesis using inv all unfolding thread_inv_def Let_def by (simp del: map_update map_is_Nil_conv)
qed

lemma thread_step_inv:
  assumes inv: "thread_inv t"
  shows "thread_step a t \<noteq> Fault \<and> (\<forall>t'. thread_step a t = Moves t' \<longrightarrow> thread_inv t')"
proof (cases a)
  case (Child i b)
  have "i < length (lives t) \<Longrightarrow> life_inv (lives t ! i)" using inv by (simp add: thread_inv_def list_all_length)
  then show ?thesis using Child life_inv_child thread_inv_child [OF inv]
    by (auto simp: thread_step_def split: outcome.splits)
qed (use thread_inv_start [OF inv] thread_inv_ended [OF inv] thread_inv_owner [OF inv] in \<open>auto simp: thread_step_def\<close>)

lemma thread_run_inv: "thread_inv t \<Longrightarrow> \<exists>t'. thread_run as t = Some t' \<and> thread_inv t'"
proof (induction as arbitrary: t)
  case (Cons a as)
  then show ?case using thread_step_inv [OF Cons.prems, of a] by (cases "thread_step a t") auto
qed simp

corollary thread_reachable_inv: "\<exists>t. thread_run as new_thread = Some t \<and> thread_inv t"
  by (rule thread_run_inv) (rule thread_inv_new)

lemma thread_run_append:
  "thread_run (as @ bs) t = (case thread_run as t of None \<Rightarrow> None | Some t' \<Rightarrow> thread_run bs t')"
  by (induction as arbitrary: t) (auto split: outcome.splits)

section \<open>The life of a thread\<close>

definition accounted :: "life \<Rightarrow> bool" where
  "accounted l =
     (frees l = (if dlg l = None then 1 else 0) \<and>
      (dlg l = None) = (owner l = O_left \<and> (spawned l = C_none \<or> spawned l = C_done)) \<and>
      (closed_story (story l) \<or> full_story (story l)))"

lemma story_ok_shape: "story_ok l \<Longrightarrow> closed_story (story l) \<or> full_story (story l)"
  by (cases "spawned l") (auto simp: story_ok_def story_at_def ended_stories)

lemma counted_freed:
  assumes "counted l"
  shows "(dlg l = None) = (owner l = O_left \<and> (spawned l = C_none \<or> spawned l = C_done))"
proof (cases "dlg l")
  case (Some d)
  then have n: "mRefCount d = owner_holds (owner l) + child_holds (spawned l) \<and>
    (mRefCount d = 0) = (owner_deletes (owner l) \<noteq> (spawned l = C_delete))"
    using assms unfolding counted_def Some option.case by satx
  have "\<not> (owner l = O_left \<and> (spawned l = C_none \<or> spawned l = C_done))" using n by auto
  then show ?thesis using Some by simp
qed (use assms in \<open>simp add: counted_def\<close>)

lemma life_inv_accounted: "life_inv l \<Longrightarrow> accounted l"
  using counted_freed [of l] story_ok_shape [of l]
  by (auto simp: life_inv_def accounted_def counted_def split: option.splits)

text \<open>
  C7: However the owner's calls and the steps of the spawned threads are interleaved, no access reaches a
  deleted delegate; a delegate is deleted exactly when both sides are through with it, and once; and a
  runnable sees \<open>prerun\<close>, then \<open>run\<close> until it says no, then \<open>postrun\<close>, then its deletion, and nothing after it.
\<close>

theorem thread_delegates_accounted:
  "\<exists>t. thread_run as new_thread = Some t \<and> list_all accounted (lives t)"
proof -
  obtain t where "thread_run as new_thread = Some t" "thread_inv t" using thread_reachable_inv by blast
  then show ?thesis using life_inv_accounted by (auto simp: thread_inv_def list_all_iff)
qed

text \<open>
  C21: When \<open>stop\<close> of a joinable thread has returned, or its \<open>LocThread\<close> is deleted, the spawned thread is over:
  its runnable is not called again, and nothing of the thread is left.
\<close>

theorem joined_thread_is_over:
  assumes "thread_run as new_thread = Some t" and "l \<in> set (lives t)"
    and "wants_join l" and "handed l = Some True" and "owner l = O_left"
  shows "spawned l = C_done \<and> dlg l = None \<and> frees l = 1 \<and> (story l = [] \<or> full_story (story l))"
proof -
  have inv: "life_inv l"
    using thread_reachable_inv [of as] assms(1,2) by (auto simp: thread_inv_def list_all_iff)
  then have "spawned l = C_done"
    using assms(3-5) by (auto simp: life_inv_def joined_ok_def handed_ok_def)
  then show ?thesis using inv life_inv_accounted [OF inv] assms(5)
    by (auto simp: accounted_def life_inv_def story_ok_def story_at_def)
qed

definition a_stopped_run :: "act list" where
  "a_stopped_run = [Start (Some 7) True True, Owner, Child 0 True, Child 0 True, Child 0 True, Child 0 True, Child 0 True,
     Stop, Child 0 True, Owner, Child 0 False, Owner, Child 0 True, Child 0 True, Owner, Child 0 True, Child 0 True,
     Child 0 True, Child 0 True, Owner, Owner, Owner, Owner]"

lemmas thread_defs = thread_step_def LocThread_start_def LocThread_stop_def LocThread_delete_def owner_moves_def
  owner_step_def child_step_def with_dlg_def isRunning_def in_call_def leave_def tell_def new_life_def
  new_delegate_def new_thread_def

definition after_stop :: life where
  "after_stop = \<lparr>dlg = None, frees = 1, owner = O_left, spawned = C_done,
     story = [Prerun, Run_once True, Run_once False, Deleted], wants_join = True, handed = Some True\<rparr>"

lemma a_stopped_run_ends:
  "thread_run a_stopped_run new_thread = Some \<lparr>lives = [after_stop], mThread = None, gone = False\<rparr>"
  by (simp add: a_stopped_run_def after_stop_def thread_defs)

theorem joined_thread_is_over_witness:
  "spawned after_stop = C_done \<and> dlg after_stop = None \<and> frees after_stop = 1 \<and>
   (story after_stop = [] \<or> full_story (story after_stop))"
  by (rule joined_thread_is_over [OF a_stopped_run_ends]) (simp_all add: after_stop_def)

section \<open>The end of a stop\<close>

fun owner_left :: "owner_pc \<Rightarrow> nat" where
  "owner_left O_join_check = 5"
| "owner_left O_join = 4"
| "owner_left (O_destroy a) = 3"
| "owner_left (O_lock a) = 2"
| "owner_left (O_delete a) = 1"
| "owner_left _ = 0"

fun child_left :: "child_pc \<Rightarrow> nat" where
  "child_left C_start = 11"
| "child_left C_pre = 10"
| "child_left C_prerun = 9"
| "child_left C_run = 9"
| "child_left C_loop = 8"
| "child_left C_post = 7"
| "child_left C_postrun = 6"
| "child_left C_null = 5"
| "child_left C_free = 4"
| "child_left C_destroy = 3"
| "child_left C_lock = 2"
| "child_left C_delete = 1"
| "child_left _ = 0"

definition ending :: "life \<Rightarrow> bool" where
  "ending l = (\<not> runs_on l \<and> (owner l = O_left \<or> 0 < owner_left (owner l)))"

definition steps_to_end :: "life \<Rightarrow> nat" where
  "steps_to_end l = owner_left (owner l) + child_left (spawned l)"

lemma thread_ending_owner:
  "\<lbrakk>owner_step l = Moves l'; ending l\<rbrakk> \<Longrightarrow> ending l' \<and> steps_to_end l' < steps_to_end l"
  by (auto simp: ending_def steps_to_end_def runs_on_def isRunning_def owner_step_def with_dlg_def leave_def Let_def
      split: owner_pc.splits option.splits if_splits)

lemma thread_ending_child:
  "\<lbrakk>child_step b l = Moves l'; ending l\<rbrakk> \<Longrightarrow> ending l' \<and> steps_to_end l' < steps_to_end l"
  by (auto simp: ending_def steps_to_end_def runs_on_def isRunning_def child_step_def with_dlg_def tell_def
      split: child_pc.splits option.splits if_splits)

lemma thread_ending_not_stuck:
  assumes "life_inv l" "ending l" "owner l \<noteq> O_left" "owner_step l = Blocked"
  shows "child_step b l \<noteq> Blocked"
  using assms
  by (cases "spawned l")
    (auto simp: ending_def owner_step_def child_step_def with_dlg_def Let_def life_inv_def handed_ok_def
      split: owner_pc.splits option.splits if_splits)

text \<open>The two threads take turns.\<close>

definition turns :: "nat \<Rightarrow> bool list \<Rightarrow> act list" where
  "turns i bs = concat (map (\<lambda>b. [Owner, Child i b]) bs)"

lemma thread_ending_step:
  assumes t: "lives t = ls @ [l]" and inv: "thread_inv t" and e: "ending l"
    and a: "a = Owner \<or> a = Child (length ls) b"
  shows "thread_step a t = Blocked \<or>
    (\<exists>t' l'. thread_step a t = Moves t' \<and> thread_inv t' \<and> lives t' = ls @ [l'] \<and> ending l' \<and>
       steps_to_end l' < steps_to_end l \<and> (owner l = O_left \<longrightarrow> owner l' = O_left))"
proof (cases "thread_step a t")
  case (Moves t')
  have inv': "thread_inv t'" using thread_step_inv [OF inv] Moves by blast
  show ?thesis
  proof (cases "a = Owner")
    case True
    then obtain l' where "owner_step l = Moves l'" "lives t' = ls @ [l']"
      using Moves by (auto simp: thread_step_def owner_moves_def Let_def t split: outcome.splits)
    moreover from this have "owner l \<noteq> O_left" by (auto simp: owner_step_def)
    ultimately show ?thesis using Moves inv' thread_ending_owner [OF _ e] by blast
  next
    case False
    then obtain l' where "child_step b l = Moves l'" "lives t' = ls @ [l']"
      using a Moves by (auto simp: thread_step_def t split: outcome.splits)
    moreover from this have "owner l' = owner l" using child_step_frame by blast
    ultimately show ?thesis using Moves inv' thread_ending_child [OF _ e] by metis
  qed
qed (use thread_step_inv [OF inv] in auto)

lemma one_turn:
  assumes t: "lives t = ls @ [l]" and inv: "thread_inv t" and e: "ending l"
  shows "\<exists>t' l'. thread_run [Owner, Child (length ls) b] t = Some t' \<and> thread_inv t' \<and> lives t' = ls @ [l'] \<and>
    ending l' \<and> (if owner l = O_left then owner l' = O_left else steps_to_end l' < steps_to_end l)"
proof (cases "thread_step Owner t = Blocked")
  case True
  have b: "owner_step l = Blocked" using True by (auto simp: thread_step_def owner_moves_def Let_def t split: outcome.splits)
  show ?thesis
  proof (cases "owner l = O_left")
    case True
    then show ?thesis using thread_ending_step [OF t inv e, of "Child (length ls) b" b] inv e t \<open>thread_step Owner t = Blocked\<close>
      by auto
  next
    case False
    have "life_inv l" using inv t by (simp add: thread_inv_def)
    then have "child_step b l \<noteq> Blocked" using thread_ending_not_stuck e False b by blast
    then have "thread_step (Child (length ls) b) t \<noteq> Blocked" by (auto simp: thread_step_def t split: outcome.splits)
    then show ?thesis using thread_ending_step [OF t inv e, of "Child (length ls) b" b] True by auto
  qed
next
  case False
  then obtain t1 l1 where 1: "thread_step Owner t = Moves t1" "thread_inv t1" "lives t1 = ls @ [l1]" "ending l1"
    "steps_to_end l1 < steps_to_end l" using thread_ending_step [OF t inv e, of Owner] by auto
  have nl: "owner l \<noteq> O_left" using False by (auto simp: thread_step_def owner_moves_def owner_step_def t)
  show ?thesis
  proof (cases "thread_step (Child (length ls) b) t1 = Blocked")
    case True
    then show ?thesis using 1 nl by simp
  next
    case False
    then obtain t2 l2 where "thread_step (Child (length ls) b) t1 = Moves t2" "thread_inv t2" "lives t2 = ls @ [l2]"
      "ending l2" "steps_to_end l2 < steps_to_end l1"
      using thread_ending_step [OF 1(3,2,4), of "Child (length ls) b" b] by blast
    then show ?thesis using 1 nl by simp
  qed
qed

lemma turns_end:
  assumes "lives t = ls @ [l]" "thread_inv t" "ending l" "owner l = O_left \<or> steps_to_end l \<le> length bs"
  shows "\<exists>t' l'. thread_run (turns (length ls) bs) t = Some t' \<and> thread_inv t' \<and> lives t' = ls @ [l'] \<and> owner l' = O_left"
  using assms
proof (induction bs arbitrary: t l)
  case Nil
  then show ?case by (auto simp: turns_def ending_def steps_to_end_def)
next
  case (Cons b bs)
  obtain t1 l1 where 1: "thread_run [Owner, Child (length ls) b] t = Some t1" "thread_inv t1" "lives t1 = ls @ [l1]"
    "ending l1" "if owner l = O_left then owner l1 = O_left else steps_to_end l1 < steps_to_end l"
    using one_turn [OF Cons.prems(1-3)] by blast
  have "owner l1 = O_left \<or> steps_to_end l1 \<le> length bs"
    using 1(5) Cons.prems(4) by (cases "owner l = O_left") auto
  then show ?case using Cons.IH [OF 1(3,2,4)] 1(1)
    thread_run_append [of "[Owner, Child (length ls) b]" "turns (length ls) bs" t]
    by (simp add: turns_def del: thread_run.simps)
qed

lemma stop_called:
  assumes inv: "thread_inv t" and idle: "\<not> gone t" "\<not> in_call t" and m: "mThread t = Some i"
  obtains t' ls l where "thread_run [Stop, Owner] t = Some t'" "thread_inv t'" "lives t' = ls @ [l]" "i = length ls"
    "ending l" "steps_to_end l \<le> 16"
proof -
  obtain ls k where l: "lives t = ls @ [k]" "i = length ls" "owner k = O_held"
    using in_use_idle [OF inv idle(2) m] by blast
  have k: "life_inv k" using inv l(1) by (simp add: thread_inv_def)
  then obtain d where d: "dlg k = Some d" using counted_freed [of k] l(3) by (auto simp: life_inv_def)
  define l' where "l' = k\<lparr>dlg := Some (d\<lparr>mRunnable := None\<rparr>), owner := O_join_check\<rparr>"
  define t1 where "t1 = t\<lparr>lives := ls @ [k\<lparr>owner := O_stop\<rparr>]\<rparr>"
  have 1: "thread_step Stop t = Moves t1"
    using idle m l by (simp add: thread_step_def LocThread_stop_def t1_def)
  have 2: "thread_step Owner t1 = Moves (t1\<lparr>lives := ls @ [l'], mThread := mThread t1\<rparr>)"
    by (cases d) (simp add: thread_step_def owner_moves_def owner_step_def with_dlg_def isRunning_def t1_def d l'_def)
  define t' where "t' = t1\<lparr>lives := ls @ [l'], mThread := mThread t1\<rparr>"
  have "thread_run [Stop, Owner] t = Some t'" using 1 2 by (simp add: t'_def)
  moreover have "thread_inv t'" using thread_run_inv [OF inv, of "[Stop, Owner]"] calculation by auto
  moreover have "lives t' = ls @ [l']" by (simp add: t'_def)
  moreover have "ending l'" by (simp add: ending_def l'_def runs_on_def isRunning_def)
  moreover have "steps_to_end l' \<le> 16" by (cases "spawned k") (simp_all add: steps_to_end_def l'_def)
  ultimately show ?thesis using that l(2) by blast
qed

text \<open>
  C22: A call of \<open>stop\<close> comes to its end: wherever the spawned thread is, and whatever the runnable returns, the owner
  is back and the \<open>LocThread\<close> is without a thread after sixteen turns of the two threads.
\<close>

theorem thread_stop_returns:
  assumes "thread_run as new_thread = Some t" and "mThread t = Some i" and "\<not> gone t" and "\<not> in_call t"
    and "16 \<le> length bs"
  shows "\<exists>t'. thread_run ([Stop, Owner] @ turns i bs) t = Some t' \<and> mThread t' = None \<and> \<not> in_call t'"
proof -
  have inv: "thread_inv t" using thread_reachable_inv [of as] assms(1) by auto
  obtain t1 ls l where 1: "thread_run [Stop, Owner] t = Some t1" "thread_inv t1" "lives t1 = ls @ [l]" "i = length ls"
    "ending l" "steps_to_end l \<le> 16" using stop_called [OF inv assms(3,4,2)] by blast
  obtain t2 l2 where 2: "thread_run (turns i bs) t1 = Some t2" "thread_inv t2" "lives t2 = ls @ [l2]" "owner l2 = O_left"
    using turns_end [OF 1(3,2,5), of bs] 1(4,6) assms(5) by auto
  have "thread_run ([Stop, Owner] @ turns i bs) t = Some t2"
    by (simp only: thread_run_append 1(1) option.case 2(1))
  moreover have "mThread t2 = None \<and> \<not> in_call t2" using 2(2-4) by (simp add: thread_inv_def in_call_def in_use_def)
  ultimately show ?thesis by blast
qed

definition in_the_loop :: life where
  "in_the_loop = \<lparr>dlg = Some \<lparr>mRunnable = Some 7, mJoinable = True, mThandle = True, mRefCount = 2\<rparr>, frees = 0,
     owner = O_held, spawned = C_run, story = [Prerun], wants_join = True, handed = Some True\<rparr>"

lemma in_the_loop_reached:
  "thread_run [Start (Some 7) True True, Owner, Child 0 True, Child 0 True, Child 0 True, Child 0 True] new_thread =
   Some \<lparr>lives = [in_the_loop], mThread = Some 0, gone = False\<rparr>"
  by (simp add: in_the_loop_def thread_defs)

theorem thread_stop_returns_witness:
  "\<exists>t'. thread_run ([Stop, Owner] @ turns 0 (replicate 16 True)) \<lparr>lives = [in_the_loop], mThread = Some 0, gone = False\<rparr>
        = Some t' \<and> mThread t' = None \<and> \<not> in_call t'"
  by (rule thread_stop_returns [OF in_the_loop_reached]) (simp_all add: in_call_def in_the_loop_def)

section \<open>Two races\<close>

text \<open>
  The owner may stop a thread before it has read the runnable: then \<open>threadMain\<close> does not see it, and the runnable,
  which the delegate had taken over with a successful start, is never deleted.
\<close>

definition early_stop :: "act list" where
  "early_stop = [Start (Some 7) True True, Owner, Stop, Owner, Owner, Child 0 True, Child 0 True, Child 0 True,
     Owner, Owner, Owner, Owner]"

lemma early_stop_leaks_runnable:
  "thread_run early_stop new_thread = Some \<lparr>lives = [\<lparr>dlg = None, frees = 1, owner = O_left, spawned = C_done, story = [],
     wants_join = True, handed = Some True\<rparr>], mThread = None, gone = False\<rparr>"
  by (simp add: early_stop_def thread_defs)

text \<open>
  The spawned thread may be through with the runnable before \<open>create\<close> asks whether it runs: then \<open>start\<close> reports a
  failure, after which the runnable is the caller's to delete, although the thread has run and deleted it.
\<close>

definition early_end :: "act list" where
  "early_end = Start (Some 7) True True # replicate 9 (Child 0 False) @ [Owner, Owner, Owner, Child 0 False, Child 0 False,
     Child 0 False]"

lemma early_end_deletes_runnable:
  "thread_run early_end new_thread = Some \<lparr>lives = [\<lparr>dlg = None, frees = 1, owner = O_left, spawned = C_done,
     story = [Prerun, Run_once False, Postrun, Deleted], wants_join = True, handed = Some False\<rparr>],
     mThread = None, gone = False\<rparr>"
  by (simp add: early_end_def thread_defs eval_nat_numeral)

text \<open>A name of fewer than fourteen characters, such as the default one, is read beyond its end.\<close>

lemma default_name_overread: "thread_name None = None"
  by (simp add: thread_name_def)

lemma long_names_are_cut: "14 \<le> length n \<Longrightarrow> \<exists>m. thread_name (Some n) = Some m \<and> length m \<le> 15"
  by (auto simp: thread_name_def Let_def intro!: order_trans [OF length_takeWhile_le])

end
