(* ===== verification/Msg_Task.thy ===== *)
theory Msg_Task
  imports Msg_Queue Loc_Thread
begin

text \<open>
  The tasks that handle messages on a thread of their own (\<open>src/gps/utils/MsgTask.cpp\<close>, \<open>MsgTask.h\<close>) and the
  lock that is shared by objects of which nobody knows which is the last (\<open>LocSharedLock.h\<close>).  A task is the
  runnable of its thread: its \<open>run\<close> is what \<open>threadMain\<close> repeats, and its destructor what it ends with.  What the
  messages do is a function on an abstract world, as in the queue they wait in.
\<close>

section \<open>The task\<close>

record ('m, 'w) msg_task =
  mQ :: "('m, 'w) msg_q option"
  tworld :: 'w

definition new_task :: "'w \<Rightarrow> ('m, 'w) msg_task" where
  "new_task w = \<lparr>mQ = msg_q_init2 True True True True, tworld = w\<rparr>"

text \<open>
  \<open>sendMsg\<close>, with what \<open>malloc\<close> returns for the list element and \<open>LocMsgDestroy\<close> as the message's destructor.  The
  result of \<open>msg_q_snd\<close> is not used; it is kept here so that the accepted messages can be told.
\<close>

definition sendMsg ::
  "addr option \<Rightarrow> ('m \<Rightarrow> 'w \<Rightarrow> 'w) \<Rightarrow> 'm \<Rightarrow> ('m, 'w) msg_task \<Rightarrow> (msq_q_err_type \<times> ('m, 'w) msg_task) option" where
  "sendMsg elem LocMsgDestroy m t =
     map_option (\<lambda>(e, q, s). (e, t\<lparr>mQ := q\<rparr>)) (msg_q_snd elem (mQ t) (Some m) (Some LocMsgDestroy))"

text \<open>
  \<open>run\<close> up to its return, or to the wait for a message (\<open>None\<close> as its result).  A message that \<open>msg_q_rcv\<close> has
  reported but not stored would be read from an unset variable.
\<close>

definition task_run ::
  "('m \<Rightarrow> 'w \<Rightarrow> 'w) \<Rightarrow> ('m \<Rightarrow> 'w \<Rightarrow> 'w) \<Rightarrow> ('m, 'w) msg_task \<Rightarrow> (bool option \<times> ('m, 'w) msg_task) option" where
  "task_run proc LocMsgDestroy t =
     (case msg_q_rcv (mQ t) True of
        None \<Rightarrow> None
      | Some (Rcv_wait, q) \<Rightarrow> Some (None, t\<lparr>mQ := q\<rparr>)
      | Some (Rcv_return result msg, q) \<Rightarrow>
          if eMSG_Q_SUCCESS \<noteq> result then Some (Some False, t\<lparr>mQ := q\<rparr>)
          else (case msg of
                  None \<Rightarrow> None
                | Some m \<Rightarrow> Some (Some True, \<lparr>mQ = q, tworld = LocMsgDestroy m (proc m (tworld t))\<rparr>)))"

text \<open>The destructor: a task without a queue hands \<open>msg_q_destroy\<close> a pointer to \<open>NULL\<close>, which it follows.\<close>

definition task_delete :: "('m, 'w) msg_task \<Rightarrow> 'w option" where
  "task_delete t =
     (case msg_q_flush (mQ t) (tworld t) of
        None \<Rightarrow> None
      | Some (e, q, w) \<Rightarrow>
          (case msg_q_destroy (Some q) w of
             None \<Rightarrow> None
           | Some (e', q', w') \<Rightarrow> Some w'))"

text \<open>\<open>destroy\<close>: it unblocks the queue, and deletes its thread, or itself if it has none.\<close>

definition task_destroy ::
  "('m, 'w) msg_task \<Rightarrow> loc_thread option \<Rightarrow> (('m, 'w) msg_task \<times> loc_thread + 'w) option" where
  "task_destroy t thread =
     (let t' = t\<lparr>mQ := fst (snd (msg_q_unblock (mQ t)))\<rparr>
      in case thread of
           Some th \<Rightarrow> Some (Inl (t', LocThread_delete th))
         | None \<Rightarrow> map_option Inr (task_delete t'))"

section \<open>What becomes of the messages\<close>

datatype 'm task_op = Send_op 'm | Run_op

text \<open>
  Senders and the task's thread take turns at the queue; beside the task, the messages accepted and those handled.
\<close>

type_synonym ('m, 'w) task_state = "('m, 'w) msg_task \<times> 'm list \<times> 'm list"

definition task_op ::
  "(('m, 'w) msg_q option \<Rightarrow> addr option) \<Rightarrow> ('m \<Rightarrow> 'w \<Rightarrow> 'w) \<Rightarrow> ('m \<Rightarrow> 'w \<Rightarrow> 'w) \<Rightarrow> 'm task_op \<Rightarrow>
   ('m, 'w) task_state \<Rightarrow> ('m, 'w) task_state option" where
  "task_op alloc proc del x s = (case s of (t, accepted, handled) \<Rightarrow>
     (case x of
        Send_op m \<Rightarrow>
          map_option (\<lambda>(e, t'). (t', accepted @ (if e = eMSG_Q_SUCCESS then [m] else []), handled))
            (sendMsg (alloc (mQ t)) del m t)
      | Run_op \<Rightarrow>
          map_option (\<lambda>(r, t'). (t', accepted,
              handled @ (if r = Some True then [accepted ! length handled] else [])))
            (task_run proc del t)))"

fun task_ops ::
  "(('m, 'w) msg_q option \<Rightarrow> addr option) \<Rightarrow> ('m \<Rightarrow> 'w \<Rightarrow> 'w) \<Rightarrow> ('m \<Rightarrow> 'w \<Rightarrow> 'w) \<Rightarrow> 'm task_op list \<Rightarrow>
   ('m, 'w) task_state \<Rightarrow> ('m, 'w) task_state option" where
  "task_ops alloc proc del [] s = Some s"
| "task_ops alloc proc del (x # xs) s =
     (case task_op alloc proc del x s of None \<Rightarrow> None | Some s' \<Rightarrow> task_ops alloc proc del xs s')"

text \<open>\<open>malloc\<close> fails, or returns an address that is not in use.\<close>

definition good_malloc :: "(('m, 'w) msg_q option \<Rightarrow> addr option) \<Rightarrow> bool" where
  "good_malloc alloc = (\<forall>q a. alloc (Some q) = Some a \<longrightarrow> queue_fresh a q)"

definition dealt_with :: "('m \<Rightarrow> 'w \<Rightarrow> 'w) \<Rightarrow> ('m \<Rightarrow> 'w \<Rightarrow> 'w) \<Rightarrow> 'm list \<Rightarrow> 'w \<Rightarrow> 'w" where
  "dealt_with proc del ms w = fold (\<lambda>m w. del m (proc m w)) ms w"

definition task_rep :: "('m \<Rightarrow> 'w \<Rightarrow> 'w) \<Rightarrow> ('m \<Rightarrow> 'w \<Rightarrow> 'w) \<Rightarrow> 'w \<Rightarrow> ('m, 'w) task_state \<Rightarrow> bool" where
  "task_rep proc del w s = (case s of (t, accepted, handled) \<Rightarrow>
     (\<exists>q ws. mQ t = Some q \<and> queue_rep q (map (\<lambda>m. (m, Some del)) (rev ws)) \<and>
        accepted = handled @ ws \<and> tworld t = dealt_with proc del handled w))"

lemma task_rep_new: "task_rep proc del w (new_task w, [], [])"
proof -
  obtain q :: "('a, 'b) msg_q" where
    "msg_q_init True True True True True = (eMSG_Q_SUCCESS, Some q)" "queue_rep q []"
    using msg_q_init_rep by blast
  then show ?thesis by (simp add: task_rep_def new_task_def msg_q_init2_def dealt_with_def)
qed

lemma task_rep_send:
  assumes rep: "task_rep proc del w (t, acc, han)" and alloc: "good_malloc alloc"
  shows "\<exists>s'. task_op alloc proc del (Send_op m) (t, acc, han) = Some s' \<and> task_rep proc del w s'"
proof -
  obtain q ws where q: "mQ t = Some q" "queue_rep q (map (\<lambda>m. (m, Some del)) (rev ws))"
    "acc = han @ ws" "tworld t = dealt_with proc del han w"
    using rep by (auto simp: task_rep_def)
  consider (closed) "unblocked q" | (nomem) "\<not> unblocked q" "alloc (Some q) = None"
    | (ok) a where "\<not> unblocked q" "alloc (Some q) = Some a" by (cases "alloc (Some q)") auto
  then show ?thesis
  proof cases
    case closed
    then show ?thesis using q by (simp add: task_op_def sendMsg_def msg_q_snd_unblocked task_rep_def)
  next
    case nomem
    then show ?thesis using q msg_q_snd_nomem [OF q(2) nomem(1)]
      by (simp add: task_op_def sendMsg_def task_rep_def)
  next
    case ok
    then have "queue_fresh a q" using alloc by (auto simp: good_malloc_def)
    then obtain q' where q': "msg_q_snd (Some a) (Some q) (Some m) (Some del) = Some (eMSG_Q_SUCCESS, Some q', True)"
      "queue_rep q' ((m, Some del) # map (\<lambda>m. (m, Some del)) (rev ws))"
      using msg_q_snd_rep [OF q(2) _ ok(1)] by blast
    have "task_rep proc del w (t\<lparr>mQ := Some q'\<rparr>, acc @ [m], han)"
      unfolding task_rep_def using q q'(2) by (auto intro!: exI [of _ "ws @ [m]"])
    then show ?thesis using q q'(1) ok by (simp add: task_op_def sendMsg_def)
  qed
qed

lemma task_rep_run:
  assumes rep: "task_rep proc del w (t, acc, han)"
  shows "\<exists>s'. task_op alloc proc del Run_op (t, acc, han) = Some s' \<and> task_rep proc del w s'"
proof -
  obtain q ws where q: "mQ t = Some q" "queue_rep q (map (\<lambda>m. (m, Some del)) (rev ws))"
    "acc = han @ ws" "tworld t = dealt_with proc del han w"
    using rep by (auto simp: task_rep_def)
  consider (closed) "unblocked q" | (none) "\<not> unblocked q" "ws = []"
    | (ok) m ms where "\<not> unblocked q" "ws = m # ms" by (cases ws) auto
  then show ?thesis
  proof cases
    case closed
    then show ?thesis using q by (simp add: task_op_def task_run_def msg_q_rcv_def task_rep_def)
  next
    case none
    then show ?thesis using q msg_q_rcv_loop_empty [of q]
      by (simp add: task_op_def task_run_def msg_q_rcv_def task_rep_def)
  next
    case ok
    have "queue_rep q (map (\<lambda>m. (m, Some del)) (rev ms) @ [(m, Some del)])" using q(2) ok(2) by simp
    then obtain q' where q': "msg_q_rcv_loop q = Some (Rcv_return eMSG_Q_SUCCESS (Some m), q')"
      "queue_rep q' (map (\<lambda>m. (m, Some del)) (rev ms))"
      using msg_q_rcv_loop_message by fastforce
    have "task_op alloc proc del Run_op (t, acc, han) =
      Some (\<lparr>mQ = Some q', tworld = del m (proc m (tworld t))\<rparr>, acc, han @ [m])"
      using q ok q'(1) by (simp add: task_op_def task_run_def msg_q_rcv_def)
    moreover have "task_rep proc del w (\<lparr>mQ = Some q', tworld = del m (proc m (tworld t))\<rparr>, acc, han @ [m])"
      using q ok q'(2) by (auto simp: task_rep_def dealt_with_def)
    ultimately show ?thesis by blast
  qed
qed

lemma task_rep_ops:
  assumes "good_malloc alloc" "task_rep proc del w s"
  shows "\<exists>s'. task_ops alloc proc del xs s = Some s' \<and> task_rep proc del w s'"
  using assms(2)
proof (induction xs arbitrary: s)
  case (Cons x xs)
  obtain t acc han where s: "s = (t, acc, han)" by (cases s) auto
  have "\<exists>s1. task_op alloc proc del x s = Some s1 \<and> task_rep proc del w s1"
  proof (cases x)
    case (Send_op m)
    show ?thesis using task_rep_send [OF Cons.prems [unfolded s] assms(1), of m] by (simp only: s Send_op)
  next
    case Run_op
    show ?thesis using task_rep_run [OF Cons.prems [unfolded s], of alloc] by (simp only: s Run_op)
  qed
  then obtain s1 where "task_op alloc proc del x s = Some s1" "task_rep proc del w s1" by blast
  then show ?case using Cons.IH [of s1] by (simp del: split_paired_Ex)
qed simp

lemma task_delete_rep:
  assumes q: "mQ t = Some q" "queue_rep q (map (\<lambda>m. (m, Some del)) (rev ws))"
  shows "task_delete t = Some (fold del (rev ws) (tworld t))"
proof -
  obtain q' where q': "msg_q_flush (Some q) (tworld t) =
      Some (eMSG_Q_SUCCESS, Some q', fold dealloc_item (map (\<lambda>m. (m, Some del)) (rev ws)) (tworld t))"
    "queue_rep q' []" using msg_q_flush_rep [OF q(2)] by blast
  obtain l as where l: "msg_list q' = Some l" "list_rep l as []" using q'(2) by (auto simp: queue_rep_def)
  have d: "linked_list_destroy (Some (Some l)) w = Some (eLINKED_LIST_SUCCESS, None, w)" for w :: 'b
    using linked_list_flush_rep [OF l(2), of w] by (auto simp: linked_list_destroy_def)
  have "fold dealloc_item (map (\<lambda>m. (m, Some del)) ms) w = fold del ms w" for ms w
    by (induction ms arbitrary: w) (simp_all add: dealloc_item_def)
  then show ?thesis using q(1) q'(1) l d
    by (simp add: task_delete_def msg_q_destroy_def)
qed


text \<open>An allocator that never returns the address of an element: one above them all.\<close>

definition next_address :: "(nat, nat list) msg_q option \<Rightarrow> addr option" where
  "next_address q = (case q of None \<Rightarrow> None | Some q' \<Rightarrow>
     (case msg_list q' of None \<Rightarrow> Some 0 | Some l \<Rightarrow>
        if finite (dom (cells l)) then Some (Suc (Max (insert 0 (dom (cells l))))) else None))"

lemma good_next_address: "good_malloc next_address"
proof -
  have "Suc (Max (insert 0 A)) \<notin> A" if "finite A" for A :: "nat set"
    using that by (metis Max_ge finite_insert insertI2 not_less_eq_eq order_refl)
  then show ?thesis unfolding good_malloc_def next_address_def queue_fresh_def
    by (auto split: option.splits if_splits)
qed


section \<open>Two leaks and a fault\<close>

text \<open>A message that is sent after \<open>destroy\<close> has unblocked the queue is refused, and nobody deletes it.\<close>

lemma sent_after_destroy_lost:
  assumes "task_destroy t (Some th) = Some (Inl (t', th'))" and "mQ t = Some q"
  shows "sendMsg elem del m t' = Some (eMSG_Q_UNAVAILABLE_RESOURCE, t')"
proof -
  have t': "t' = t\<lparr>mQ := fst (snd (msg_q_unblock (mQ t)))\<rparr>" using assms(1) by (simp add: task_destroy_def Let_def)
  obtain q' where q': "mQ t' = Some q'" "unblocked q'"
    using assms(2) by (cases "unblocked q") (auto simp: t' msg_q_unblock_def)
  then have "t'\<lparr>mQ := Some q'\<rparr> = t'" by (cases t') simp
  then show ?thesis using q' by (simp add: sendMsg_def msg_q_snd_unblocked)
qed

text \<open>A task whose queue could not be created is deleted through a \<open>NULL\<close> pointer.\<close>

lemma task_without_queue_faults: "mQ t = None \<Longrightarrow> task_delete t = None"
  by (simp add: task_delete_def msg_q_flush_def msg_q_destroy_def)

section \<open>The shared lock\<close>

text \<open>
  The count of the clients, a signed 32-bit integer that \<open>android_atomic_inc\<close> and \<open>android_atomic_dec\<close> change and
  whose old value they return; \<open>None\<close> once the lock has deleted itself, and no result when it is used then.
\<close>

type_synonym shared_lock = "uint32 option"

definition new_shared_lock :: shared_lock where
  "new_shared_lock = Some 1"

definition lock_share :: "shared_lock \<Rightarrow> shared_lock option" where
  "lock_share l = (case l of None \<Rightarrow> None | Some mRef \<Rightarrow> Some (Some (mRef + 1)))"

definition lock_drop :: "shared_lock \<Rightarrow> shared_lock option" where
  "lock_drop l = (case l of None \<Rightarrow> None | Some mRef \<Rightarrow> Some (if 1 = mRef then None else Some (mRef - 1)))"

datatype lock_op = Share | Drop

definition lock_step :: "lock_op \<Rightarrow> shared_lock \<Rightarrow> shared_lock option" where
  "lock_step x l = (case x of Share \<Rightarrow> lock_share l | Drop \<Rightarrow> lock_drop l)"

fun lock_ops :: "lock_op list \<Rightarrow> shared_lock \<Rightarrow> shared_lock option" where
  "lock_ops [] l = Some l"
| "lock_ops (x # xs) l = (case lock_step x l of None \<Rightarrow> None | Some l' \<Rightarrow> lock_ops xs l')"

text \<open>The clients: only a client shares the lock with another, and only a client drops it.\<close>

fun clients :: "lock_op list \<Rightarrow> nat \<Rightarrow> nat option" where
  "clients [] n = Some n"
| "clients (Share # xs) n = (if n = 0 then None else clients xs (n + 1))"
| "clients (Drop # xs) n = (if n = 0 then None else clients xs (n - 1))"

text \<open>The lock deletes itself when its last client drops it, and not before, as long as the count does not wrap.\<close>

lemma shared_lock_counts_clients:
  assumes "clients xs n = Some k" "n + length xs < 2 ^ 32"
  shows "lock_ops xs (if n = 0 then None else Some (of_nat n)) = Some (if k = 0 then None else Some (of_nat k))"
  using assms
proof (induction xs arbitrary: n)
  case (Cons x xs)
  have n: "n \<noteq> 0" using Cons.prems(1) by (cases x) (auto split: if_splits)
  show ?case
  proof (cases x)
    case Share
    then have "clients xs (n + 1) = Some k" using Cons.prems(1) n by simp
    then have "lock_ops xs (if n + 1 = 0 then None else Some (of_nat (n + 1))) = Some (if k = 0 then None else Some (of_nat k))"
      by (rule Cons.IH) (use Cons.prems(2) in simp)
    then show ?thesis using n by (simp add: Share lock_step_def lock_share_def add.commute)
  next
    case Drop
    have 1: "(1 = (of_nat n :: uint32)) = (n = 1)"
      using Cons.prems(2) n of_nat_inverse [of n "of_nat n :: uint32"] of_nat_inverse [of n "1 :: uint32"] by force
    have "clients xs (n - 1) = Some k" using Cons.prems(1) n Drop by simp
    then have "lock_ops xs (if n - 1 = 0 then None else Some (of_nat (n - 1))) = Some (if k = 0 then None else Some (of_nat k))"
      by (rule Cons.IH) (use Cons.prems(2) in simp)
    moreover have "lock_step Drop (Some (of_nat n)) = Some (if n - 1 = 0 then None else Some (of_nat (n - 1)))"
      using n 1 by (simp add: lock_step_def lock_drop_def of_nat_diff)
    ultimately show ?thesis using n by (simp add: Drop)
  qed
qed simp

end
