(* ===== verification/Device_Init.thy ===== *)
theory Device_Init
  imports Loc_Cfg
begin

text \<open>
  Two small libraries of the device that are used once, when it starts: the one that tells the WLAN driver
  the hardware address (\<open>src/libwcnss_qmi/libwcnss_qmi.c\<close>), which it reads from a configuration file, and the one
  that tells \<open>init\<close> whether an alarm has started the device (\<open>src/init/init_msm8974.cpp\<close>).
\<close>

section \<open>The address in the configuration file\<close>

text \<open>A C string in a buffer of characters: what is in front of the first zero.\<close>

definition c_string :: "string \<Rightarrow> string" where
  "c_string s = takeWhile (\<lambda>c. c \<noteq> CHR 0x00) s"

text \<open>
  The conversion \<open>%2hhx\<close> of \<open>sscanf\<close>: white space is skipped, and the input item has at most two characters, an
  optional sign and hexadecimal digits.  \<open>None\<close> if there is no such item, or only the beginning of a longer one;
  then nothing is stored.
\<close>

definition scan_2hhx :: "string \<Rightarrow> uint8 option" where
  "scan_2hhx s =
     (case dropWhile isspace s of
        [] \<Rightarrow> None
      | c # cs \<Rightarrow>
          (case digit_of c of
             Some a \<Rightarrow>
               (case cs of
                  [] \<Rightarrow> Some (word_of_int a)
                | d # ds \<Rightarrow>
                    (case digit_of d of
                       Some b \<Rightarrow> Some (word_of_int (16 * a + b))
                     | None \<Rightarrow> if c = CHR ''0'' \<and> (d = CHR ''x'' \<or> d = CHR ''X'') then None
                               else Some (word_of_int a)))
           | None \<Rightarrow>
               if c = CHR ''+'' \<or> c = CHR ''-'' then
                 (case cs of
                    [] \<Rightarrow> None
                  | d # ds \<Rightarrow> map_option (\<lambda>b. word_of_int (if c = CHR ''-'' then - b else b)) (digit_of d))
               else None))"

function address_loop :: "nat \<Rightarrow> string \<Rightarrow> uint8 list \<Rightarrow> uint8 list" where
  "address_loop i pos pBdAddr =
     (if i < 6
      then address_loop (i + 1) (drop 2 pos)
             (case scan_2hhx pos of None \<Rightarrow> pBdAddr | Some b \<Rightarrow> pBdAddr[i := b])
      else pBdAddr)"
  by pat_completeness auto
termination by (relation "measure (\<lambda>(i, _, _). 6 - i)") auto

declare address_loop.simps [simp del]

definition address_key :: string where "address_key = ''Intf0MacAddress=''"

definition address_line :: "string \<Rightarrow> bool" where
  "address_line buf = (take 16 buf = address_key \<and> length buf = 29)"

function wlan_loop :: "string \<Rightarrow> uint8 list \<Rightarrow> uint8 list" where
  "wlan_loop file pBdAddr =
     (case fgets 256 file of
        None \<Rightarrow> pBdAddr
      | Some (line, rest) \<Rightarrow>
          (let buf = c_string line
           in if address_line buf then address_loop 0 (drop 16 buf) pBdAddr else wlan_loop rest pBdAddr))"
  by pat_completeness auto
termination
  by (relation "measure (\<lambda>(file, _). length file)") (auto simp: fgets_def fgets_length_pos split: if_splits)

declare wlan_loop.simps [simp del]

text \<open>
  The text of the file, if it can be opened, and the six bytes as the caller left them.
\<close>

definition wcnss_qmi_get_wlan_address :: "string option \<Rightarrow> uint8 list \<Rightarrow> int \<times> uint8 list" where
  "wcnss_qmi_get_wlan_address fp pBdAddr =
     (case fp of None \<Rightarrow> (-1, pBdAddr) | Some file \<Rightarrow> (0, wlan_loop file pBdAddr))"

section \<open>Writing and reading an address\<close>

definition hex_char :: "bool \<Rightarrow> nat \<Rightarrow> char" where
  "hex_char upper d = (if upper then ''0123456789ABCDEF'' else ''0123456789abcdef'') ! d"

definition hex_byte :: "bool \<Rightarrow> uint8 \<Rightarrow> string" where
  "hex_byte upper b = [hex_char upper (unat b div 16), hex_char upper (unat b mod 16)]"

definition write_address :: "bool \<Rightarrow> uint8 list \<Rightarrow> string" where
  "write_address upper bs = address_key @ concat (map (hex_byte upper) bs) @ [CHR 0x0A]"

definition plain_char :: "char \<Rightarrow> bool" where
  "plain_char c = (c \<noteq> CHR 0x00 \<and> c \<noteq> CHR 0x0A)"

definition hex_char_ok :: "bool \<Rightarrow> nat \<Rightarrow> bool" where
  "hex_char_ok up d =
     (digit_of (hex_char up d) = Some (int d) \<and> \<not> isspace (hex_char up d) \<and> plain_char (hex_char up d))"

lemma hex_chars_ok: "list_all (hex_char_ok False) [0..<16]" "list_all (hex_char_ok True) [0..<16]"
  by code_simp+

lemma hex_char_facts:
  "d < 16 \<Longrightarrow> digit_of (hex_char up d) = Some (int d) \<and> \<not> isspace (hex_char up d) \<and> plain_char (hex_char up d)"
  using hex_chars_ok unfolding hex_char_ok_def [symmetric] list_all_iff by (cases up) auto

lemma byte_bounds: "unat (b :: uint8) div 16 < 16" "unat (b :: uint8) mod 16 < 16"
  using unsigned_less [of b, where ?'a = nat] by (auto simp: less_mult_imp_div_less)

lemma scan_hex_byte: "scan_2hhx (hex_byte up b @ s) = Some b"
proof -
  let ?h = "unat b div 16" and ?l = "unat b mod 16"
  have "word_of_int (16 * int ?h + int ?l) = (word_of_int (int (unat b)) :: uint8)"
    by (metis mult.commute of_nat_add of_nat_mult of_nat_numeral div_mult_mod_eq)
  then show ?thesis using hex_char_facts [OF byte_bounds(1), of up b] hex_char_facts [OF byte_bounds(2), of up b]
    by (simp add: scan_2hhx_def hex_byte_def)
qed

lemma address_loop_bytes:
  "\<lbrakk>length bs = 6 - i; i \<le> 6; length addr = 6\<rbrakk> \<Longrightarrow>
   address_loop i (concat (map (hex_byte up) bs) @ s) addr = take i addr @ bs"
proof (induction bs arbitrary: i addr)
  case Nil
  then show ?case by (subst address_loop.simps) simp
next
  case (Cons b bs)
  have i: "i < 6" using Cons.prems(1) by simp
  have [simp]: "drop 2 (hex_byte up b @ xs) = xs" for xs by (simp add: hex_byte_def)
  then have "address_loop i (concat (map (hex_byte up) (b # bs)) @ s) addr =
    address_loop (i + 1) (concat (map (hex_byte up) bs) @ s) (addr[i := b])"
    using i by (subst address_loop.simps) (simp add: scan_hex_byte del: drop_append)
  also have "\<dots> = take (i + 1) (addr[i := b]) @ bs"
    by (rule Cons.IH) (use Cons.prems i in auto)
  also have "take (i + 1) (addr[i := b]) = take i addr @ [b]"
    using i Cons.prems(3) by (simp add: take_Suc_conv_app_nth)
  finally show ?case by simp
qed

text \<open>A line of the file that is not taken for the address, and fits into the buffer.\<close>

definition other_line :: "string \<Rightarrow> bool" where
  "other_line l = (l \<noteq> [] \<and> last l = CHR 0x0A \<and> CHR 0x0A \<notin> set (butlast l) \<and> length l \<le> 255 \<and>
     \<not> address_line (c_string l))"

lemma fgets_line:
  assumes "l \<noteq> []" "last l = CHR 0x0A" "CHR 0x0A \<notin> set (butlast l)" "length l \<le> 255"
  shows "fgets 256 (l @ s) = Some (l, s)"
proof -
  obtain xs where l: "l = xs @ [CHR 0x0A]" using assms(1,2) by (cases l rule: rev_cases) auto
  then have x: "CHR 0x0A \<notin> set xs" "length xs \<le> 254" using assms(3,4) by auto
  have "takeWhile (\<lambda>c. c \<noteq> CHR 0x0A) (xs @ [CHR 0x0A] @ s) = xs"
    using x(1) by (subst takeWhile_append2) auto
  then have "fgets_length 256 (xs @ [CHR 0x0A] @ s) = Suc (length xs)"
    using x(2) by (simp add: fgets_length_def Let_def)
  then show ?thesis by (simp add: fgets_def l)
qed

lemma wlan_loop_skips: "list_all other_line ls \<Longrightarrow> wlan_loop (concat ls @ s) addr = wlan_loop s addr"
proof (induction ls)
  case (Cons l ls)
  then have "wlan_loop (l @ concat ls @ s) addr = wlan_loop (concat ls @ s) addr"
    by (subst wlan_loop.simps) (simp add: other_line_def fgets_line)
  then show ?case using Cons by simp
qed simp

lemma wlan_loop_address:
  assumes "length bs = 6" "length addr = 6"
  shows "wlan_loop (write_address up bs @ s) addr = bs"
proof -
  let ?l = "write_address up bs"
  have plain: "list_all plain_char (address_key @ concat (map (hex_byte up) bs))"
    using hex_char_facts [OF byte_bounds(1)] hex_char_facts [OF byte_bounds(2)]
    by (auto simp: list_all_iff hex_byte_def address_key_def plain_char_def)
  have len: "length (concat (map (hex_byte up) bs)) = 12" using assms(1)
    by (simp add: length_concat hex_byte_def o_def sum_list_triv)
  have get: "fgets 256 (?l @ s) = Some (?l, s)"
    using plain len by (intro fgets_line) (auto simp: write_address_def address_key_def plain_char_def list_all_iff butlast_append)
  have str: "c_string ?l = ?l"
    using plain by (auto simp: c_string_def write_address_def takeWhile_eq_all_conv plain_char_def list_all_iff)
  have "address_line ?l" using len by (simp add: address_line_def write_address_def address_key_def)
  moreover have "drop 16 ?l = concat (map (hex_byte up) bs) @ [CHR 0x0A]"
    by (simp add: write_address_def address_key_def)
  ultimately show ?thesis
    using get str address_loop_bytes [of bs 0 addr up "[CHR 0x0A]"] assms
    by (subst wlan_loop.simps) simp
qed



text \<open>
  A file without an address is a success too, and leaves the caller's bytes as they are; and so is one whose
  last line is the address without an end of line.
\<close>

lemma wlan_address_missing:
  assumes "list_all other_line ls"
  shows "wcnss_qmi_get_wlan_address (Some (concat ls)) addr = (0, addr)"
proof -
  have "wlan_loop [] addr = addr" by (subst wlan_loop.simps) (simp add: fgets_def)
  then show ?thesis using wlan_loop_skips [OF assms, of "[]"] by (simp add: wcnss_qmi_get_wlan_address_def)
qed

lemma wlan_address_last_line:
  "wcnss_qmi_get_wlan_address (Some ''Intf0MacAddress=986CF5010203'') addr = (0, addr)"
proof -
  have "fgets 256 ''Intf0MacAddress=986CF5010203'' = Some (''Intf0MacAddress=986CF5010203'', [])" by code_simp
  moreover have "wlan_loop [] addr = addr" by (subst wlan_loop.simps) (simp add: fgets_def)
  ultimately show ?thesis unfolding wcnss_qmi_get_wlan_address_def
    by (subst wlan_loop.simps) (simp add: c_string_def address_line_def)
qed

section \<open>The reason of the start\<close>

text \<open>
  \<open>read_file2\<close>: \<open>None\<close> is a file that cannot be opened and \<open>Some None\<close> one that cannot be read.  The second
  result is what is in the buffer then.
\<close>

definition read_file2 :: "string option option \<Rightarrow> int \<Rightarrow> int \<times> string option" where
  "read_file2 fname max_size =
     (if max_size < 1 then (0, None)
      else (case fname of
              None \<Rightarrow> (0, None)
            | Some rd \<Rightarrow> (1, Some (case rd of None \<Rightarrow> [] | Some s \<Rightarrow> take (nat (max_size - 1)) s))))"

type_synonym property_call = "string \<times> string"

definition init_alarm_boot_properties :: "string option option \<Rightarrow> property_call list" where
  "init_alarm_boot_properties alarm_file =
     (case read_file2 alarm_file 64 of
        (r, Some buf) \<Rightarrow>
          if r \<noteq> 0 then
            (if hd_opt buf = Some (CHR ''3'') then [(''ro.alarm_boot'', ''true'')] else [(''ro.alarm_boot'', ''false'')])
          else []
      | (r, None) \<Rightarrow> [])"

text \<open>\<open>init_target_properties\<close> may be replaced by the one of the device: its calls are an argument.\<close>

definition vendor_load_properties :: "property_call list \<Rightarrow> string option option \<Rightarrow> property_call list" where
  "vendor_load_properties target alarm_file = target @ init_alarm_boot_properties alarm_file"

lemma alarm_boot_set_once:
  "init_alarm_boot_properties f =
     (case f of None \<Rightarrow> [] | Some r \<Rightarrow> [(''ro.alarm_boot'', if \<exists>s. r = Some (CHR ''3'' # s) then ''true'' else ''false'')])"
proof (cases f)
  case (Some r)
  show ?thesis
  proof (cases r)
    case (Some s)
    then show ?thesis using \<open>f = Some r\<close>
      by (cases s) (simp_all add: init_alarm_boot_properties_def read_file2_def)
  qed (simp add: Some init_alarm_boot_properties_def read_file2_def)
qed (simp add: init_alarm_boot_properties_def read_file2_def)

end
