(* ===== verification/Loc_Names.thy ===== *)
theory Loc_Names
  imports Loc_Target Loc_Nmea
begin

unbundle bit_operations_syntax

text \<open>
  The names of the values in the log (\<open>src/gps/utils/loc_log.cpp\<close>, \<open>loc_log.h\<close>, \<open>src/gps/core/loc_core_log.cpp\<close>),
  the time stamps and the levels of the log (\<open>log_util.h\<close>).  The constants of Android's \<open>hardware/gps.h\<close> are not part
  of the repository: their values are the argument \<open>gps_h\<close>.
\<close>

section \<open>Tables of names\<close>

type_synonym name_val = "string \<times> int"

definition UNKNOWN_STR :: string where "UNKNOWN_STR = ''UNKNOWN''"

fun loc_get_name_from_mask :: "name_val list \<Rightarrow> int \<Rightarrow> string" where
  "loc_get_name_from_mask [] m = UNKNOWN_STR"
| "loc_get_name_from_mask (e # es) m = (if snd e AND m \<noteq> 0 then fst e else loc_get_name_from_mask es m)"

fun loc_get_name_from_val :: "name_val list \<Rightarrow> int \<Rightarrow> string" where
  "loc_get_name_from_val [] value = UNKNOWN_STR"
| "loc_get_name_from_val (e # es) value = (if snd e = value then fst e else loc_get_name_from_val es value)"

definition loc_msg_q_status :: "name_val list" where
  "loc_msg_q_status =
     [(''eMSG_Q_SUCCESS'', 0), (''eMSG_Q_FAILURE_GENERAL'', -1), (''eMSG_Q_INVALID_PARAMETER'', -2),
      (''eMSG_Q_INVALID_HANDLE'', -3), (''eMSG_Q_UNAVAILABLE_RESOURCE'', -4), (''eMSG_Q_INSUFFICIENT_BUFFER'', -5)]"

definition loc_get_msg_q_status :: "int \<Rightarrow> string" where
  "loc_get_msg_q_status status = loc_get_name_from_val loc_msg_q_status status"

definition log_succ_fail_string :: "int \<Rightarrow> string" where
  "log_succ_fail_string is_succ = (if is_succ \<noteq> 0 then ''successful'' else ''failed'')"

text \<open>The tables of \<open>loc_core_log.cpp\<close>.\<close>

type_synonym constants = "string \<Rightarrow> int"

definition names_of :: "constants \<Rightarrow> string list \<Rightarrow> name_val list" where
  "names_of gps_h xs = map (\<lambda>x. (x, gps_h x)) xs"

definition gps_status_name :: "constants \<Rightarrow> name_val list" where
  "gps_status_name gps_h = names_of gps_h
     [''GPS_STATUS_NONE'', ''GPS_STATUS_SESSION_BEGIN'', ''GPS_STATUS_SESSION_END'', ''GPS_STATUS_ENGINE_ON'',
      ''GPS_STATUS_ENGINE_OFF'']"

definition loc_get_gps_status_name :: "constants \<Rightarrow> int \<Rightarrow> string" where
  "loc_get_gps_status_name gps_h gps_status = loc_get_name_from_val (gps_status_name gps_h) gps_status"

definition loc_eng_position_modes :: "name_val list" where
  "loc_eng_position_modes =
     [(''LOC_POSITION_MODE_STANDALONE'', 0), (''LOC_POSITION_MODE_MS_BASED'', 1), (''LOC_POSITION_MODE_MS_ASSISTED'', 2),
      (''LOC_POSITION_MODE_RESERVED_1'', 3), (''LOC_POSITION_MODE_RESERVED_2'', 4), (''LOC_POSITION_MODE_RESERVED_3'', 5),
      (''LOC_POSITION_MODE_RESERVED_4'', 6), (''LOC_POSITION_MODE_RESERVED_5'', 7)]"

definition loc_get_position_mode_name :: "int \<Rightarrow> string" where
  "loc_get_position_mode_name mode = loc_get_name_from_val loc_eng_position_modes mode"

definition loc_eng_position_recurrences :: "constants \<Rightarrow> name_val list" where
  "loc_eng_position_recurrences gps_h = names_of gps_h
     [''GPS_POSITION_RECURRENCE_PERIODIC'', ''GPS_POSITION_RECURRENCE_SINGLE'']"

definition loc_get_position_recurrence_name :: "constants \<Rightarrow> int \<Rightarrow> string" where
  "loc_get_position_recurrence_name gps_h recur = loc_get_name_from_val (loc_eng_position_recurrences gps_h) recur"

text \<open>The names of the aiding data are not used: the function gives \<open>NULL\<close>.\<close>

definition loc_get_aiding_data_mask_names :: "int \<Rightarrow> string option" where
  "loc_get_aiding_data_mask_names data = None"

definition loc_eng_agps_types :: "name_val list" where
  "loc_eng_agps_types =
     [(''AGPS_TYPE_INVALID'', -1), (''AGPS_TYPE_ANY'', 0), (''AGPS_TYPE_SUPL'', 1), (''AGPS_TYPE_C2K'', 2),
      (''AGPS_TYPE_WWAN_ANY'', 3)]"

definition loc_get_agps_type_name :: "int \<Rightarrow> string" where
  "loc_get_agps_type_name type = loc_get_name_from_val loc_eng_agps_types type"

definition loc_eng_ni_types :: "constants \<Rightarrow> name_val list" where
  "loc_eng_ni_types gps_h =
     names_of gps_h [''GPS_NI_TYPE_VOICE'', ''GPS_NI_TYPE_UMTS_SUPL'', ''GPS_NI_TYPE_UMTS_CTRL_PLANE''] @
     [(''GPS_NI_TYPE_EMERGENCY_SUPL'', 4)]"

definition loc_get_ni_type_name :: "constants \<Rightarrow> int \<Rightarrow> string" where
  "loc_get_ni_type_name gps_h type = loc_get_name_from_val (loc_eng_ni_types gps_h) type"

definition loc_eng_ni_responses :: "constants \<Rightarrow> name_val list" where
  "loc_eng_ni_responses gps_h = names_of gps_h
     [''GPS_NI_RESPONSE_ACCEPT'', ''GPS_NI_RESPONSE_DENY'', ''GPS_NI_RESPONSE_DENY'']"

definition loc_get_ni_response_name :: "constants \<Rightarrow> int \<Rightarrow> string" where
  "loc_get_ni_response_name gps_h response = loc_get_name_from_val (loc_eng_ni_responses gps_h) response"

definition loc_eng_ni_encodings :: "constants \<Rightarrow> name_val list" where
  "loc_eng_ni_encodings gps_h = names_of gps_h
     [''GPS_ENC_NONE'', ''GPS_ENC_SUPL_GSM_DEFAULT'', ''GPS_ENC_SUPL_UTF8'', ''GPS_ENC_SUPL_UCS2'', ''GPS_ENC_UNKNOWN'']"

definition loc_get_ni_encoding_name :: "constants \<Rightarrow> int \<Rightarrow> string" where
  "loc_get_ni_encoding_name gps_h encoding = loc_get_name_from_val (loc_eng_ni_encodings gps_h) encoding"

definition loc_eng_agps_bears :: "name_val list" where
  "loc_eng_agps_bears =
     [(''AGPS_APN_BEARER_INVALID'', -1), (''AGPS_APN_BEARER_IPV4'', 0), (''AGPS_APN_BEARER_IPV6'', 1),
      (''AGPS_APN_BEARER_IPV4V6'', 2)]"

definition loc_get_agps_bear_name :: "int \<Rightarrow> string" where
  "loc_get_agps_bear_name bearer = loc_get_name_from_val loc_eng_agps_bears bearer"

definition loc_eng_server_types :: "name_val list" where
  "loc_eng_server_types =
     [(''LOC_AGPS_CDMA_PDE_SERVER'', 0), (''LOC_AGPS_CUSTOM_PDE_SERVER'', 1), (''LOC_AGPS_MPC_SERVER'', 2),
      (''LOC_AGPS_SUPL_SERVER'', 3)]"

definition loc_get_server_type_name :: "int \<Rightarrow> string" where
  "loc_get_server_type_name type = loc_get_name_from_val loc_eng_server_types type"

definition loc_eng_position_sess_status_types :: "name_val list" where
  "loc_eng_position_sess_status_types =
     [(''LOC_SESS_SUCCESS'', 0), (''LOC_SESS_INTERMEDIATE'', 1), (''LOC_SESS_FAILURE'', 2)]"

definition loc_get_position_sess_status_name :: "int \<Rightarrow> string" where
  "loc_get_position_sess_status_name status = loc_get_name_from_val loc_eng_position_sess_status_types status"

definition loc_eng_agps_status_names :: "constants \<Rightarrow> name_val list" where
  "loc_eng_agps_status_names gps_h = names_of gps_h
     [''GPS_REQUEST_AGPS_DATA_CONN'', ''GPS_RELEASE_AGPS_DATA_CONN'', ''GPS_AGPS_DATA_CONNECTED'',
      ''GPS_AGPS_DATA_CONN_DONE'', ''GPS_AGPS_DATA_CONN_FAILED'']"

definition loc_get_agps_status_name :: "constants \<Rightarrow> int \<Rightarrow> string" where
  "loc_get_agps_status_name gps_h status = loc_get_name_from_val (loc_eng_agps_status_names gps_h) status"

text \<open>A table whose values differ gives every value its own name, and no other value a name.\<close>

lemma name_of_entry: "\<lbrakk>distinct (map snd t); (n, v) \<in> set t\<rbrakk> \<Longrightarrow> loc_get_name_from_val t v = n"
  by (induction t) (auto simp: image_iff)

lemma name_of_other: "v \<notin> snd ` set t \<Longrightarrow> loc_get_name_from_val t v = UNKNOWN_STR"
  by (induction t) auto

definition names_tell :: "name_val list \<Rightarrow> bool" where
  "names_tell t = list_all (\<lambda>e. loc_get_name_from_val t (snd e) = fst e) t"

lemma own_names_tell:
  "list_all names_tell [loc_msg_q_status, loc_eng_position_modes, loc_eng_agps_types, loc_eng_agps_bears,
     loc_eng_server_types, loc_eng_position_sess_status_types]"
  by code_simp

text \<open>Two types of the AGPS machines, and the answer of a request that has timed out, have no name.\<close>

lemma agps_types_without_name: "loc_get_agps_type_name 4 = UNKNOWN_STR \<and> loc_get_agps_type_name 5 = UNKNOWN_STR"
  by code_simp

lemma no_response_without_name:
  "\<lbrakk>gps_h ''GPS_NI_RESPONSE_ACCEPT'' \<noteq> r; gps_h ''GPS_NI_RESPONSE_DENY'' \<noteq> r\<rbrakk> \<Longrightarrow>
   loc_get_ni_response_name gps_h r = UNKNOWN_STR"
  by (simp add: loc_get_ni_response_name_def loc_eng_ni_responses_def names_of_def)

section \<open>The name of the target\<close>

definition target_name :: "name_val list" where
  "target_name =
     [(''GNSS_NONE'', uint GNSS_NONE), (''GNSS_MSM'', uint GNSS_MSM), (''GNSS_GSS'', uint GNSS_GSS),
      (''GNSS_MDM'', uint GNSS_MDM), (''GNSS_QCA1530'', uint GNSS_QCA1530), (''GNSS_AUTO'', uint GNSS_AUTO),
      (''GNSS_UNKNOWN'', uint GNSS_UNKNOWN)]"

definition BUFFER_SIZE :: nat where "BUFFER_SIZE = 120"

definition snprintf :: "nat \<Rightarrow> string \<Rightarrow> string" where
  "snprintf n s = take (n - 1) s"

definition loc_get_target_name :: "uint32 \<Rightarrow> string" where
  "loc_get_target_name target =
     (let i = sint (getTargetGnssType target);
          index = (if i < 0 \<or> int (length target_name) \<le> i then int (length target_name) - 1 else i);
          name = loc_get_name_from_val target_name index
      in if target AND HAS_SSC = HAS_SSC then snprintf BUFFER_SIZE ('' '' @ name @ '' with SSC'')
         else snprintf BUFFER_SIZE ('' '' @ name @ ''  without SSC''))"

lemma known_targets_named:
  "loc_get_target_name TARGET_DEFAULT = '' GNSS_MSM with SSC''"
  "loc_get_target_name TARGET_QCA1530 = '' GNSS_QCA1530  without SSC''"
  "loc_get_target_name no_target = '' GNSS_UNKNOWN with SSC''"
  by code_simp+

section \<open>Time stamps\<close>

text \<open>
  \<open>get_timestamp\<close> for a reading of the clock, and \<open>loc_get_time\<close>, for which the library has broken the time down.
\<close>

definition get_timestamp :: "nat \<Rightarrow> nat \<Rightarrow> nat \<Rightarrow> string" where
  "get_timestamp buf_size tv_sec tv_usec =
     (let hh = tv_sec div 3600 mod 24; mm = tv_sec mod 3600 div 60; ss = tv_sec mod 60
      in snprintf buf_size
           (fmt_d 2 (int hh) @ '':'' @ fmt_d 2 (int mm) @ '':'' @ fmt_d 2 (int ss) @ ''.'' @ fmt_d 6 (int tv_usec)))"

definition loc_get_time :: "nat \<Rightarrow> tm \<Rightarrow> nat \<Rightarrow> string" where
  "loc_get_time buf_size now_tm tv_usec =
     (let hms = fmt_d 2 (int (tm_hour now_tm)) @ '':'' @ fmt_d 2 (int (tm_min now_tm)) @ '':'' @
                fmt_d 2 (int (tm_sec now_tm))
      in snprintf buf_size (hms @ ''.'' @ fmt_d 3 (int (tv_usec div 1000))))"

lemma length_fmt_d_exact:
  assumes "0 \<le> i" "i < 10 ^ w" "0 < w"
  shows "length (fmt_d w i) = w"
proof -
  obtain k where k: "w = Suc k" using assms(3) by (cases w) auto
  have "nat i < 10 ^ Suc k" using assms(1,2) k by (simp add: nat_less_iff)
  then show ?thesis using length_print_dec [of "nat i" k] assms(1) k by (simp add: fmt_d_def pad0_def)
qed

text \<open>The stamp has 15 characters and fits into the buffer of the macros, which has 32 bytes.\<close>

lemma timestamp_length:
  assumes "tv_usec < 1000000"
  shows "length (get_timestamp 32 tv_sec tv_usec) = 15"
proof -
  have "length (fmt_d 2 (int (tv_sec div 3600 mod 24))) = 2" "length (fmt_d 2 (int (tv_sec mod 3600 div 60))) = 2"
    "length (fmt_d 2 (int (tv_sec mod 60))) = 2" "length (fmt_d 6 (int tv_usec)) = 6"
  proof -
    have "tv_sec div 3600 mod 24 < 24" "tv_sec mod 60 < 60" by simp_all
    moreover have "tv_sec mod 3600 div 60 < 60" by (simp add: less_mult_imp_div_less)
    ultimately show "length (fmt_d 2 (int (tv_sec div 3600 mod 24))) = 2"
      "length (fmt_d 2 (int (tv_sec mod 3600 div 60))) = 2" "length (fmt_d 2 (int (tv_sec mod 60))) = 2"
      "length (fmt_d 6 (int tv_usec)) = 6"
      using assms by (simp_all add: length_fmt_d_exact)
  qed
  then show ?thesis by (simp add: get_timestamp_def Let_def snprintf_def)
qed

section \<open>Levels\<close>

record loc_logger =
  DEBUG_LEVEL :: nat
  TIMESTAMP :: nat

definition loc_logger_init :: "bool \<Rightarrow> nat \<Rightarrow> nat \<Rightarrow> loc_logger" where
  "loc_logger_init user_build debug stamp =
     \<lparr>DEBUG_LEVEL = (if user_build \<and> 2 < debug then 2 else debug), TIMESTAMP = stamp\<rparr>"

text \<open>
  What a message of a level comes to: nothing, an error message with the letter of the level, or a message of
  Android's own level.  The levels are 1 for errors to 5 for verbose messages.
\<close>

datatype log_out = No_message | As_error | As_level nat

definition loc_log :: "nat \<Rightarrow> loc_logger \<Rightarrow> log_out" where
  "loc_log level l =
     (if level \<le> DEBUG_LEVEL l \<and> DEBUG_LEVEL l \<le> 5 then As_error
      else if DEBUG_LEVEL l = 255 then As_level level
      else No_message)"

text \<open>A user build never logs more than errors and warnings, whatever the configuration says.\<close>

lemma user_build_is_quiet: "2 < level \<Longrightarrow> loc_log level (loc_logger_init True debug stamp) = No_message"
  by (simp add: loc_log_def loc_logger_init_def)

end
