(* ===== verification/Loc_Base_Api.thy ===== *)
theory Loc_Base_Api
  imports Loc_Eng
begin

text \<open>
  The modem as the base class \<open>LocApiBase\<close> answers for it (\<open>src/gps/core/LocApiBase.cpp\<close>), which
  \<open>ContextBase\<close> takes when the library of the vendor cannot be loaded: the results of its functions, and what the
  engine makes of them.
\<close>

text \<open>The error numbers of \<open>gps_extended_c.h\<close>; the last one follows on 101, and two names share a number.\<close>

datatype loc_api_adapter_err =
    ERR_success | ERR_general_failure | ERR_unsupported | ERR_invalid_handle | ERR_invalid_parameter
  | ERR_engine_busy | ERR_phone_offline | ERR_timeout | ERR_service_not_present | ERR_internal
  | ERR_engine_down | ERR_failure | ERR_unknown

fun err_number :: "loc_api_adapter_err \<Rightarrow> int" where
  "err_number ERR_success = 0"
| "err_number ERR_general_failure = 1"
| "err_number ERR_unsupported = 2"
| "err_number ERR_invalid_handle = 4"
| "err_number ERR_invalid_parameter = 5"
| "err_number ERR_engine_busy = 6"
| "err_number ERR_phone_offline = 7"
| "err_number ERR_timeout = 8"
| "err_number ERR_service_not_present = 9"
| "err_number ERR_internal = 10"
| "err_number ERR_engine_down = 7"
| "err_number ERR_failure = 101"
| "err_number ERR_unknown = 102"

datatype base_call =
    Base_open | Base_close | Base_startFix | Base_stopFix | Base_deleteAidingData | Base_enableData | Base_setAPN
  | Base_injectPosition | Base_setTime | Base_setXtraData | Base_requestXtraServer | Base_atlOpenStatus
  | Base_atlCloseStatus | Base_setPositionMode | Base_setServer_url | Base_setServer_ip | Base_informNiResponse
  | Base_setSUPLVersion | Base_setLPPConfig | Base_setSensorControlConfig | Base_setSensorProperties
  | Base_setSensorPerfControlConfig | Base_setExtPowerConfig | Base_setAGLONASSProtocol | Base_getWwanZppFix
  | Base_getBestAvailableZppFix | Base_getBestAvailableZppFix_tech | Base_initDataServiceClient
  | Base_openAndStartDataCall | Base_stopDataCall | Base_closeDataCall | Base_setGpsLock | Base_installAGpsCert
  | Base_getGpsLock | Base_setXtraVersionCheck | Base_updateRegistrationMask | Base_gnssConstellationConfig

datatype base_result = Error_number loc_api_adapter_err | Number int | Flag bool | No_result

fun LocApiBase_result :: "base_call \<Rightarrow> base_result" where
  "LocApiBase_result Base_initDataServiceClient = Number (-1)"
| "LocApiBase_result Base_openAndStartDataCall = Number (-1)"
| "LocApiBase_result Base_stopDataCall = No_result"
| "LocApiBase_result Base_closeDataCall = No_result"
| "LocApiBase_result Base_setGpsLock = Number (-1)"
| "LocApiBase_result Base_installAGpsCert = No_result"
| "LocApiBase_result Base_getGpsLock = Number (-1)"
| "LocApiBase_result Base_updateRegistrationMask = Number (-1)"
| "LocApiBase_result Base_gnssConstellationConfig = Flag False"
| "LocApiBase_result c = Error_number ERR_success"

fun result_number :: "base_result \<Rightarrow> int" where
  "result_number (Error_number x) = err_number x"
| "result_number (Number n) = n"
| "result_number (Flag b) = of_bool b"
| "result_number No_result = 0"

text \<open>\<open>getBestAvailableZppFix\<close> clears the location and the technologies.\<close>

definition base_zpp :: "UlpLocation \<times> uint32" where
  "base_zpp = (\<lparr>has_accuracy = False, accuracy = 0, pos_id = 0\<rparr>, 0)"

text \<open>The answers the engine gets; the name service and the constants of Android remain arguments.\<close>

definition base_answers :: "(string \<Rightarrow> uint32 option) \<Rightarrow> uint32 \<Rightarrow> answers" where
  "base_answers resolve measurements =
     \<lparr>start_err = result_number (LocApiBase_result Base_startFix),
      call_ret = result_number (LocApiBase_result Base_openAndStartDataCall),
      constellation = (LocApiBase_result Base_gnssConstellationConfig = Flag True),
      data_client = result_number (LocApiBase_result Base_initDataServiceClient),
      dns = resolve, CAPABILITY_MEASUREMENTS = measurements, zpp = base_zpp\<rparr>"

text \<open>
  With the base class a session starts, but there is no data services machine, and the measurements are not
  offered to the framework.
\<close>

lemma base_modem_has_no_extras:
  "proc (base_answers r c) LocEngDataClientInit e = Some (call_modem M_initDataServiceClient e)"
  "proc (base_answers r c) LocEngGnssConstellationConfig e = Some (call_modem M_gnssConstellationConfig e)"
  "start_err (base_answers r c) = ERR_SUCCESS"
  by (simp_all add: base_answers_def ERR_SUCCESS_def)

end
