(* ===== verification/Loc_Timer_Objects.thy ===== *)
theory Loc_Timer_Objects
  imports Loc_Timer
begin

text \<open>
  The objects behind the timer service of \<open>src/gps/utils/LocTimer.cpp\<close>: how the two containers, the message
  task and the polling task come into being (\<open>LocTimerContainer::get\<close>), by whichever thread starts the
  first timer; and the life of the object behind a handle of the C interface (\<open>LocTimerWrapper\<close>), which
  the client deletes by \<open>loc_timer_stop\<close> and the expiry deletes after the callback.
\<close>

section \<open>The containers\<close>

datatype clock = CLOCK_BOOTTIME | CLOCK_BOOTTIME_ALARM | CLOCK_MONOTONIC

text \<open>What \<open>timerfd_create\<close> may answer: a descriptor, or -1 with \<open>errno\<close> \<open>EINVAL\<close> or another one.\<close>

datatype fd_answer = Fd_made | Fd_EINVAL | Fd_failed

text \<open>The constructor of a container: whether \<open>mDevFd\<close> is a descriptor in the end.\<close>

definition container_fd :: "(clock \<Rightarrow> fd_answer) \<Rightarrow> bool \<Rightarrow> bool" where
  "container_fd timerfd_create wakeOnExpire =
     (let a = timerfd_create (if wakeOnExpire then CLOCK_BOOTTIME_ALARM else CLOCK_BOOTTIME);
          b = (if a = Fd_EINVAL then timerfd_create CLOCK_MONOTONIC else a)
      in b = Fd_made)"

text \<open>
  Where a thread is in \<open>get\<close>: it waits for the mutex, is about to check again, has made a container (with
  a descriptor or not), has deleted the one without, is about to unlock or to read the result, or has it.
\<close>

datatype get_pc =
    Outside | Waiting_mutex bool | Rechecking bool | Made bool nat bool | Undone bool
  | Unlocking bool | Reading bool | Got bool "nat option"

text \<open>
  The static members: \<open>container_of True\<close> is \<open>mHwTimers\<close>, \<open>container_of False\<close> is \<open>mSwTimers\<close>.
  \<open>fitted\<close>, \<open>polls\<close>, \<open>tasks\<close> and \<open>discarded\<close> are histories: the containers that were made with a descriptor, the
  polling tasks and the message tasks that were made, and the containers that were deleted.
\<close>

record timer_statics =
  container_of :: "bool \<Rightarrow> nat option"
  mPollTask :: "nat option"
  mMsgTask :: "nat option"
  get_mutex :: "nat option"
  get_pcs :: "nat \<Rightarrow> get_pc"
  next_obj :: nat
  fitted :: "(bool \<times> nat) list"
  polls :: "nat list"
  tasks :: "nat list"
  discarded :: "nat list"

text \<open>\<open>getPollTaskLocked\<close> and \<open>getMsgTaskLocked\<close>.\<close>

definition getPollTaskLocked :: "timer_statics \<Rightarrow> timer_statics" where
  "getPollTaskLocked s =
     (if mPollTask s = None
      then s\<lparr>mPollTask := Some (next_obj s), next_obj := Suc (next_obj s), polls := polls s @ [next_obj s]\<rparr>
      else s)"

definition getMsgTaskLocked :: "timer_statics \<Rightarrow> timer_statics" where
  "getMsgTaskLocked s =
     (if mMsgTask s = None
      then s\<lparr>mMsgTask := Some (next_obj s), next_obj := Suc (next_obj s), tasks := tasks s @ [next_obj s]\<rparr>
      else s)"

text \<open>\<open>new LocTimerContainer(wakeOnExpire)\<close> and its assignment to the static member.\<close>

definition make_container :: "(clock \<Rightarrow> fd_answer) \<Rightarrow> bool \<Rightarrow> timer_statics \<Rightarrow> timer_statics \<times> nat \<times> bool" where
  "make_container timerfd_create w s =
     (let c = next_obj s; has_fd = container_fd timerfd_create w;
          s1 = s\<lparr>next_obj := Suc c\<rparr>;
          s2 = (if has_fd then getMsgTaskLocked (getPollTaskLocked (s1\<lparr>fitted := fitted s1 @ [(w, c)]\<rparr>)) else s1)
      in (s2\<lparr>container_of := (container_of s2)(w := Some c)\<rparr>, c, has_fd))"

definition at_pc :: "nat \<Rightarrow> get_pc \<Rightarrow> timer_statics \<Rightarrow> timer_statics" where
  "at_pc t p s = s\<lparr>get_pcs := (get_pcs s)(t := p)\<rparr>"

text \<open>
  One step of thread \<open>t\<close> in \<open>get\<close>; outside, it calls \<open>get\<close> for the container \<open>w\<close>.  The step from
  \<open>Made\<close> with no descriptor deletes the container, the next one clears the member.
\<close>

definition get_step :: "(clock \<Rightarrow> fd_answer) \<Rightarrow> bool \<Rightarrow> nat \<Rightarrow> timer_statics \<Rightarrow> timer_statics" where
  "get_step timerfd_create w t s =
     (case get_pcs s t of
        Outside \<Rightarrow> at_pc t (if container_of s w = None then Waiting_mutex w else Reading w) s
      | Waiting_mutex v \<Rightarrow>
          (if get_mutex s = None then at_pc t (Rechecking v) (s\<lparr>get_mutex := Some t\<rparr>) else s)
      | Rechecking v \<Rightarrow>
          (if container_of s v = None
           then (let (s', c, has_fd) = make_container timerfd_create v s in at_pc t (Made v c has_fd) s')
           else at_pc t (Unlocking v) s)
      | Made v c has_fd \<Rightarrow>
          (if has_fd then at_pc t (Unlocking v) s
           else at_pc t (Undone v) (s\<lparr>discarded := discarded s @ [c]\<rparr>))
      | Undone v \<Rightarrow> at_pc t (Unlocking v) (s\<lparr>container_of := (container_of s)(v := None)\<rparr>)
      | Unlocking v \<Rightarrow> at_pc t (Reading v) (s\<lparr>get_mutex := None\<rparr>)
      | Reading v \<Rightarrow> at_pc t (Got v (container_of s v)) s
      | Got v c \<Rightarrow> at_pc t Outside s)"

text \<open>The steps of all threads; \<open>always\<close> says that the system never refuses a descriptor.\<close>

inductive statics_step :: "bool \<Rightarrow> timer_statics \<Rightarrow> timer_statics \<Rightarrow> bool" for always where
  statics_stepI: "(always \<Longrightarrow> \<forall>v. container_fd create v) \<Longrightarrow> statics_step always s (get_step create w t s)"

definition no_statics :: timer_statics where
  "no_statics = \<lparr>container_of = Map.empty, mPollTask = None, mMsgTask = None, get_mutex = None,
     get_pcs = (\<lambda>t. Outside), next_obj = 0, fitted = [], polls = [], tasks = [], discarded = []\<rparr>"

section \<open>One container of each kind\<close>

text \<open>The threads between the lock and the unlock.\<close>

fun holds_mutex :: "get_pc \<Rightarrow> bool" where
  "holds_mutex (Rechecking w) = True"
| "holds_mutex (Made w c b) = True"
| "holds_mutex (Undone w) = True"
| "holds_mutex (Unlocking w) = True"
| "holds_mutex _ = False"

definition unfitted :: "bool \<Rightarrow> timer_statics \<Rightarrow> bool" where
  "unfitted w s \<longleftrightarrow> (\<forall>c. (w, c) \<notin> set (fitted s))"

text \<open>What is known of a thread from where it is.\<close>

fun pc_ok :: "bool \<Rightarrow> timer_statics \<Rightarrow> get_pc \<Rightarrow> bool" where
  "pc_ok always s (Made w c b) \<longleftrightarrow>
     container_of s w = Some c \<and> (b \<longrightarrow> (w, c) \<in> set (fitted s)) \<and>
     (\<not> b \<longrightarrow> \<not> always \<and> unfitted w s \<and> c \<notin> snd ` set (fitted s) \<and> c < next_obj s)"
| "pc_ok always s (Undone w) \<longleftrightarrow> unfitted w s \<and> \<not> always"
| "pc_ok always s (Unlocking w) \<longleftrightarrow> (always \<longrightarrow> \<not> unfitted w s)"
| "pc_ok always s (Reading w) \<longleftrightarrow> (always \<longrightarrow> \<not> unfitted w s)"
| "pc_ok always s (Got w r) \<longleftrightarrow> (always \<longrightarrow> (\<exists>c. r = Some c \<and> (w, c) \<in> set (fitted s)))"
| "pc_ok always s _ \<longleftrightarrow> True"

text \<open>The tasks are made once, and before the first container is used.\<close>

definition tasks_inv :: "timer_statics \<Rightarrow> bool" where
  "tasks_inv s \<longleftrightarrow>
     polls s = (case mPollTask s of None \<Rightarrow> [] | Some p \<Rightarrow> [p]) \<and>
     tasks s = (case mMsgTask s of None \<Rightarrow> [] | Some p \<Rightarrow> [p]) \<and>
     (fitted s \<noteq> [] \<longrightarrow> polls s \<noteq> [] \<and> tasks s \<noteq> [])"

definition statics_inv :: "bool \<Rightarrow> timer_statics \<Rightarrow> bool" where
  "statics_inv always s \<longleftrightarrow>
     (\<forall>t. holds_mutex (get_pcs s t) \<longleftrightarrow> get_mutex s = Some t) \<and>
     (\<forall>t. pc_ok always s (get_pcs s t)) \<and>
     distinct (map fst (fitted s)) \<and>
     (\<forall>(w, c) \<in> set (fitted s). container_of s w = Some c \<and> c \<notin> set (discarded s) \<and> c < next_obj s) \<and>
     (\<forall>w. container_of s w \<noteq> None \<and> unfitted w s \<longrightarrow> (\<exists>t c. get_pcs s t \<in> {Made w c False, Undone w})) \<and>
     (\<forall>c \<in> set (discarded s). c < next_obj s) \<and>
     tasks_inv s"


lemma fitted_published:
  "\<lbrakk>statics_inv always s; (w, c) \<in> set (fitted s)\<rbrakk> \<Longrightarrow>
   container_of s w = Some c \<and> c \<notin> set (discarded s) \<and> c < next_obj s"
  unfolding statics_inv_def by blast

lemma pc_ok_grows:
  "\<lbrakk>pc_ok always s p; set (fitted s) \<subseteq> set (fitted s'); \<not> holds_mutex p\<rbrakk> \<Longrightarrow> pc_ok always s' p"
  by (cases p) (auto simp: unfitted_def)

lemma pc_ok_same:
  "\<lbrakk>pc_ok always s p; fitted s' = fitted s; container_of s' = container_of s; next_obj s' = next_obj s\<rbrakk>
   \<Longrightarrow> pc_ok always s' p"
  by (cases p) (auto simp: unfitted_def)

text \<open>A step that only moves one thread, and may take or give back the mutex.\<close>

lemma move_inv:
  assumes "statics_inv always s" "get_pcs s t = p" "pc_ok always s q"
    "holds_mutex q \<longleftrightarrow> m = Some t" "holds_mutex p \<longrightarrow> m = None \<or> m = get_mutex s"
    "\<not> holds_mutex p \<longrightarrow> m = get_mutex s \<or> get_mutex s = None \<and> m = Some t"
    "\<And>w c. p \<noteq> Made w c False \<and> p \<noteq> Undone w"
  shows "statics_inv always (at_pc t q (s\<lparr>get_mutex := m\<rparr>))"
proof -
  let ?s = "at_pc t q (s\<lparr>get_mutex := m\<rparr>)"
  have same: "fitted ?s = fitted s" "container_of ?s = container_of s" "next_obj ?s = next_obj s"
    "tasks_inv ?s = tasks_inv s"
    "discarded ?s = discarded s" "get_mutex ?s = m" "get_pcs ?s = (get_pcs s)(t := q)"
    by (simp_all add: at_pc_def tasks_inv_def)
  have 1: "holds_mutex (get_pcs ?s u) \<longleftrightarrow> m = Some u" for u
    using assms(1,2,4-6) unfolding same statics_inv_def by (cases "u = t") (auto split: if_splits)
  have 2: "pc_ok always ?s (get_pcs ?s u)" for u
    using assms(1,3) unfolding statics_inv_def
    by (cases "u = t") (auto intro: pc_ok_same simp: same)
  have "container_of s w \<noteq> None \<and> unfitted w s \<longrightarrow> (\<exists>u c. get_pcs s u \<in> {Made w c False, Undone w})" for w
    using assms(1) unfolding statics_inv_def by blast
  then have 3: "container_of ?s w \<noteq> None \<and> unfitted w ?s \<longrightarrow> (\<exists>u c. get_pcs ?s u \<in> {Made w c False, Undone w})"
    for w
    using assms(2,7) unfolding same unfitted_def by (metis fun_upd_other insert_iff singletonD)
  show ?thesis
    using assms(1) 1 2 3 unfolding statics_inv_def same by blast
qed

text \<open>Only one thread is between the lock and the unlock, so the others do not look at the members.\<close>

lemma others_outside:
  "\<lbrakk>statics_inv always s; holds_mutex (get_pcs s t); u \<noteq> t\<rbrakk> \<Longrightarrow> \<not> holds_mutex (get_pcs s u)"
  unfolding statics_inv_def by (metis option.inject)

lemma make_container_facts:
  assumes "make_container create w s = (s', c, b)"
  shows "c = next_obj s" "b \<longleftrightarrow> container_fd create w" "container_of s' = (container_of s)(w := Some c)"
    "fitted s' = fitted s @ (if b then [(w, c)] else [])" "discarded s' = discarded s" "c < next_obj s'"
    "next_obj s \<le> next_obj s'" "get_pcs s' = get_pcs s" "get_mutex s' = get_mutex s"
    "tasks_inv s \<Longrightarrow> tasks_inv s'"
  using assms unfolding make_container_def Let_def getMsgTaskLocked_def getPollTaskLocked_def tasks_inv_def
  by (auto split: if_splits option.splits)

lemma made_inv:
  assumes inv: "statics_inv always s" and p: "get_pcs s t = Rechecking w" and none: "container_of s w = None"
    and m: "make_container create w s = (s', c, b)" and ok: "always \<Longrightarrow> container_fd create w"
  shows "statics_inv always (at_pc t (Made w c b) s')"
proof -
  let ?s = "at_pc t (Made w c b) s'"
  note f = make_container_facts [OF m]
  note old = fitted_published [OF inv]
  have disc: "d \<in> set (discarded s) \<Longrightarrow> d < next_obj s" for d
    using inv unfolding statics_inv_def by blast
  have new: "unfitted w s" using old none unfolding unfitted_def by fastforce
  have same: "fitted ?s = fitted s'" "container_of ?s = container_of s'" "next_obj ?s = next_obj s'"
    "tasks_inv ?s = tasks_inv s'"
    "discarded ?s = discarded s'" "get_mutex ?s = get_mutex s'" "get_pcs ?s = (get_pcs s')(t := Made w c b)"
    by (simp_all add: at_pc_def tasks_inv_def)
  have 1: "holds_mutex (get_pcs ?s u) \<longleftrightarrow> get_mutex ?s = Some u" for u
    using inv p f(8,9) unfolding same statics_inv_def by (cases "u = t") auto
  have 2: "pc_ok always ?s (get_pcs ?s u)" for u
  proof (cases "u = t")
    case True
    have "\<not> b \<longrightarrow> c \<notin> snd ` set (fitted s')" using old f(1,4) by force
    then show ?thesis using True f(1-4,6) ok new by (auto simp: at_pc_def unfitted_def)
  next
    case False
    then have "\<not> holds_mutex (get_pcs s u)" using others_outside [OF inv, of t u] p by simp
    then show ?thesis
      using False inv f(4,8) pc_ok_grows [of always s "get_pcs s u" ?s] unfolding statics_inv_def same by auto
  qed
  have 3: "distinct (map fst (fitted s'))" using inv new f(4) unfolding statics_inv_def unfitted_def by auto
  have 4: "container_of s' v = Some d \<and> d \<notin> set (discarded s') \<and> d < next_obj s'"
    if "(v, d) \<in> set (fitted s')" for v d
  proof (cases "(v, d) \<in> set (fitted s)")
    case True
    moreover from this have "v \<noteq> w" using new unfolding unfitted_def by blast
    ultimately show ?thesis using old [of v d] f(3,5,7) by auto
  next
    case False
    then have "v = w" "d = c" using that f(4) by (auto split: if_splits)
    then show ?thesis using disc [of d] f(1,3,5,6) by auto
  qed
  have 5: "container_of ?s v \<noteq> None \<and> unfitted v ?s \<longrightarrow> (\<exists>u d. get_pcs ?s u \<in> {Made v d False, Undone v})" for v
  proof (cases "v = w")
    case True
    then show ?thesis using f(4) unfolding same unfitted_def by (cases b) auto
  next
    case False
    show ?thesis
    proof (intro impI)
      assume a: "container_of ?s v \<noteq> None \<and> unfitted v ?s"
      then have "container_of s v \<noteq> None \<and> unfitted v s" using False f(3,4) unfolding same unfitted_def by auto
      then obtain u d where "get_pcs s u \<in> {Made v d False, Undone v}" using inv unfolding statics_inv_def by blast
      moreover from this have "u \<noteq> t" using p by auto
      ultimately show "\<exists>u d. get_pcs ?s u \<in> {Made v d False, Undone v}" using f(8) unfolding same by (metis fun_upd_other)
    qed
  qed
  have 6: "\<forall>d \<in> set (discarded s'). d < next_obj s'" using disc f(5,7) by (auto intro: less_le_trans)
  have 7: "tasks_inv s'" using inv f(10) unfolding statics_inv_def by blast
  have "\<forall>u. holds_mutex (get_pcs ?s u) \<longleftrightarrow> get_mutex ?s = Some u" "\<forall>u. pc_ok always ?s (get_pcs ?s u)"
    "\<forall>v. container_of ?s v \<noteq> None \<and> unfitted v ?s \<longrightarrow> (\<exists>u d. get_pcs ?s u \<in> {Made v d False, Undone v})"
    "\<forall>(v, d) \<in> set (fitted s'). container_of s' v = Some d \<and> d \<notin> set (discarded s') \<and> d < next_obj s'"
    using 1 2 5 4 by blast+
  then show ?thesis unfolding statics_inv_def using 3 6 7 by (simp add: same)
qed

text \<open>The container without a descriptor: it is deleted, and then the member is cleared.\<close>

lemma undo_inv:
  assumes inv: "statics_inv always s" and p: "get_pcs s t = Made w c False"
  shows "statics_inv always (at_pc t (Undone w) (s\<lparr>discarded := discarded s @ [c]\<rparr>))"
proof -
  let ?s = "at_pc t (Undone w) (s\<lparr>discarded := discarded s @ [c]\<rparr>)"
  have "pc_ok always s (get_pcs s t)" using inv unfolding statics_inv_def by blast
  then have c: "\<not> always" "unfitted w s" "c \<notin> snd ` set (fitted s)" "c < next_obj s" by (simp_all add: p)
  have same: "fitted ?s = fitted s" "container_of ?s = container_of s" "next_obj ?s = next_obj s"
    "tasks_inv ?s = tasks_inv s"
    "discarded ?s = discarded s @ [c]" "get_mutex ?s = get_mutex s" "get_pcs ?s = (get_pcs s)(t := Undone w)"
    by (simp_all add: at_pc_def tasks_inv_def)
  have 1: "holds_mutex (get_pcs ?s u) \<longleftrightarrow> get_mutex ?s = Some u" for u
    using inv p unfolding same statics_inv_def by (cases "u = t") auto
  have 2: "pc_ok always ?s (get_pcs ?s u)" for u
    using inv c unfolding statics_inv_def by (cases "u = t") (auto intro: pc_ok_same simp: same unfitted_def)
  have 3: "container_of ?s v \<noteq> None \<and> unfitted v ?s \<longrightarrow> (\<exists>u d. get_pcs ?s u \<in> {Made v d False, Undone v})" for v
  proof
    assume "container_of ?s v \<noteq> None \<and> unfitted v ?s"
    then obtain u d where u: "get_pcs s u \<in> {Made v d False, Undone v}"
      using inv unfolding same unfitted_def statics_inv_def by blast
    show "\<exists>u d. get_pcs ?s u \<in> {Made v d False, Undone v}"
    proof (cases "u = t")
      case True
      then have "get_pcs s u = Made w c False" using p by simp
      then have "v = w" using u by simp
      then have "get_pcs ?s t \<in> {Made v d False, Undone v}" by (simp add: same)
      then show ?thesis by blast
    next
      case False
      then have "get_pcs ?s u = get_pcs s u" by (simp add: same)
      then show ?thesis using u by metis
    qed
  qed
  have 4: "\<forall>(v, d) \<in> set (fitted ?s). container_of ?s v = Some d \<and> d \<notin> set (discarded ?s) \<and> d < next_obj ?s"
  proof clarify
    fix v d assume "(v, d) \<in> set (fitted ?s)"
    moreover from this have "d \<noteq> c" using c(3) unfolding same by (metis image_eqI snd_conv)
    ultimately show "container_of ?s v = Some d \<and> d \<notin> set (discarded ?s) \<and> d < next_obj ?s"
      using fitted_published [OF inv] by (simp add: same)
  qed
  have "\<forall>u. holds_mutex (get_pcs ?s u) \<longleftrightarrow> get_mutex ?s = Some u" "\<forall>u. pc_ok always ?s (get_pcs ?s u)"
    "\<forall>v. container_of ?s v \<noteq> None \<and> unfitted v ?s \<longrightarrow> (\<exists>u d. get_pcs ?s u \<in> {Made v d False, Undone v})"
    "\<forall>d \<in> set (discarded ?s). d < next_obj ?s"
    using 1 2 3 inv c(4) unfolding statics_inv_def same by auto
  then show ?thesis using inv 4 unfolding statics_inv_def by (simp add: same)
qed

lemma clear_inv:
  assumes inv: "statics_inv always s" and p: "get_pcs s t = Undone w"
  shows "statics_inv always (at_pc t (Unlocking w) (s\<lparr>container_of := (container_of s)(w := None)\<rparr>))"
proof -
  let ?s = "at_pc t (Unlocking w) (s\<lparr>container_of := (container_of s)(w := None)\<rparr>)"
  have "pc_ok always s (get_pcs s t)" using inv unfolding statics_inv_def by blast
  then have c: "\<not> always" "unfitted w s" by (simp_all add: p)
  have same: "fitted ?s = fitted s" "container_of ?s = (container_of s)(w := None)" "next_obj ?s = next_obj s"
    "tasks_inv ?s = tasks_inv s"
    "discarded ?s = discarded s" "get_mutex ?s = get_mutex s" "get_pcs ?s = (get_pcs s)(t := Unlocking w)"
    by (simp_all add: at_pc_def tasks_inv_def)
  have 1: "holds_mutex (get_pcs ?s u) \<longleftrightarrow> get_mutex ?s = Some u" for u
    using inv p unfolding same statics_inv_def by (cases "u = t") auto
  have 2: "pc_ok always ?s (get_pcs ?s u)" for u
  proof (cases "u = t")
    case False
    then have "\<not> holds_mutex (get_pcs s u)" using others_outside [OF inv, of t u] p by simp
    moreover have "pc_ok always s (get_pcs s u)" using inv unfolding statics_inv_def by blast
    ultimately show ?thesis using False pc_ok_grows [of always s "get_pcs s u" ?s] by (simp add: same)
  qed (simp add: same c)
  have 3: "container_of ?s v \<noteq> None \<and> unfitted v ?s \<longrightarrow> (\<exists>u d. get_pcs ?s u \<in> {Made v d False, Undone v})" for v
  proof
    assume a: "container_of ?s v \<noteq> None \<and> unfitted v ?s"
    then have v: "v \<noteq> w" by (cases "v = w") (simp_all add: same)
    with a obtain u d where u: "get_pcs s u \<in> {Made v d False, Undone v}"
      using inv unfolding same unfitted_def statics_inv_def by (metis fun_upd_other)
    then have "u \<noteq> t" using p v by auto
    with u show "\<exists>u d. get_pcs ?s u \<in> {Made v d False, Undone v}" by (auto simp: same)
  qed
  have 4: "\<forall>(v, d) \<in> set (fitted ?s). container_of ?s v = Some d \<and> d \<notin> set (discarded ?s) \<and> d < next_obj ?s"
  proof clarify
    fix v d assume "(v, d) \<in> set (fitted ?s)"
    moreover from this have "v \<noteq> w" using c(2) unfolding same unfitted_def by blast
    ultimately show "container_of ?s v = Some d \<and> d \<notin> set (discarded ?s) \<and> d < next_obj ?s"
      using fitted_published [OF inv] by (simp add: same)
  qed
  have "\<forall>u. holds_mutex (get_pcs ?s u) \<longleftrightarrow> get_mutex ?s = Some u" "\<forall>u. pc_ok always ?s (get_pcs ?s u)"
    "\<forall>v. container_of ?s v \<noteq> None \<and> unfitted v ?s \<longrightarrow> (\<exists>u d. get_pcs ?s u \<in> {Made v d False, Undone v})"
    using 1 2 3 by blast+
  then show ?thesis using inv 4 unfolding statics_inv_def by (simp add: same)
qed

lemma step_inv:
  assumes inv: "statics_inv always s" and ok: "always \<Longrightarrow> \<forall>v. container_fd create v"
  shows "statics_inv always (get_step create w t s)"
proof -
  have pc: "pc_ok always s (get_pcs s t)" and lock: "holds_mutex (get_pcs s t) \<longleftrightarrow> get_mutex s = Some t"
    using inv unfolding statics_inv_def by blast+
  have move: "statics_inv always (at_pc t q (s\<lparr>get_mutex := m\<rparr>))"
    if "pc_ok always s q" "holds_mutex q \<longleftrightarrow> m = Some t" "holds_mutex (get_pcs s t) \<longrightarrow> m = None \<or> m = get_mutex s"
      "\<not> holds_mutex (get_pcs s t) \<longrightarrow> m = get_mutex s \<or> get_mutex s = None \<and> m = Some t"
      "\<And>w c. get_pcs s t \<noteq> Made w c False \<and> get_pcs s t \<noteq> Undone w" for q m
    using move_inv [OF inv refl that(1-4)] that(5) by blast
  have stay: "statics_inv always (at_pc t q s)"
    if "pc_ok always s q" "holds_mutex q \<longleftrightarrow> holds_mutex (get_pcs s t)"
      "\<And>w c. get_pcs s t \<noteq> Made w c False \<and> get_pcs s t \<noteq> Undone w" for q
    using move [of q "get_mutex s"] that lock by simp
  have known: "\<not> unfitted v s" if "always" "container_of s v \<noteq> None" for v
  proof
    assume "unfitted v s"
    with that(2) obtain u c where "get_pcs s u \<in> {Made v c False, Undone v}"
      using inv unfolding statics_inv_def by blast
    moreover have "pc_ok always s (get_pcs s u)" using inv unfolding statics_inv_def by blast
    ultimately show False using that(1) by auto
  qed
  show ?thesis
  proof (cases "get_pcs s t")
    case Outside
    then show ?thesis using known [of w] by (auto simp: get_step_def intro!: stay)
  next
    case (Waiting_mutex v)
    then show ?thesis using inv by (auto simp: get_step_def intro!: move)
  next
    case (Rechecking v)
    obtain s' c b where m: "make_container create v s = (s', c, b)" by (cases "make_container create v s") auto
    show ?thesis
    proof (cases "container_of s v")
      case None
      then show ?thesis using made_inv [OF inv Rechecking None m] ok by (simp add: get_step_def Rechecking m)
    next
      case (Some c)
      then show ?thesis using known [of v] Rechecking by (auto simp: get_step_def intro!: stay)
    qed
  next
    case (Made v c b)
    show ?thesis
    proof (cases b)
      case True
      then show ?thesis using pc Made by (auto simp: get_step_def unfitted_def intro!: stay)
    next
      case False
      then show ?thesis using undo_inv [OF inv] Made by (simp add: get_step_def)
    qed
  next
    case (Undone v)
    then show ?thesis using clear_inv [OF inv] by (simp add: get_step_def)
  next
    case (Unlocking v)
    then show ?thesis using pc lock by (auto simp: get_step_def intro!: move)
  next
    case (Reading v)
    have "\<exists>c. container_of s v = Some c \<and> (v, c) \<in> set (fitted s)" if always
      using pc that inv unfolding Reading statics_inv_def by (auto simp: unfitted_def)
    then show ?thesis using Reading by (auto simp: get_step_def intro!: stay)
  next
    case (Got v r)
    then show ?thesis by (auto simp: get_step_def intro!: stay)
  qed
qed

lemma statics_inv_reachable: "(statics_step always)\<^sup>*\<^sup>* no_statics s \<Longrightarrow> statics_inv always s"
proof (induction rule: rtranclp_induct)
  case base
  show ?case by (simp add: statics_inv_def no_statics_def tasks_inv_def)
next
  case (step s s')
  from step.hyps(2) show ?case by cases (use step.IH step_inv in blast)
qed


lemma schedule_reachable:
  assumes "always \<Longrightarrow> \<forall>v. container_fd create v"
  shows "(statics_step always)\<^sup>*\<^sup>* s (fold (get_step create w) ts s)"
proof (induction ts arbitrary: s)
  case (Cons t ts)
  have "statics_step always s (get_step create w t s)" by (rule statics_stepI) (rule assms)
  then show ?case using Cons.IH [of "get_step create w t s"] by (auto intro: converse_rtranclp_into_rtranclp)
qed simp

lemmas get_eval = get_step_def at_pc_def no_statics_def make_container_def container_fd_def
  getPollTaskLocked_def getMsgTaskLocked_def Let_def

text \<open>Two threads that start the first timer at the same time: the second finds the mutex taken.\<close>

definition two_starts :: timer_statics where
  "two_starts = fold (get_step (\<lambda>c. Fd_made) False) [0, 1, 0, 0, 0, 0, 1, 1, 1, 0, 1] no_statics"


text \<open>
  When no descriptor is granted, the container is in the static member until it has been deleted, and \<open>get\<close>
  looks at the member without the mutex: another thread gets a container that is deleted.
\<close>

lemma deleted_container_handed_out:
  "\<exists>s c. (statics_step False)\<^sup>*\<^sup>* no_statics s \<and> get_pcs s 1 = Got w (Some c) \<and> c \<in> set (discarded s)"
proof -
  let ?s = "fold (get_step (\<lambda>c. Fd_failed) w) [0, 0, 0, 1, 1, 0] no_statics"
  have "(statics_step False)\<^sup>*\<^sup>* no_statics ?s" by (rule schedule_reachable) simp
  moreover have "get_pcs ?s 1 = Got w (Some 0) \<and> 0 \<in> set (discarded ?s)" by (simp add: get_eval)
  ultimately show ?thesis by blast
qed

text \<open>Without such a race the caller gets \<open>NULL\<close>, and \<open>LocTimerDelegate\<close> adds itself to it unseen.\<close>

definition new_LocTimerDelegate :: "nat option \<Rightarrow> (nat \<Rightarrow> 's \<Rightarrow> 's) \<Rightarrow> 's \<Rightarrow> 's option" where
  "new_LocTimerDelegate mContainer add s = (case mContainer of None \<Rightarrow> None | Some c \<Rightarrow> Some (add c s))"

lemma timer_without_container_faults:
  "\<exists>s. (statics_step False)\<^sup>*\<^sup>* no_statics s \<and>
    (\<exists>r. get_pcs s 0 = Got w r \<and> new_LocTimerDelegate r add x = None)"
proof -
  let ?s = "fold (get_step (\<lambda>c. Fd_failed) w) [0, 0, 0, 0, 0, 0, 0] no_statics"
  have "(statics_step False)\<^sup>*\<^sup>* no_statics ?s" by (rule schedule_reachable) simp
  moreover have "get_pcs ?s 0 = Got w None" by (simp add: get_eval)
  ultimately show ?thesis by (metis new_LocTimerDelegate_def option.case(1))
qed

section \<open>The handles of the C interface\<close>

text \<open>
  One object behind a handle.  Its members stay readable after it has been deleted, as the destructor left
  them, as long as the memory is not used again; \<open>stale\<close> counts the uses of the deleted object,
  \<open>deletions\<close> and \<open>callbacks\<close> what the names say; the model goes on after such a use, which in the program may
  also end in a fault, since the lock of a deleted object is \<open>NULL\<close>.  \<open>handle\<close> is whether the client's handle is not \<open>NULL\<close>.
\<close>

datatype expiry_pc =
    Not_expired | Has_client | Has_stopped | Has_callback bool | Has_called | Expiry_over

record timer_wrapper =
  mCb :: bool
  mMe :: bool
  has_timer :: bool
  handle :: bool
  expiry :: expiry_pc
  deletions :: nat
  callbacks :: nat
  stale :: nat

definition started_wrapper :: timer_wrapper where
  "started_wrapper = \<lparr>mCb = True, mMe = True, has_timer = True, handle = True, expiry = Not_expired,
     deletions = 0, callbacks = 0, stale = 0\<rparr>"

text \<open>A use of the object counts when it has been deleted.\<close>

definition use_wrapper :: "timer_wrapper \<Rightarrow> timer_wrapper" where
  "use_wrapper s = (if deletions s > 0 then s\<lparr>stale := stale s + 1\<rparr> else s)"

text \<open>\<open>LocTimerWrapper::destroy\<close>, under the mutex; the destructor clears the members and stops the timer.\<close>

definition wrapper_destroy :: "timer_wrapper \<Rightarrow> timer_wrapper" where
  "wrapper_destroy s0 =
     (let s = use_wrapper s0
      in if mCb s \<and> mMe s
         then s\<lparr>mCb := False, mMe := False, has_timer := False, deletions := deletions s + 1\<rparr>
         else s)"

text \<open>\<open>loc_timer_stop\<close>.\<close>

definition wrapper_stop :: "timer_wrapper \<Rightarrow> timer_wrapper" where
  "wrapper_stop s = (if handle s then (wrapper_destroy s)\<lparr>handle := False\<rparr> else s)"

text \<open>
  The message task in \<open>LocTimerDelegate::expire\<close> and \<open>LocTimerWrapper::timeOutCallback\<close>: it reads the client of
  the timer, which is \<open>NULL\<close> once the timer is stopped; stops the client; reads its callback; calls it; and
  destroys the object.
\<close>

definition expiry_step :: "timer_wrapper \<Rightarrow> timer_wrapper" where
  "expiry_step s =
     (case expiry s of
        Not_expired \<Rightarrow> s\<lparr>expiry := (if has_timer s then Has_client else Expiry_over)\<rparr>
      | Has_client \<Rightarrow>
          (let s1 = use_wrapper s
           in if has_timer s1 then s1\<lparr>has_timer := False, expiry := Has_stopped\<rparr> else s1\<lparr>expiry := Expiry_over\<rparr>)
      | Has_stopped \<Rightarrow> (let s1 = use_wrapper s in s1\<lparr>expiry := Has_callback (mCb s1)\<rparr>)
      | Has_callback cb \<Rightarrow> s\<lparr>callbacks := callbacks s + (if cb then 1 else 0), expiry := Has_called\<rparr>
      | Has_called \<Rightarrow> (wrapper_destroy s)\<lparr>expiry := Expiry_over\<rparr>
      | Expiry_over \<Rightarrow> s)"

text \<open>The client stops the timer once at most; \<open>early\<close> says that it does so only before the expiry has begun.\<close>

inductive wrapper_step :: "bool \<Rightarrow> timer_wrapper \<Rightarrow> timer_wrapper \<Rightarrow> bool" for early where
  expires: "wrapper_step early s (expiry_step s)"
| stops: "(early \<Longrightarrow> expiry s = Not_expired) \<Longrightarrow> wrapper_step early s (wrapper_stop s)"

definition wrapper_inv :: "bool \<Rightarrow> timer_wrapper \<Rightarrow> bool" where
  "wrapper_inv early s \<longleftrightarrow>
     deletions s \<le> 1 \<and> (mCb s \<longleftrightarrow> deletions s = 0) \<and> (mMe s \<longleftrightarrow> mCb s) \<and> (has_timer s \<longrightarrow> mCb s) \<and>
     (callbacks s = 0 \<or> callbacks s = 1 \<and> expiry s \<in> {Has_called, Expiry_over}) \<and>
     (expiry s = Expiry_over \<longrightarrow> deletions s = 1 \<or> callbacks s = 0) \<and>
     (handle s \<and> expiry s = Not_expired \<longrightarrow> has_timer s) \<and>
     (early \<longrightarrow> stale s = 0 \<and>
        (expiry s = Not_expired \<longrightarrow> (handle s \<longleftrightarrow> mCb s)) \<and>
        (expiry s \<notin> {Not_expired, Expiry_over} \<longrightarrow> handle s) \<and>
        (expiry s \<in> {Has_client, Has_stopped, Has_called} \<longrightarrow> mCb s) \<and> (\<forall>b. expiry s = Has_callback b \<longrightarrow> b \<and> mCb s) \<and>
        (expiry s = Has_client \<longrightarrow> has_timer s) \<and> (expiry s = Has_called \<longrightarrow> callbacks s = 1) \<and>
        (expiry s = Expiry_over \<longrightarrow> deletions s = 1 \<and> (callbacks s = 1 \<longleftrightarrow> handle s)))"

lemma wrapper_inv_step: "\<lbrakk>wrapper_step early s s'; wrapper_inv early s\<rbrakk> \<Longrightarrow> wrapper_inv early s'"
proof (induction rule: wrapper_step.induct)
  case (expires s)
  then show ?case
    by (cases "expiry s")
      (auto simp: wrapper_inv_def expiry_step_def use_wrapper_def wrapper_destroy_def Let_def)
next
  case (stops s)
  then show ?case
    by (cases "expiry s") (auto simp: wrapper_inv_def wrapper_stop_def use_wrapper_def wrapper_destroy_def Let_def)
qed

lemma wrapper_inv_reachable: "(wrapper_step early)\<^sup>*\<^sup>* started_wrapper s \<Longrightarrow> wrapper_inv early s"
proof (induction rule: rtranclp_induct)
  case base
  show ?case by (simp add: wrapper_inv_def started_wrapper_def)
qed (rule wrapper_inv_step)

text \<open>
  C9: the object behind a handle is deleted once at most and its callback called once at most, whatever
  the client and the expiry do to it at the same time.  When the client stops the timer before it
  expires or not at all, the deleted object is never used, and the object is deleted in the end: by the
  client without a callback, or by the expiry after the callback.
\<close>

theorem timer_handle_life:
  assumes "(wrapper_step early)\<^sup>*\<^sup>* started_wrapper s"
  shows "deletions s \<le> 1 \<and> callbacks s \<le> 1 \<and>
    (early \<longrightarrow> stale s = 0 \<and>
       (expiry s = Expiry_over \<longrightarrow> deletions s = 1 \<and> callbacks s = (if handle s then 1 else 0)))"
proof -
  note inv = wrapper_inv_reachable [OF assms, unfolded wrapper_inv_def]
  then have 1: "deletions s \<le> 1" "callbacks s = 0 \<or> callbacks s = 1" by blast+
  have "stale s = 0" "expiry s = Expiry_over \<longrightarrow> deletions s = 1 \<and> (callbacks s = 1 \<longleftrightarrow> handle s)" if early
    using inv that by blast+
  with 1 show ?thesis by (cases "handle s") auto
qed

lemmas wrapper_eval = expiry_step_def wrapper_stop_def wrapper_destroy_def use_wrapper_def started_wrapper_def Let_def

lemma expiry_steps: "(wrapper_step early)\<^sup>*\<^sup>* s ((expiry_step ^^ n) s)"
  by (induction n) (auto intro: rtranclp.rtrancl_into_rtrancl wrapper_step.expires)

lemma stopped_after: "(wrapper_step False)\<^sup>*\<^sup>* s (wrapper_stop ((expiry_step ^^ n) s))"
  by (rule rtranclp.rtrancl_into_rtrancl [OF expiry_steps [of False s n]]) (simp add: wrapper_step.stops)

lemma expired_wrapper:
  "(expiry_step ^^ 3) started_wrapper = started_wrapper\<lparr>has_timer := False, expiry := Has_callback True\<rparr>"
  "(expiry_step ^^ 5) started_wrapper =
     started_wrapper\<lparr>mCb := False, mMe := False, has_timer := False, expiry := Expiry_over, deletions := 1,
       callbacks := 1\<rparr>"
proof -
  let ?s = "started_wrapper\<lparr>has_timer := False\<rparr>"
  have times: "(f ^^ 3) x = f (f (f x))" "(f ^^ 5) x = f (f (f (f (f x))))" for f :: "'a \<Rightarrow> 'a" and x
    by (simp_all add: eval_nat_numeral)
  have 1: "expiry_step started_wrapper = started_wrapper\<lparr>expiry := Has_client\<rparr>" by (simp add: wrapper_eval)
  have 2: "expiry_step (started_wrapper\<lparr>expiry := Has_client\<rparr>) = ?s\<lparr>expiry := Has_stopped\<rparr>" by (simp add: wrapper_eval)
  have 3: "expiry_step (?s\<lparr>expiry := Has_stopped\<rparr>) = ?s\<lparr>expiry := Has_callback True\<rparr>" by (simp add: wrapper_eval)
  have 4: "expiry_step (?s\<lparr>expiry := Has_callback True\<rparr>) = ?s\<lparr>expiry := Has_called, callbacks := 1\<rparr>"
    by (simp add: wrapper_eval)
  have 5: "expiry_step (?s\<lparr>expiry := Has_called, callbacks := 1\<rparr>) =
      ?s\<lparr>mCb := False, mMe := False, expiry := Expiry_over, deletions := 1, callbacks := 1\<rparr>"
    by (simp add: wrapper_eval)
  show "(expiry_step ^^ 3) started_wrapper = started_wrapper\<lparr>has_timer := False, expiry := Has_callback True\<rparr>"
    by (simp only: times 1 2 3)
  show "(expiry_step ^^ 5) started_wrapper =
      started_wrapper\<lparr>mCb := False, mMe := False, has_timer := False, expiry := Expiry_over, deletions := 1,
        callbacks := 1\<rparr>"
    by (simp only: times 1 2 3 4 5) simp
qed

theorem timer_handle_life_witness:
  "\<exists>s. s = (expiry_step ^^ 5) started_wrapper \<and> stale s = 0 \<and> deletions s = 1 \<and> callbacks s = (if handle s then 1 else 0)"
proof -
  have "expiry ((expiry_step ^^ 5) started_wrapper) = Expiry_over" by (simp only: expired_wrapper) simp
  then show ?thesis using timer_handle_life [OF expiry_steps [of True started_wrapper 5]] by blast
qed

text \<open>A callback comes after \<open>loc_timer_stop\<close> has returned, when the expiry has already read it.\<close>

lemma callback_after_stop:
  "\<exists>s. (wrapper_step False)\<^sup>*\<^sup>* started_wrapper (wrapper_stop s) \<and>
     callbacks (wrapper_stop s) = 0 \<and> deletions (wrapper_stop s) = 1 \<and> callbacks (expiry_step (wrapper_stop s)) = 1"
proof -
  have "callbacks (wrapper_stop ((expiry_step ^^ 3) started_wrapper)) = 0 \<and>
    deletions (wrapper_stop ((expiry_step ^^ 3) started_wrapper)) = 1 \<and>
    callbacks (expiry_step (wrapper_stop ((expiry_step ^^ 3) started_wrapper))) = 1"
    unfolding expired_wrapper by (simp add: wrapper_eval)
  then show ?thesis using stopped_after by blast
qed

text \<open>A handle that is stopped after its callback is the address of a deleted object, which is looked at.\<close>

lemma stop_after_expiry_uses_deleted:
  "\<exists>s. (wrapper_step False)\<^sup>*\<^sup>* started_wrapper (wrapper_stop s) \<and> expiry s = Expiry_over \<and> stale (wrapper_stop s) = 1"
proof -
  have "expiry ((expiry_step ^^ 5) started_wrapper) = Expiry_over \<and>
    stale (wrapper_stop ((expiry_step ^^ 5) started_wrapper)) = 1"
    unfolding expired_wrapper by (simp add: wrapper_eval)
  then show ?thesis using stopped_after by blast
qed

end
