(* ===== verification/Loc_Adapter.thy ===== *)
theory Loc_Adapter
  imports Loc_Api
begin

text \<open>
  The base class of the adapters (\<open>src/gps/core/LocAdapterBase.cpp\<close>, \<open>LocAdapterBase.h\<close>) with the proxy that an adapter
  may stand for (\<open>LocAdapterProxyBase.h\<close>), and the base class of the contexts (\<open>ContextBase.cpp\<close>): how an
  adapter comes into the table of the modem and leaves it, and what it does with a report it has not
  overridden.
\<close>

section \<open>Adapters and their proxies\<close>

text \<open>The functions of a proxy that a subclass may override; \<open>proxy_position\<close> tells whether it has handled the report.\<close>

record 's adapter_proxy =
  proxy_up :: "'s \<Rightarrow> 's"
  proxy_down :: "'s \<Rightarrow> 's"
  proxy_position :: "'s \<Rightarrow> bool \<times> 's"

text \<open>\<open>LocAdapterProxyBase\<close> itself.\<close>

definition LocAdapterProxyBase :: "'s adapter_proxy" where
  "LocAdapterProxyBase = \<lparr>proxy_up = (\<lambda>w. w), proxy_down = (\<lambda>w. w), proxy_position = (\<lambda>w. (False, w))\<rparr>"

definition adapter_handleEngineUpEvent :: "'s adapter_proxy option \<Rightarrow> 's \<Rightarrow> 's" where
  "adapter_handleEngineUpEvent mLocAdapterProxyBase w =
     (case mLocAdapterProxyBase of None \<Rightarrow> w | Some p \<Rightarrow> proxy_up p w)"

definition adapter_handleEngineDownEvent :: "'s adapter_proxy option \<Rightarrow> 's \<Rightarrow> 's" where
  "adapter_handleEngineDownEvent mLocAdapterProxyBase w =
     (case mLocAdapterProxyBase of None \<Rightarrow> w | Some p \<Rightarrow> proxy_down p w)"

text \<open>A position that no proxy handles is only noted in the log.\<close>

definition adapter_reportPosition :: "'s adapter_proxy option \<Rightarrow> 's \<Rightarrow> 's" where
  "adapter_reportPosition mLocAdapterProxyBase w =
     (case mLocAdapterProxyBase of None \<Rightarrow> w | Some p \<Rightarrow> snd (proxy_position p w))"

text \<open>An adapter of the base class, for the table of the modem.\<close>

definition base_adapter_call :: "(addr \<Rightarrow> 's adapter_proxy option) \<Rightarrow> addr \<Rightarrow> api_upcall \<Rightarrow> 's \<Rightarrow> bool \<times> 's" where
  "base_adapter_call proxies a u w =
     (if u = reportPosition then (False, adapter_reportPosition (proxies a) w) else LocAdapterBase_call a u w)"

text \<open>
  The constructor and the destructor: the masks of the adapters and the table are the state.  A proxy makes
  its adapter in its own constructor and deletes it in its destructor.
\<close>

definition new_LocAdapterBase :: "addr \<Rightarrow> uint32 \<Rightarrow> (addr \<Rightarrow> uint32) \<times> loc_api \<Rightarrow> (addr \<Rightarrow> uint32) \<times> loc_api" where
  "new_LocAdapterBase a wanted = (\<lambda>(evt, s). (let evt' = evt(a := wanted) in (evt', addAdapter evt' a s)))"

definition delete_LocAdapterBase :: "addr \<Rightarrow> (addr \<Rightarrow> uint32) \<times> loc_api \<Rightarrow> (addr \<Rightarrow> uint32) \<times> loc_api" where
  "delete_LocAdapterBase a = (\<lambda>(evt, s). (evt, removeAdapter evt a s))"

definition new_proxy :: "addr \<Rightarrow> uint32 \<Rightarrow> (addr \<Rightarrow> uint32) \<times> loc_api \<Rightarrow> (addr \<Rightarrow> uint32) \<times> loc_api" where
  "new_proxy a wanted = new_LocAdapterBase a wanted"

definition delete_proxy :: "addr \<Rightarrow> (addr \<Rightarrow> uint32) \<times> loc_api \<Rightarrow> (addr \<Rightarrow> uint32) \<times> loc_api" where
  "delete_proxy a = delete_LocAdapterBase a"

definition proxy_updateEvtMask ::
  "addr \<Rightarrow> uint32 \<Rightarrow> bool \<Rightarrow> (addr \<Rightarrow> uint32) \<times> loc_api \<Rightarrow> (addr \<Rightarrow> uint32) \<times> loc_api" where
  "proxy_updateEvtMask a event isEnabled = adapter_updateEvtMask a event isEnabled"

definition checkMask :: "uint32 \<Rightarrow> uint32 \<Rightarrow> uint32" where
  "checkMask mEvtMask wanted = and mEvtMask wanted"

section \<open>The life of an adapter\<close>

lemma takeWhile_absent: "a \<notin> set xs \<Longrightarrow> takeWhile (\<lambda>x. x \<noteq> a) (xs @ [a]) = xs"
  by (induction xs) auto

text \<open>
  An adapter that comes and goes leaves the table as it was.  The modem is asked for the events of the
  newcomer, and then for those of the others, or is closed when there are none.
\<close>

theorem adapter_comes_and_goes:
  assumes "api_rep s xs" "a \<notin> set xs" "length xs < MAX_ADAPTERS"
    and "delete_LocAdapterBase a (new_LocAdapterBase a wanted (evt, s)) = (evt', s')"
  shows "api_rep s' xs \<and>
    (xs = [] \<longrightarrow> api_queue s' = api_queue s @ [LocOpenMsg wanted] \<and> api_calls s' = api_calls s @ [Api_close]) \<and>
    (xs \<noteq> [] \<longrightarrow> (\<exists>m. api_queue s' = api_queue s @ [LocOpenMsg wanted, LocOpenMsg m] \<and> api_calls s' = api_calls s \<and>
       (\<forall>n. bit m n \<longleftrightarrow> (\<exists>b \<in> set xs. bit (evt b) n) \<and> \<not> bit (mExcludedMask s) n)))"
proof -
  let ?e = "evt(a := wanted)"
  have add: "addAdapter ?e a s = api_send (LocOpenMsg wanted) (s\<lparr>mLocAdapters := slots (xs @ [a])\<rparr>)"
    using add_loop_slots [of xs s 0 a ?e] assms(1-3) unfolding addAdapter_def api_rep_def by simp
  define t where "t = addAdapter ?e a s"
  have t: "api_rep t (xs @ [a])" "api_queue t = api_queue s @ [LocOpenMsg wanted]" "api_calls t = api_calls s"
    "mExcludedMask t = mExcludedMask s"
    using assms(1-3) unfolding t_def add by (auto simp: api_rep_def api_send_def)
  have gone: "remove_list a (xs @ [a]) = xs" using assms(2) by (simp add: remove_list_def takeWhile_absent)
  obtain s1 where s1: "api_rep s1 xs" "mExcludedMask s1 = mExcludedMask s"
    and rm: "removeAdapter ?e a t =
      (if length (xs @ [a]) = 1 then s1\<lparr>api_calls := api_calls t @ [Api_close], api_queue := api_queue t\<rparr>
       else s1\<lparr>api_calls := api_calls t, api_queue := api_queue t @ [LocOpenMsg (getEvtMask ?e s1)]\<rparr>)"
    using removeAdapter_effect [OF t(1), of a ?e] unfolding gone t(4) by auto
  have s': "s' = removeAdapter ?e a t"
    using assms(4) by (auto simp: delete_LocAdapterBase_def new_LocAdapterBase_def Let_def t_def)
  have "bit (getEvtMask ?e s1) n \<longleftrightarrow> (\<exists>b \<in> set xs. bit (evt b) n) \<and> \<not> bit (mExcludedMask s) n" for n
    using event_mask_of_rep [OF s1(1), of ?e n] s1(2) assms(2) by (auto split: if_splits)
  moreover have "api_rep s' xs" using s1(1) unfolding s' rm by (simp add: api_rep_def)
  ultimately show ?thesis unfolding s' rm t(2,3) by simp
qed

text \<open>A position reaches every proxy, in the order of the table.\<close>

lemma positions_reach_proxies:
  assumes "api_rep s xs"
  shows "upcall (base_adapter_call proxies) reportPosition s w =
    fold (\<lambda>a. adapter_reportPosition (proxies a)) xs w"
  using assms to_all_slots [of xs _ 0] by (simp add: report_all_def base_adapter_call_def api_rep_def)

section \<open>The base class of the contexts\<close>

text \<open>
  \<open>getLBSProxy\<close>: the library may be missing (\<open>None\<close>), lack the function or get nothing from it (\<open>Some None\<close>);
  the result \<open>None\<close> is \<open>LBSProxyBase\<close> itself, whose \<open>getLocApi\<close> gives \<open>NULL\<close>.
\<close>

definition getLBSProxy :: "'l option option \<Rightarrow> 'l option" where
  "getLBSProxy lib = (case lib of None \<Rightarrow> None | Some p \<Rightarrow> p)"

definition LBSProxyBase_getLocApi :: "'p option" where
  "LBSProxyBase_getLocApi = None"

text \<open>The constructor of a context; \<open>lbs_api\<close> is what the proxy of a library gives for the modem.\<close>

record ('l, 'p) context_base =
  mLBSProxy :: "'l option"
  mLocApi :: "'p option"

definition new_ContextBase ::
  "bool \<Rightarrow> ('l \<Rightarrow> 'p option) \<Rightarrow> 'l option option \<Rightarrow> 'p option option \<Rightarrow> 'p option option \<Rightarrow> ('l, 'p) context_base" where
  "new_ContextBase is_MPQ lbs_api lib v02 rpc =
     (let p = getLBSProxy lib;
          api = (case p of None \<Rightarrow> LBSProxyBase_getLocApi | Some l \<Rightarrow> lbs_api l)
      in \<lparr>mLBSProxy = p, mLocApi = createLocApi is_MPQ api v02 rpc\<rparr>)"

text \<open>
  Which modem a context has: on an MPQ always the base class; elsewhere that of the LBS library, then that
  of the first of the two modem libraries that is there, even when it gives nothing.
\<close>

lemma context_modem:
  "mLocApi (new_ContextBase is_MPQ lbs_api lib v02 rpc) = Some m \<longleftrightarrow>
     \<not> is_MPQ \<and> ((\<exists>l. lib = Some (Some l) \<and> lbs_api l = Some m) \<or>
       (\<forall>l. lib = Some (Some l) \<longrightarrow> lbs_api l = None) \<and>
       (v02 = Some (Some m) \<or> v02 = None \<and> rpc = Some (Some m)))"
  by (cases lib; cases "the lib"; cases "lbs_api (the (the lib))")
    (auto simp: new_ContextBase_def getLBSProxy_def LBSProxyBase_getLocApi_def createLocApi_def Let_def
      split: option.splits)

end
