(* ===== verification/Gps_Module.thy ===== *)
theory Gps_Module
  imports Loc_Iface
begin

text \<open>
  How the framework comes to the interface: the hardware module of \<open>src/gps/loc_api/libloc_api_50001/gps.c\<close>, its
  device, and the geofencing interface that \<open>loc.cpp\<close> takes from a library of the vendor
  (\<open>get_geofence_interface\<close>).
\<close>

section \<open>The module and its device\<close>

text \<open>The module is its address; \<open>device_getter\<close> is whether the device has the function of the file.\<close>

record gps_device =
  dev_hardware_tag :: bool
  dev_version :: nat
  dev_module :: addr
  device_getter :: bool

text \<open>\<open>open_gps\<close>: \<open>allocated\<close> is whether there is memory; the device of the caller is left alone without.\<close>

definition open_gps :: "bool \<Rightarrow> addr \<Rightarrow> gps_device option \<Rightarrow> int \<times> gps_device option" where
  "open_gps allocated hw_module device =
     (if \<not> allocated then (- 1, device)
      else (0, Some \<lparr>dev_hardware_tag = True, dev_version = 0, dev_module = hw_module, device_getter = True\<rparr>))"

definition gps__get_gps_interface :: "config_files \<Rightarrow> platform \<Rightarrow> int \<Rightarrow> hal \<Rightarrow> bool \<times> hal" where
  "gps__get_gps_interface f pf fd h = get_gps_interface f pf fd h"

text \<open>What the framework does: it opens the device, and asks it for the interface.\<close>

definition framework_opens :: "bool \<Rightarrow> addr \<Rightarrow> config_files \<Rightarrow> platform \<Rightarrow> int \<Rightarrow> hal \<Rightarrow> bool \<times> hal" where
  "framework_opens allocated hw_module f pf fd h =
     (case open_gps allocated hw_module None of
        (r, Some d) \<Rightarrow> if r = 0 \<and> device_getter d then gps__get_gps_interface f pf fd h else (False, h)
      | (_, None) \<Rightarrow> (False, h))"

section \<open>The geofencing interface\<close>

text \<open>
  \<open>get_geofence_interface\<close>: the library may be missing (\<open>None\<close>) or lack the function (\<open>Some None\<close>); its function
  gives an interface or \<open>NULL\<close>.  The variable is static, so that of an earlier call is given when the library
  cannot be loaded any more.
\<close>

definition get_geofence_interface :: "'g option option option \<Rightarrow> 'g option \<Rightarrow> 'g option" where
  "get_geofence_interface lib geofence_interface =
     (case lib of None \<Rightarrow> geofence_interface | Some None \<Rightarrow> geofence_interface | Some (Some g) \<Rightarrow> g)"

definition geofence_extension :: "string \<Rightarrow> 'g option option option \<Rightarrow> 'g option \<Rightarrow> hal \<Rightarrow> gps_interface option" where
  "geofence_extension baseband lib geofence_interface h =
     loc_get_extension (Some GPS_GEOFENCING_INTERFACE) baseband (get_geofence_interface lib geofence_interface \<noteq> None) h"

section \<open>What the framework gets\<close>

text \<open>
  The framework gets the interface when there is memory for the device and the target has positioning
  hardware, whatever the configuration says.
\<close>

theorem framework_gets_interface:
  "fst (framework_opens allocated hw_module f pf fd h) \<longleftrightarrow>
     allocated \<and> getTargetGnssType (loc_get_target pf (gTarget (loc_eng_read_config f h))) \<noteq> GNSS_NONE"
  by (auto simp: framework_opens_def open_gps_def gps__get_gps_interface_def get_gps_interface_def Let_def
      GNSS_GSS_def GNSS_AUTO_def GNSS_NONE_def)

text \<open>Geofencing needs the bit of the capabilities and the library of the vendor, now or in an earlier call.\<close>

lemma geofencing_needs_library:
  "geofence_extension baseband lib old h = Some GPS_GEOFENCING_INTERFACE \<longleftrightarrow>
     bit (CAPABILITIES (gps_conf (eng h))) 5 \<and> ((\<exists>g. lib = Some (Some (Some g))) \<or> old \<noteq> None \<and> (\<forall>g. lib \<noteq> Some (Some g)))"
proof -
  have "c OR GPS_CAPABILITY_GEOFENCING = c \<longleftrightarrow> bit c 5" for c :: uint32
  proof -
    have five: "bit GPS_CAPABILITY_GEOFENCING n \<longleftrightarrow> n = 5" for n
    proof -
      have "GPS_CAPABILITY_GEOFENCING = (push_bit 5 1 :: uint32)" by (simp add: GPS_CAPABILITY_GEOFENCING_def)
      then have "bit GPS_CAPABILITY_GEOFENCING n \<longleftrightarrow> bit (push_bit 5 1 :: uint32) n" by (rule arg_cong)
      then show ?thesis unfolding bit_push_bit_iff by (auto simp: bit_1_iff)
    qed
    show ?thesis
    proof
      assume "c OR GPS_CAPABILITY_GEOFENCING = c"
      moreover have "bit (c OR GPS_CAPABILITY_GEOFENCING) 5" by (simp add: bit_or_iff five)
      ultimately show "bit c 5" by simp
    next
      assume "bit c 5"
      then show "c OR GPS_CAPABILITY_GEOFENCING = c" by (intro bit_eqI) (auto simp: bit_or_iff five)
    qed
  qed
  then show ?thesis
    by (auto simp: geofence_extension_def loc_get_extension_def get_geofence_interface_def Let_def split: option.splits)
qed

end
