(* ===== verification/Spec2Isabelle.thy ===== *)
theory Spec2Isabelle
  imports Msg_Queue Loc_Timer Lights Loc_Eng_Restart Loc_Eng_Reports Loc_Eng_Config Loc_Dmn_Pipes Loc_Iface_Runs Msg_Task
    Device_Init Loc_Names Loc_Base_Api Loc_Timer_Objects Loc_Adapter Gps_Module
begin

text \<open>
  A verification development of the native code of the device tree of the Nubia NX507J: the location
  library under \<open>src/gps\<close>, and the small libraries for the lights, the WLAN address and the boot
  properties.

  \<^bold>\<open>The program.\<close>  The framework opens the hardware module (\<open>gps.c\<close>) and gets the tables of functions of
  \<open>loc.cpp\<close>.  Their calls reach the location engine (\<open>loc_eng.cpp\<close>), which does little itself: it puts
  messages into a queue (\<open>msg_q.c\<close> on \<open>linked_list.c\<close>), and a thread (\<open>MsgTask.cpp\<close> on \<open>LocThread.cpp\<close>) runs their
  \<open>proc\<close> one after the other.  The messages go through the engine's adapter (\<open>LocEngAdapter.cpp\<close>) to the modem
  (\<open>LocApiBase.cpp\<close>, overridden by a library of the vendor), and its reports come back through the table of
  adapters to the internal adapter, as messages again, and from there to the callbacks of the framework.
  On the way the engine keeps the state machines that ask the framework for a data connection
  (\<open>loc_eng_agps.cpp\<close>), the requests of the network to be located (\<open>loc_eng_ni.cpp\<close>), the NMEA sentences
  (\<open>loc_eng_nmea.cpp\<close>) and the XTRA data (\<open>loc_eng_xtra.cpp\<close>).  Positioning daemons ask for a connection over
  named pipes (\<open>loc_eng_dmn_conn*.cpp\<close> and \<open>.c\<close>), which a server thread reads.  Time-outs come from a timer
  service (\<open>LocTimer.cpp\<close> on \<open>LocHeap.cpp\<close>), settings from configuration files (\<open>loc_cfg.cpp\<close>), and which of
  this the device has from its properties and files (\<open>loc_target.cpp\<close>).

  \<^bold>\<open>The theories.\<close>  Every definition has the name of the function, the type or the member it models, with a prefix
  or suffix where Isabelle has one of this name; a class is a record, an enumeration a datatype, an
  \<open>int\<close> or \<open>unsigned\<close> a 32-bit word where its width matters and an integer elsewhere.

  \<^item> \<open>Prelude\<close>: machine types, shared lemmas on lists, options and words, and the collections of rules.
  \<^item> \<open>Linked_List\<close> (\<open>linked_list.c\<close>): the eight operations on an explicit memory of elements.  They implement
    lists of items (locale \<open>fifo_list\<close>), without a fault or a leak, and the search is a first match.
  \<^item> \<open>Msg_Queue\<close> (\<open>msg_q.c\<close>): the operations, and senders and receivers as steps between critical sections.
    Messages keep their order, and no receiver sleeps while there is a message for it.
  \<^item> \<open>Loc_Heap\<close> (\<open>LocHeap.cpp\<close>): the tree with its recorded sizes.  It sorts, and removal by identity is
    exact, for every ranking that is a strict weak order (locales \<open>rankable\<close>, \<open>ranked_queue\<close>).
  \<^item> \<open>Loc_Timer\<close> (\<open>LocTimer.cpp\<close>): clients, message task and polling thread as interleaved steps over two heaps;
    the arithmetic of the future time.  \<open>Loc_Timer_Objects\<close>: how the containers and tasks are created by
    competing threads, and the life of the object behind a handle of the C interface.
  \<^item> \<open>Loc_Thread\<close> (\<open>LocThread.cpp\<close>): owner and spawned thread, one step for each access to the shared delegate.
    \<open>Msg_Task\<close> (\<open>MsgTask.cpp\<close>, \<open>LocSharedLock.h\<close>): what becomes of every message that is sent to a task.
  \<^item> \<open>Loc_Agps\<close> (\<open>loc_eng_agps.cpp\<close>): the four states, the subscribers and the notifications, with an
    invariant over all runs and the exact answers to a grant and to a denial.
  \<^item> \<open>Loc_Ni\<close> (\<open>loc_eng_ni.cpp\<close>): both sessions with their threads, and who owns the payloads of the modem.
  \<^item> \<open>Loc_Cfg\<close> (\<open>loc_cfg.cpp\<close>, \<open>loc_misc_utils.cpp\<close>): lines, values and tables; an update is compared with the
    fold over the lines that it looks at.
  \<^item> \<open>Loc_Xtra\<close>, \<open>Loc_Nmea\<close>: the texts for the XTRA download and the NMEA sentences, which are read back by a
    decoder and by a receiver that checks them.
  \<^item> \<open>Loc_Eng_State\<close> (\<open>loc_eng.h\<close>, \<open>loc_eng_msg.h\<close>, \<open>LocEngAdapter.cpp\<close>) and \<open>Loc_Eng\<close> (\<open>loc_eng.cpp\<close>): the engine's data,
    its messages, its adapter, every call of the client and the \<open>proc\<close> of every message; \<open>eng_run\<close> is a run of
    calls, reports, requests and handled messages.  Five theories show what such runs keep:
    \<open>Loc_Eng_Session\<close> (the session flag), \<open>Loc_Eng_Safe\<close> (the pointers), \<open>Loc_Eng_Restart\<close> (the restart of the
    modem), \<open>Loc_Eng_Reports\<close> (what reaches the client) and \<open>Loc_Eng_Config\<close> (the settings).
  \<^item> \<open>Loc_Dmn\<close>, \<open>Loc_Dmn_Server\<close>, \<open>Loc_Dmn_Pipes\<close>: the requests of the daemons and the frames in the pipe; the
    server function and the thread helper that runs it; the pipes and what the system answers to them.
  \<^item> \<open>Loc_Api\<close> (\<open>LocApiBase.cpp\<close>, \<open>LocDualContext.cpp\<close>): the table of adapters as a register of at most ten
    (locale \<open>register\<close>), the delivery of reports and requests, the event masks and the contexts.  \<open>Loc_Adapter\<close>
    (\<open>LocAdapterBase.cpp\<close>, \<open>LocAdapterProxyBase.h\<close>, \<open>ContextBase.cpp\<close>): the life of an adapter and of its proxy.
    \<open>Loc_Base_Api\<close>: the modem as the base class answers for it.
  \<^item> \<open>Loc_Target\<close> (\<open>loc_target.cpp\<close>), \<open>Loc_Iface\<close> (\<open>loc.cpp\<close>) and \<open>Loc_Iface_Runs\<close>: the target, the tables of the
    framework, and the runs through the whole stack from the interface to the modem.  \<open>Gps_Module\<close> (\<open>gps.c\<close>):
    how the framework comes to the interface.
  \<^item> \<open>Loc_Names\<close> (\<open>loc_log.cpp\<close>, \<open>loc_core_log.cpp\<close>, \<open>log_util.h\<close>): the names of values, the time stamps, the levels.
  \<^item> \<open>Lights\<close> (\<open>src/liblight/lights.c\<close>) and \<open>Device_Init\<close> (\<open>src/libwcnss_qmi/libwcnss_qmi.c\<close>, \<open>src/init/init_msm8974.cpp\<close>).
\<close>

text \<open>
  \<^bold>\<open>State, steps and errors.\<close>  A function of the source that changes a state takes it as an argument and returns it.
  Concurrency is a step relation in which a step is one critical section, one system call or one access
  to a member that is read without a lock; the theorems hold in every interleaving of the steps.  A call
  through \<open>NULL\<close>, a use of freed memory or another undefined behaviour is \<open>None\<close>, a fault state or a counter of its
  own, so that a theorem can say that it does not happen, or a lemma that it does.

  \<^bold>\<open>Bounds and loops.\<close>  No definition has fuel.  Loops over a list or an index are structural or have a
  measure.  Three loops that need not end are \<open>partial_function (option)\<close>: the search and the flush of the
  linked list, which return on every well-formed list, and the flush of a pipe, which returns when
  the reads do.  The stop of a thread ends within sixteen steps of the two threads, the server thread
  within six of the unblocking.  The machine is 32-bit ARM: \<open>int\<close>, \<open>long\<close>, \<open>size_t\<close> and \<open>time_t\<close> have 32 bits
  and \<open>char\<close> is unsigned.  \<open>float\<close> and \<open>double\<close> are rationals, rounded where the source prints them.

  \<^bold>\<open>Parameters.\<close>  What is not in the sources is an argument: what \<open>malloc\<close>, the clocks, the file system, the
  properties, DNS and \<open>atof\<close> give, what the modem answers, what the framework's callbacks and the libraries
  of the vendor do, and the values of the headers of the framework where only their identity matters.

  \<^bold>\<open>What fails.\<close>  Lemmas next to the properties show where the code does not do what it says: among others a stale
  expiry that fires a timer early (\<open>Loc_Timer\<close>), a deleted container that is handed out and a callback
  after the stop (\<open>Loc_Timer_Objects\<close>), a runnable that is never deleted and one that the caller is told to delete again (\<open>Loc_Thread\<close>),
  messages lost after the end of a task (\<open>Msg_Task\<close>), an answer that faults on a modem without assisted
  positioning (\<open>Loc_Eng_Safe\<close>), a stop that is lost and a mode that is invalid after the restart of the modem
  (\<open>Loc_Eng_Restart\<close>), a payload freed twice (\<open>Loc_Ni\<close>) and a frame that overruns its buffer (\<open>Loc_Dmn_Server\<close>).

  \<^bold>\<open>Not modelled.\<close>
  The texts of the log messages (\<open>log\<close> and \<open>locallog\<close>), their writing and the macros around them change no
  state.  The saving of the user agent file, the lock of \<open>loc_eng_dmn_conn_glue_pipeunblock\<close>, the scheduling policy
  of the threads and \<open>epoll\<close> itself are calls of the system without an effect on the modelled state.
  A thread that stops itself through its own object, and the debug programs at the ends of \<open>LocTimer.cpp\<close>, \<open>LocHeap.cpp\<close> and
  \<open>LocThread.cpp\<close> are left out.  Of \<open>gps.c\<close> only the constants of the module are missing.
  \<open>platform_lib_abstractions\<close> renames functions of the platform and reads a clock.  \<open>libshim\<close> forwards symbols or
  does nothing.  The Java classes (\<open>doze\<close>, \<open>cmhw\<close>) register listeners and settings with Android.  \<open>audio\<close>,
  \<open>rootdir\<close>, \<open>sepolicy\<close>, \<open>wifi\<close>, \<open>bluetooth\<close> and the overlays are data for other programs.  The libraries of the
  vendor that override the base classes at run time are not part of the repository.
\<close>

end
